(* ===== verification/Go_Prelude.thy ===== *)
theory Go_Prelude
  imports Main "HOL-Library.Word" "HOL-Library.Code_Target_Nat" "HOL-Library.Code_Target_Int"
begin

text \<open>
  The prelude of the development: Go's error values, the outcomes of a Go call, and the
  sequential programs (state transformers) in which every stateful component is written.

  A Go function that may fail returns an \<^emph>\<open>error\<close> value.  Some of them are package variables
  that callers compare by identity (the sentinels); all others are freshly made values of which
  callers only see the text.  A call of a stateful function ends in one of three ways: with a
  value, with an error, or not at all for the caller (a panic, or a mutex that is never
  released).  Logging is not modelled: no code of the daemon reads a log back.
\<close>

section \<open>Proof collections\<close>

named_theorems prog_simps \<open>evaluation rules of the program combinators\<close>
named_theorems keeps_intros \<open>introduction rules for invariants of programs\<close>

section \<open>Errors\<close>

text \<open>
  The error variables of the packages, each a distinct pointer: \<open>ipam/allocator.go\<close>,
  \<open>store/store.go\<close>, \<open>sandbox/repository.go\<close>, \<open>sandbox/sandbox.go\<close>, \<open>client/client.go\<close>, and
  \<open>ErrNoRows\<close> of the package \<open>database/sql\<close>.
\<close>

datatype sentinel =
    NoMoreAddressesError
  | AlreadyOnNetworkError
  | RecordNotFoundError
  | RecordExistsError
  | NotFoundError
  | AlreadyExistsError
  | AlreadyDestroyedError
  | ClientRecordNotFoundError
  | ErrNoRows

fun sentinel_text :: "sentinel \<Rightarrow> string" where
  "sentinel_text NoMoreAddressesError = ''no addresses available''"
| "sentinel_text AlreadyOnNetworkError = ''already on this network''"
| "sentinel_text RecordNotFoundError = ''record not found''"
| "sentinel_text RecordExistsError = ''record already exists''"
| "sentinel_text NotFoundError = ''not found''"
| "sentinel_text AlreadyExistsError = ''already exists''"
| "sentinel_text AlreadyDestroyedError = ''sandbox was already destroyed''"
| "sentinel_text ClientRecordNotFoundError = ''record not found''"
| "sentinel_text ErrNoRows = ''sql: no rows in result set''"

text \<open>
  An error value: a sentinel; the result of \<open>fmt.Errorf\<close> or \<open>errors.New\<close> (its text); a
  \<open>commands.GroupError\<close> (the index of the failing command, the rendering of the group around
  it and the original error); a \<open>*pq.Error\<close> (the name of its code and its text); or an error
  of any other package (its text).
\<close>

datatype goerror =
    Sentinel sentinel
  | Errorf string
  | GroupErr nat string goerror
  | PqError string string
  | ExtError string

text \<open>The method \<open>Error() string\<close>.\<close>

fun error_text :: "goerror \<Rightarrow> string" where
  "error_text (Sentinel s) = sentinel_text s"
| "error_text (Errorf t) = t"
| "error_text (GroupErr i g e) = error_text e @ '': commands: '' @ g"
| "error_text (PqError c t) = t"
| "error_text (ExtError t) = t"

text \<open>\<open>fmt.Errorf("p: %s", err)\<close>: a new error, which is no sentinel.\<close>

definition wrapf :: "string \<Rightarrow> goerror \<Rightarrow> goerror" where
  "wrapf p e = Errorf (p @ '': '' @ error_text e)"

lemma wrapf_not_sentinel [simp]: "wrapf p e \<noteq> Sentinel x" "Sentinel x \<noteq> wrapf p e"
  by (simp_all add: wrapf_def)

lemma error_text_wrapf [simp]: "error_text (wrapf p e) = p @ '': '' @ error_text e"
  by (simp add: wrapf_def)

section \<open>Outcomes and programs\<close>

datatype abort = Panic string | Deadlock

datatype 'a outcome = Ok 'a | Err goerror | Abort abort

fun is_ok :: "'a outcome \<Rightarrow> bool" where
  "is_ok (Ok x) = True"
| "is_ok (Err e) = False"
| "is_ok (Abort a) = False"

type_synonym ('s, 'a) prog = "'s \<Rightarrow> 'a outcome \<times> 's"

definition ret :: "'a \<Rightarrow> ('s, 'a) prog" where
  "ret x s = (Ok x, s)"

definition fail :: "goerror \<Rightarrow> ('s, 'a) prog" where
  "fail e s = (Err e, s)"

definition panic :: "string \<Rightarrow> ('s, 'a) prog" where
  "panic t s = (Abort (Panic t), s)"

text \<open>Run \<open>m\<close>; go on with \<open>k\<close> on a value and with \<open>h\<close> on an error.\<close>

definition attempt ::
  "('s, 'a) prog \<Rightarrow> (goerror \<Rightarrow> ('s, 'b) prog) \<Rightarrow> ('a \<Rightarrow> ('s, 'b) prog) \<Rightarrow> ('s, 'b) prog" where
  "attempt m h k s =
     (case m s of
        (Ok x, t) \<Rightarrow> k x t
      | (Err e, t) \<Rightarrow> h e t
      | (Abort a, t) \<Rightarrow> (Abort a, t))"

text \<open>\<open>x, err := m; if err != nil { return fmt.Errorf("p: %s", err) }\<close>\<close>

definition bind_wrap ::
  "string \<Rightarrow> ('s, 'a) prog \<Rightarrow> ('a \<Rightarrow> ('s, 'b) prog) \<Rightarrow> ('s, 'b) prog" where
  "bind_wrap p m k = attempt m (\<lambda>e. fail (wrapf p e)) k"

text \<open>\<open>x, err := m; if err != nil { return err }\<close>\<close>

definition bind_err :: "('s, 'a) prog \<Rightarrow> ('a \<Rightarrow> ('s, 'b) prog) \<Rightarrow> ('s, 'b) prog" where
  "bind_err m k = attempt m fail k"

text \<open>
  \<open>defer d()\<close> for a state change \<open>d\<close>: it runs when \<open>m\<close> returns or panics, but not when \<open>m\<close> is
  blocked for ever.
\<close>

definition deferring :: "('s \<Rightarrow> 's) \<Rightarrow> ('s, 'a) prog \<Rightarrow> ('s, 'a) prog" where
  "deferring d m s = (case m s of (r, t) \<Rightarrow> (r, if r = Abort Deadlock then t else d t))"

definition deadlock :: "('s, 'a) prog" where
  "deadlock s = (Abort Deadlock, s)"

text \<open>A call that cannot fail, and one whose result is a value or an error.\<close>

definition pick :: "goerror + 'a \<Rightarrow> ('s, 'a) prog" where
  "pick r s = (case r of Inl e \<Rightarrow> (Err e, s) | Inr x \<Rightarrow> (Ok x, s))"

definition gets :: "('s \<Rightarrow> 'a) \<Rightarrow> ('s, 'a) prog" where
  "gets f s = (Ok (f s), s)"

definition modify :: "('s \<Rightarrow> 's) \<Rightarrow> ('s, unit) prog" where
  "modify f s = (Ok (), f s)"

lemma prog_basic [prog_simps]:
  "ret x s = (Ok x, s)"
  "deadlock s = (Abort Deadlock, s)"
  "pick (Inl e) s = (Err e, s)"
  "pick (Inr x) s = (Ok x, s)"
  "fail e s = (Err e, s)"
  "panic t s = (Abort (Panic t), s)"
  "gets f s = (Ok (f s), s)"
  "modify g s = (Ok (), g s)"
  by (simp_all add: ret_def fail_def panic_def deadlock_def pick_def gets_def modify_def)

lemma attempt_eval:
  "m s = (Ok x, t) \<Longrightarrow> attempt m h k s = k x t"
  "m s = (Err e, t) \<Longrightarrow> attempt m h k s = h e t"
  "m s = (Abort a, t) \<Longrightarrow> attempt m h k s = (Abort a, t)"
  by (simp_all add: attempt_def)

lemma bind_wrap_eval:
  "m s = (Ok x, t) \<Longrightarrow> bind_wrap p m k s = k x t"
  "m s = (Err e, t) \<Longrightarrow> bind_wrap p m k s = (Err (wrapf p e), t)"
  "m s = (Abort a, t) \<Longrightarrow> bind_wrap p m k s = (Abort a, t)"
  by (simp_all add: bind_wrap_def attempt_def fail_def)

lemma bind_err_eval:
  "m s = (Ok x, t) \<Longrightarrow> bind_err m k s = k x t"
  "m s = (Err e, t) \<Longrightarrow> bind_err m k s = (Err e, t)"
  "m s = (Abort a, t) \<Longrightarrow> bind_err m k s = (Abort a, t)"
  by (simp_all add: bind_err_def attempt_def fail_def)

lemmas prog_eval = attempt_eval bind_wrap_eval bind_err_eval

lemma deferring_eval:
  "m s = (r, t) \<Longrightarrow> r \<noteq> Abort Deadlock \<Longrightarrow> deferring d m s = (r, d t)"
  "m s = (Abort Deadlock, t) \<Longrightarrow> deferring d m s = (Abort Deadlock, t)"
  by (simp_all add: deferring_def)

text \<open>
  For kernel evaluation, sequencing becomes a case distinction, so that the rest of a program is
  evaluated only once the outcome before it is known.
\<close>

lemma attempt_code [code_unfold]:
  "attempt m h k = (\<lambda>s. case m s of (r, t) \<Rightarrow>
     (case r of Ok x \<Rightarrow> k x t | Err e \<Rightarrow> h e t | Abort a \<Rightarrow> (Abort a, t)))"
  by (rule ext) (simp add: attempt_def split: prod.splits outcome.splits)

lemma bind_wrap_code [code_unfold]:
  "bind_wrap p m k = (\<lambda>s. case m s of (r, t) \<Rightarrow>
     (case r of Ok x \<Rightarrow> k x t | Err e \<Rightarrow> (Err (wrapf p e), t) | Abort a \<Rightarrow> (Abort a, t)))"
  by (simp add: bind_wrap_def attempt_code fail_def [abs_def])

lemma bind_err_code [code_unfold]:
  "bind_err m k = (\<lambda>s. case m s of (r, t) \<Rightarrow>
     (case r of Ok x \<Rightarrow> k x t | Err e \<Rightarrow> (Err e, t) | Abort a \<Rightarrow> (Abort a, t)))"
  by (simp add: bind_err_def attempt_code fail_def [abs_def])

lemma attempt_ret [simp]: "attempt (ret x) h k = k x"
  by (rule ext) (simp add: attempt_def ret_def)

lemma bind_wrap_ret [simp]: "bind_wrap p (ret x) k = k x"
  by (simp add: bind_wrap_def)

lemma bind_err_ret [simp]: "bind_err (ret x) k = k x"
  by (simp add: bind_err_def)

text \<open>Inversion: how a successful sequence came about.\<close>

lemma bind_wrap_OkE:
  assumes "bind_wrap p m k s = (Ok y, u)"
  obtains x t where "m s = (Ok x, t)" "k x t = (Ok y, u)"
  using assms
  by (cases "m s"; cases "fst (m s)") (auto simp: bind_wrap_def attempt_def fail_def)

lemma bind_err_OkE:
  assumes "bind_err m k s = (Ok y, u)"
  obtains x t where "m s = (Ok x, t)" "k x t = (Ok y, u)"
  using assms
  by (cases "m s"; cases "fst (m s)") (auto simp: bind_err_def attempt_def fail_def)

section \<open>Invariants of programs\<close>

text \<open>\<open>keeps P m\<close>: however \<open>m\<close> ends, \<open>P\<close> still holds if it held before.\<close>

definition keeps :: "('s \<Rightarrow> bool) \<Rightarrow> ('s, 'a) prog \<Rightarrow> bool" where
  "keeps P m \<longleftrightarrow> (\<forall>s. P s \<longrightarrow> P (snd (m s)))"

lemma keepsI: "(\<And>s. P s \<Longrightarrow> P (snd (m s))) \<Longrightarrow> keeps P m"
  by (simp add: keeps_def)

lemma keepsD: "keeps P m \<Longrightarrow> P s \<Longrightarrow> m s = (r, t) \<Longrightarrow> P t"
  by (auto simp: keeps_def dest!: spec [of _ s])

lemma keeps_ret [keeps_intros]: "keeps P (ret x)"
  by (simp add: keeps_def ret_def)

lemma keeps_fail [keeps_intros]: "keeps P (fail e)"
  by (simp add: keeps_def fail_def)

lemma keeps_panic [keeps_intros]: "keeps P (panic t)"
  by (simp add: keeps_def panic_def)

lemma keeps_deadlock [keeps_intros]: "keeps P deadlock"
  by (simp add: keeps_def deadlock_def)

lemma keeps_pick [keeps_intros]: "keeps P (pick r)"
  by (simp add: keeps_def pick_def split: sum.split)

lemma keeps_gets [keeps_intros]: "keeps P (gets f)"
  by (simp add: keeps_def gets_def)

lemma keeps_modify: "(\<And>s. P s \<Longrightarrow> P (f s)) \<Longrightarrow> keeps P (modify f)"
  by (simp add: keeps_def modify_def)

lemma keeps_attempt [keeps_intros]:
  assumes "keeps P m" "\<And>e. keeps P (h e)" "\<And>x. keeps P (k x)"
  shows "keeps P (attempt m h k)"
proof (rule keepsI)
  fix s assume "P s"
  with assms show "P (snd (attempt m h k s))"
    by (cases "m s"; cases "fst (m s)") (auto simp: keeps_def attempt_def dest!: spec [of _ s])
qed

lemma keeps_bind_wrap [keeps_intros]:
  "keeps P m \<Longrightarrow> (\<And>x. keeps P (k x)) \<Longrightarrow> keeps P (bind_wrap p m k)"
  by (simp add: bind_wrap_def keeps_intros)

lemma keeps_bind_err [keeps_intros]:
  "keeps P m \<Longrightarrow> (\<And>x. keeps P (k x)) \<Longrightarrow> keeps P (bind_err m k)"
  by (simp add: bind_err_def keeps_intros)

lemma keeps_deferring:
  "keeps P m \<Longrightarrow> (\<And>s. P s \<Longrightarrow> P (d s)) \<Longrightarrow> keeps P (deferring d m)"
proof (rule keepsI)
  fix s assume m: "keeps P m" and d: "\<And>s. P s \<Longrightarrow> P (d s)" and "P s"
  obtain r t where t: "m s = (r, t)" by fastforce
  with m \<open>P s\<close> have "P t" by (rule keepsD)
  with d t show "P (snd (deferring d m s))" by (simp add: deferring_def)
qed

lemma keeps_if [keeps_intros]:
  "(b \<Longrightarrow> keeps P m) \<Longrightarrow> (\<not> b \<Longrightarrow> keeps P n) \<Longrightarrow> keeps P (if b then m else n)"
  by simp

end
