(* ===== verification/Go_Strings.thy ===== *)
theory Go_Strings
  imports Go_Prelude "HOL-Library.Sublist"
begin

text \<open>
  What the daemon uses of Go's packages \<open>fmt\<close> (the verb \<open>%d\<close>), \<open>strings\<close>, \<open>path\<close> and
  \<open>path/filepath\<close>.  A Go string is a sequence of bytes, a \<open>char list\<close> here.
\<close>

section \<open>Decimal numerals\<close>

definition digit_char :: "nat \<Rightarrow> char" where
  "digit_char n = char_of (48 + n)"

fun show_nat :: "nat \<Rightarrow> string" where
  "show_nat n = (if n < 10 then [digit_char n] else show_nat (n div 10) @ [digit_char (n mod 10)])"

declare show_nat.simps [simp del]

text \<open>\<open>fmt.Sprintf("%d", i)\<close>\<close>

definition show_int :: "int \<Rightarrow> string" where
  "show_int i = (if i < 0 then CHR ''-'' # show_nat (nat (- i)) else show_nat (nat i))"

definition digit_value :: "char \<Rightarrow> nat" where
  "digit_value c = of_char c - 48"

definition is_digit :: "char \<Rightarrow> bool" where
  "is_digit c \<longleftrightarrow> 48 \<le> (of_char c :: nat) \<and> (of_char c :: nat) \<le> 57"

definition read_nat :: "string \<Rightarrow> nat" where
  "read_nat s = foldl (\<lambda>n c. 10 * n + digit_value c) 0 s"

lemma of_char_digit_char: "n < 10 \<Longrightarrow> (of_char (digit_char n) :: nat) = 48 + n"
  by (simp add: digit_char_def)

lemma digit_value_digit_char [simp]: "n < 10 \<Longrightarrow> digit_value (digit_char n) = n"
  by (simp add: digit_value_def of_char_digit_char)

lemma is_digit_digit_char [simp]: "n < 10 \<Longrightarrow> is_digit (digit_char n)"
  by (simp add: is_digit_def of_char_digit_char)

lemma read_nat_snoc [simp]: "read_nat (s @ [c]) = 10 * read_nat s + digit_value c"
  by (simp add: read_nat_def)

lemma read_nat_Nil [simp]: "read_nat [] = 0"
  by (simp add: read_nat_def)

lemma read_show_nat [simp]: "read_nat (show_nat n) = n"
proof (induction n rule: show_nat.induct)
  case (1 n)
  show ?case
  proof (cases "n < 10")
    case True
    then show ?thesis
      using read_nat_snoc [of "[]" "digit_char n"] by (simp add: show_nat.simps [of n])
  next
    case False
    then show ?thesis
      using "1.IH" by (simp add: show_nat.simps [of n])
  qed
qed

lemma show_nat_inj [simp]: "show_nat m = show_nat n \<longleftrightarrow> m = n"
  by (metis read_show_nat)

lemma show_nat_digits: "\<forall>c \<in> set (show_nat n). is_digit c"
proof (induction n rule: show_nat.induct)
  case (1 n)
  then show ?case
    by (cases "n < 10") (auto simp: show_nat.simps [of n])
qed

lemma show_nat_nonempty [simp]: "show_nat n \<noteq> []"
  by (simp add: show_nat.simps [of n])

lemma not_in_show_nat: "\<not> is_digit c \<Longrightarrow> c \<notin> set (show_nat n)"
  using show_nat_digits by blast

lemma nondigits [simp]:
  "\<not> is_digit (CHR ''.'')" "\<not> is_digit (CHR ''/'')" "\<not> is_digit (CHR ''-'')" "\<not> is_digit (CHR '':'')"
  by (simp_all add: is_digit_def)

lemma show_int_nonneg: "0 \<le> i \<Longrightarrow> show_int i = show_nat (nat i)"
  by (simp add: show_int_def)

lemma show_int_nonempty [simp]: "show_int i \<noteq> []"
  by (simp add: show_int_def)

lemma show_int_no_slash [simp]: "CHR ''/'' \<notin> set (show_int i)"
  by (simp add: show_int_def not_in_show_nat)

lemma show_int_inj [simp]: "show_int i = show_int j \<longleftrightarrow> i = j"
proof
  assume eq: "show_int i = show_int j"
  have sign: "hd (show_int k) = CHR ''-'' \<longleftrightarrow> k < 0" for k
  proof (cases "k < 0")
    case False
    have "hd (show_nat (nat k)) \<in> set (show_nat (nat k))"
      by (rule hd_in_set) simp
    moreover have "CHR ''-'' \<notin> set (show_nat (nat k))"
      by (rule not_in_show_nat) simp
    ultimately have "hd (show_nat (nat k)) \<noteq> CHR ''-''"
      by metis
    then show ?thesis
      using False by (simp add: show_int_def)
  qed (simp add: show_int_def)
  from sign [of i] sign [of j] eq have "i < 0 \<longleftrightarrow> j < 0"
    by metis
  with eq show "i = j"
    by (auto simp: show_int_def split: if_splits)
qed simp

section \<open>Package strings\<close>

definition has_prefix :: "string \<Rightarrow> string \<Rightarrow> bool" where
  "has_prefix s p = prefix p s"

definition trim_prefix :: "string \<Rightarrow> string \<Rightarrow> string" where
  "trim_prefix s p = (if has_prefix s p then drop (length p) s else s)"

text \<open>\<open>strings.Replace(s, old, new, -1)\<close> for a non-empty \<open>old\<close>: leftmost occurrences that do not overlap.\<close>

function replace_all :: "string \<Rightarrow> string \<Rightarrow> string \<Rightarrow> string" where
  "replace_all s old new =
     (if s = [] \<or> old = [] then s
      else if prefix old s then new @ replace_all (drop (length old) s) old new
      else hd s # replace_all (tl s) old new)"
  by pat_completeness auto
termination
  by (relation "measure (\<lambda>(s, old, new). length s)") auto

declare replace_all.simps [simp del]

lemma trim_prefix_append [simp]: "trim_prefix (p @ s) p = s"
  by (simp add: trim_prefix_def has_prefix_def)

lemma length_trim_prefix: "length (trim_prefix s p) \<le> length s"
  by (simp add: trim_prefix_def)

lemma has_prefix_append [simp]: "has_prefix (p @ s) p"
  by (simp add: has_prefix_def)

section \<open>Packages path and path/filepath (on a Unix system)\<close>

text \<open>\<open>path.Base\<close> and \<open>filepath.Base\<close>: the last element, without trailing slashes.\<close>

definition path_base :: "string \<Rightarrow> string" where
  "path_base p =
     (if p = [] then ''.''
      else let q = rev (dropWhile (\<lambda>c. c = CHR ''/'') (rev p));
               r = rev (takeWhile (\<lambda>c. c \<noteq> CHR ''/'') (rev q))
           in if r = [] then ''/'' else r)"

text \<open>The elements of a path between slashes.\<close>

fun path_split :: "string \<Rightarrow> string list" where
  "path_split [] = [[]]"
| "path_split (c # cs) =
     (if c = CHR ''/'' then [] # path_split cs
      else case path_split cs of [] \<Rightarrow> [[c]] | x # xs \<Rightarrow> (c # x) # xs)"

fun path_join_elems :: "string list \<Rightarrow> string" where
  "path_join_elems [] = []"
| "path_join_elems [x] = x"
| "path_join_elems (x # y # ys) = x @ CHR ''/'' # path_join_elems (y # ys)"

text \<open>
  The lexical processing of \<open>path.Clean\<close>: empty elements and \<open>.\<close> vanish; \<open>..\<close> removes the
  element before it, vanishes at the root, and stays at the front of a relative path.  The
  elements kept so far are in reverse order.
\<close>

fun clean_elems :: "bool \<Rightarrow> string list \<Rightarrow> string list \<Rightarrow> string list" where
  "clean_elems rooted acc [] = rev acc"
| "clean_elems rooted acc (e # es) =
     (if e = [] \<or> e = ''.'' then clean_elems rooted acc es
      else if e = ''..'' then
        (if acc \<noteq> [] \<and> hd acc \<noteq> ''..'' then clean_elems rooted (tl acc) es
         else if rooted then clean_elems rooted acc es
         else clean_elems rooted (e # acc) es)
      else clean_elems rooted (e # acc) es)"

definition path_clean :: "string \<Rightarrow> string" where
  "path_clean p =
     (let rooted = has_prefix p ''/'';
          body = path_join_elems (clean_elems rooted [] (path_split p))
      in if rooted then CHR ''/'' # body else if body = [] then ''.'' else body)"

text \<open>\<open>path.Join\<close> and \<open>filepath.Join\<close>: the non-empty elements, joined and cleaned.\<close>

definition path_join :: "string list \<Rightarrow> string" where
  "path_join es =
     (let nonempty = filter (\<lambda>e. e \<noteq> []) es
      in if nonempty = [] then [] else path_clean (path_join_elems nonempty))"

lemma takeWhile_element [simp]:
  assumes "CHR ''/'' \<notin> set s"
  shows "takeWhile (\<lambda>c. c \<noteq> CHR ''/'') (rev s @ CHR ''/'' # d) = rev s"
    and "takeWhile (\<lambda>c. c \<noteq> CHR ''/'') (rev s) = rev s"
proof -
  have all: "c \<noteq> CHR ''/''" if "c \<in> set (rev s)" for c
    using assms that by auto
  show "takeWhile (\<lambda>c. c \<noteq> CHR ''/'') (rev s @ CHR ''/'' # d) = rev s"
    using all by (subst takeWhile_append2) simp_all
  show "takeWhile (\<lambda>c. c \<noteq> CHR ''/'') (rev s) = rev s"
    using all by (simp add: takeWhile_eq_all_conv)
qed

lemma dropWhile_element:
  "s \<noteq> [] \<Longrightarrow> CHR ''/'' \<notin> set s \<Longrightarrow>
   dropWhile (\<lambda>c. c = CHR ''/'') (rev s @ d) = rev s @ d"
  by (cases s rule: rev_cases) auto

lemma path_base_no_slash:
  assumes "s \<noteq> []" "CHR ''/'' \<notin> set s"
  shows "path_base s = s"
  using assms dropWhile_element [OF assms, of "[]"] by (simp add: path_base_def)

lemma path_base_dir:
  assumes "s \<noteq> []" "CHR ''/'' \<notin> set s"
  shows "path_base (d @ CHR ''/'' # s) = s"
  using assms dropWhile_element [OF assms, of "CHR ''/'' # rev d"] by (simp add: path_base_def)

lemma path_base_not_slashed: "path_base p \<noteq> ''/'' \<Longrightarrow> CHR ''/'' \<notin> set (path_base p)"
  by (auto simp: path_base_def Let_def dest: set_takeWhileD split: if_splits)

end
