(* ===== verification/Go_Net.thy ===== *)
theory Go_Net
  imports Go_Strings
begin

unbundle bit_operations_syntax

text \<open>
  What the daemon uses of Go's package \<open>net\<close> (addresses, masks, hardware addresses, their
  printing and parsing) and of \<open>math/big\<close> (big-endian byte strings).

  A \<open>net.IP\<close> is a byte slice of any length; \<open>nil\<close> is the empty list.  (No function used here
  returns an empty slice that is not \<open>nil\<close>.)
\<close>

type_synonym byte = "8 word"
type_synonym ip = "byte list"
type_synonym ip_mask = "byte list"
type_synonym hardware_addr = "byte list"

text \<open>\<open>net.IPNet\<close>\<close>

record ip_net =
  net_ip :: ip
  net_mask :: ip_mask

section \<open>Addresses\<close>

definition v4_in_v6_prefix :: "byte list" where
  "v4_in_v6_prefix = replicate 10 0 @ [255, 255]"

text \<open>\<open>IP.To4\<close>: the four-byte form, or \<open>nil\<close>.\<close>

definition to4 :: "ip \<Rightarrow> ip" where
  "to4 a =
     (if length a = 4 then a
      else if length a = 16 \<and> take 12 a = v4_in_v6_prefix then drop 12 a
      else [])"

text \<open>\<open>net.IPv4\<close>: the sixteen-byte form of an IPv4 address.\<close>

definition ipv4_16 :: "byte list \<Rightarrow> ip" where
  "ipv4_16 bs = v4_in_v6_prefix @ bs"

text \<open>\<open>IP.Equal\<close>: an IPv4 address equals its sixteen-byte form.\<close>

definition ip_equal :: "ip \<Rightarrow> ip \<Rightarrow> bool" where
  "ip_equal a b =
     (if length a = length b then a = b
      else if length a = 4 \<and> length b = 16 then take 12 b = v4_in_v6_prefix \<and> a = drop 12 b
      else if length a = 16 \<and> length b = 4 then take 12 a = v4_in_v6_prefix \<and> drop 12 a = b
      else False)"

text \<open>\<open>IP.IsUnspecified\<close>: the zero address of either family.\<close>

definition is_unspecified :: "ip \<Rightarrow> bool" where
  "is_unspecified a \<longleftrightarrow> ip_equal a (ipv4_16 [0, 0, 0, 0]) \<or> ip_equal a (replicate 16 0)"

text \<open>\<open>networkNumberAndMask\<close>, on which \<open>Contains\<close> and \<open>IPNet.String\<close> rest.\<close>

definition network_number_and_mask :: "ip_net \<Rightarrow> ip \<times> ip_mask" where
  "network_number_and_mask n =
     (let a = (if to4 (net_ip n) \<noteq> [] then to4 (net_ip n) else net_ip n);
          m = net_mask n
      in if to4 (net_ip n) = [] \<and> length a \<noteq> 16 then ([], [])
         else if length m = 4 then (if length a = 4 then (a, m) else ([], []))
         else if length m = 16 then (a, if length a = 4 then drop 12 m else m)
         else ([], []))"

definition mask_bytes :: "ip \<Rightarrow> ip_mask \<Rightarrow> byte list" where
  "mask_bytes a m = map2 (AND) a m"

text \<open>\<open>IPNet.Contains\<close>\<close>

definition net_contains :: "ip_net \<Rightarrow> ip \<Rightarrow> bool" where
  "net_contains n a =
     (let (nn, m) = network_number_and_mask n;
          b = (if to4 a \<noteq> [] then to4 a else a)
      in length b = length nn \<and> mask_bytes nn m = mask_bytes b m)"

text \<open>Byte \<open>i\<close> of a mask that starts with \<open>ones\<close> one bits.\<close>

definition prefix_byte :: "nat \<Rightarrow> nat \<Rightarrow> byte" where
  "prefix_byte ones i =
     (if 8 * (i + 1) \<le> ones then 255 else if ones \<le> 8 * i then 0 else NOT (mask (8 - (ones - 8 * i))))"

text \<open>\<open>net.CIDRMask\<close>: a mask of \<open>bits\<close> bits, \<open>nil\<close> for other widths than those of an address.\<close>

definition cidr_mask :: "nat \<Rightarrow> nat \<Rightarrow> ip_mask" where
  "cidr_mask ones bits =
     (if bits \<noteq> 32 \<and> bits \<noteq> 128 \<or> bits < ones then []
      else map (prefix_byte ones) [0..<bits div 8])"

section \<open>Big-endian numbers\<close>

text \<open>\<open>big.Int.SetBytes\<close> and \<open>big.Int.Bytes\<close>; the latter has no leading zero byte.\<close>

definition set_bytes :: "byte list \<Rightarrow> nat" where
  "set_bytes bs = foldl (\<lambda>n b. 256 * n + unat b) 0 bs"

fun nat_bytes :: "nat \<Rightarrow> byte list" where
  "nat_bytes n = (if n = 0 then [] else nat_bytes (n div 256) @ [word_of_nat (n mod 256)])"

declare nat_bytes.simps [simp del]

lemma set_bytes_Nil [simp]: "set_bytes [] = 0"
  by (simp add: set_bytes_def)

lemma set_bytes_snoc [simp]: "set_bytes (bs @ [b]) = 256 * set_bytes bs + unat b"
  by (simp add: set_bytes_def)

lemma unat_byte: "unat (b :: byte) < 256"
  using unsigned_less [of b] by simp

lemma set_bytes_bound: "set_bytes bs < 256 ^ length bs"
proof (induction bs rule: rev_induct)
  case (snoc b bs)
  then show ?case
    using unat_byte [of b] by simp
qed simp

lemma unat_byte_of_nat [simp]: "n < 256 \<Longrightarrow> unat (word_of_nat n :: byte) = n"
  by (simp add: unat_of_nat)

lemma nat_bytes_0 [simp]: "nat_bytes 0 = []"
  by (simp add: nat_bytes.simps)

lemma set_bytes_nat_bytes [simp]: "set_bytes (nat_bytes n) = n"
proof (induction n rule: nat_bytes.induct)
  case (1 n)
  then show ?case
    by (cases "n = 0") (simp_all add: nat_bytes.simps [of n])
qed

lemma length_nat_bytes: "length (nat_bytes n) \<le> k \<longleftrightarrow> n < 256 ^ k"
proof (induction n arbitrary: k rule: nat_bytes.induct)
  case (1 n)
  show ?case
  proof (cases "n = 0")
    case True
    then show ?thesis by (simp add: nat_bytes.simps [of n])
  next
    case False
    have "length (nat_bytes n) \<le> k \<longleftrightarrow> k \<noteq> 0 \<and> length (nat_bytes (n div 256)) \<le> k - 1"
      using False by (auto simp: nat_bytes.simps [of n])
    also have "\<dots> \<longleftrightarrow> k \<noteq> 0 \<and> n div 256 < 256 ^ (k - 1)"
      using "1.IH" [OF False] by simp
    also have "\<dots> \<longleftrightarrow> n < 256 ^ k"
      using False by (cases k) (simp_all add: div_less_iff_less_mult mult.commute)
    finally show ?thesis .
  qed
qed

lemma nat_bytes_set_bytes: "bs \<noteq> [] \<Longrightarrow> hd bs \<noteq> 0 \<Longrightarrow> nat_bytes (set_bytes bs) = bs"
proof (induction bs rule: rev_induct)
  case (snoc b bs)
  have b: "unat b < 256" by (rule unat_byte)
  have pos: "set_bytes (bs @ [b]) \<noteq> 0"
  proof (cases "bs = []")
    case True
    with snoc.prems have "unat b \<noteq> 0" by (simp add: unat_eq_zero)
    with True show ?thesis using set_bytes_snoc [of "[]" b] by simp
  next
    case False
    with snoc have "nat_bytes (set_bytes bs) \<noteq> []" by simp
    then have "set_bytes bs \<noteq> 0" by (metis nat_bytes_0)
    then show ?thesis by simp
  qed
  have "(256 * set_bytes bs + unat b) div 256 = set_bytes bs"
    "(256 * set_bytes bs + unat b) mod 256 = unat b"
    using b by simp_all
  moreover have "nat_bytes (set_bytes bs) = bs"
    using snoc by (cases "bs = []") simp_all
  ultimately show ?case
    using pos by (simp add: nat_bytes.simps [of "256 * set_bytes bs + unat b"])
qed simp

lemma set_bytes_inj: "length as = length bs \<Longrightarrow> set_bytes as = set_bytes bs \<Longrightarrow> as = bs"
proof (induction as arbitrary: bs rule: rev_induct)
  case (snoc a as)
  then obtain b bs' where bs: "bs = bs' @ [b]"
    by (cases bs rule: rev_cases) auto
  have "256 * set_bytes as + unat a = 256 * set_bytes bs' + unat b"
    using snoc.prems bs by simp
  moreover have "(256 * x + unat c) div 256 = x \<and> (256 * x + unat c) mod 256 = unat c"
    for x and c :: byte
    using unat_byte [of c] by simp
  ultimately have "set_bytes as = set_bytes bs'" "unat a = unat b"
    by metis+
  with snoc bs show ?case by (simp add: word_unat_eq_iff)
qed simp

section \<open>Printing\<close>

definition hex_digit :: "nat \<Rightarrow> char" where
  "hex_digit n = (if n < 10 then char_of (48 + n) else char_of (87 + n))"

definition hex_byte :: "byte \<Rightarrow> string" where
  "hex_byte b = [hex_digit (unat b div 16), hex_digit (unat b mod 16)]"

text \<open>
  \<open>strconv.Quote\<close>, the verb \<open>%q\<close>, on ASCII; bytes of other characters are kept, as they are
  for printable characters.
\<close>

definition quote_char :: "char \<Rightarrow> string" where
  "quote_char c =
     (let n = of_char c :: nat
      in if n = 34 \<or> n = 92 then [char_of (92::nat), c]
         else if n = 7 then [char_of (92::nat), CHR ''a'']
         else if n = 8 then [char_of (92::nat), CHR ''b'']
         else if n = 9 then [char_of (92::nat), CHR ''t'']
         else if n = 10 then [char_of (92::nat), CHR ''n'']
         else if n = 11 then [char_of (92::nat), CHR ''v'']
         else if n = 12 then [char_of (92::nat), CHR ''f'']
         else if n = 13 then [char_of (92::nat), CHR ''r'']
         else if n < 32 \<or> n = 127 then
           [char_of (92::nat), CHR ''x'', hex_digit (n div 16), hex_digit (n mod 16)]
         else [c])"

definition quote :: "string \<Rightarrow> string" where
  "quote s = char_of (34::nat) # concat (map quote_char s) @ [char_of (34::nat)]"

fun join_with :: "char \<Rightarrow> string list \<Rightarrow> string" where
  "join_with c [] = []"
| "join_with c [x] = x"
| "join_with c (x # y # ys) = x @ c # join_with c (y # ys)"

text \<open>The dotted form of an IPv4 address.\<close>

definition dotted :: "byte list \<Rightarrow> string" where
  "dotted bs = join_with (CHR ''.'') (map (\<lambda>b. show_nat (unat b)) bs)"

text \<open>IPv6: groups of sixteen bits in hex, the first longest run of at least two zero groups as \<open>::\<close>.\<close>

fun show_hex :: "nat \<Rightarrow> string" where
  "show_hex n = (if n < 16 then [hex_digit n] else show_hex (n div 16) @ [hex_digit (n mod 16)])"

declare show_hex.simps [simp del]

fun groups16 :: "byte list \<Rightarrow> nat list" where
  "groups16 (a # b # bs) = (256 * unat a + unat b) # groups16 bs"
| "groups16 _ = []"

definition zero_run :: "nat list \<Rightarrow> nat \<Rightarrow> nat" where
  "zero_run gs i = length (takeWhile (\<lambda>g. g = 0) (drop i gs))"

definition longest_zero_run :: "nat list \<Rightarrow> nat \<times> nat" where
  "longest_zero_run gs =
     foldl (\<lambda>(s, l) i. if l < zero_run gs i then (i, zero_run gs i) else (s, l)) (0, 0) [0..<length gs]"

definition ipv6_string :: "byte list \<Rightarrow> string" where
  "ipv6_string bs =
     (let gs = groups16 bs;
          (s, l) = longest_zero_run gs;
          hex = join_with (CHR '':'')
      in if l \<le> 1 then hex (map show_hex gs)
         else hex (map show_hex (take s gs)) @ ''::'' @ hex (map show_hex (drop (s + l) gs)))"

text \<open>\<open>IP.String\<close>\<close>

definition ip_string :: "ip \<Rightarrow> string" where
  "ip_string a =
     (if a = [] then ''<nil>''
      else if to4 a \<noteq> [] then dotted (to4 a)
      else if length a \<noteq> 16 then CHR ''?'' # concat (map hex_byte a)
      else ipv6_string a)"

text \<open>\<open>simpleMaskLength\<close>: the number of leading one bits, if no one bit follows a zero.\<close>

definition mask_bits :: "ip_mask \<Rightarrow> bool list" where
  "mask_bits m = concat (map (\<lambda>b. rev (map (bit b) [0..<8])) m)"

definition simple_mask_length :: "ip_mask \<Rightarrow> nat option" where
  "simple_mask_length m =
     (let ones = length (takeWhile id (mask_bits m))
      in if True \<in> set (drop ones (mask_bits m)) then None else Some ones)"

text \<open>\<open>IPNet.String\<close>\<close>

definition net_string :: "ip_net \<Rightarrow> string" where
  "net_string n =
     (let (nn, m) = network_number_and_mask n
      in if nn = [] \<or> m = [] then ''<nil>''
         else ip_string nn @ ''/'' @
           (case simple_mask_length m of
              None \<Rightarrow> concat (map hex_byte m)
            | Some l \<Rightarrow> show_nat l))"

text \<open>\<open>HardwareAddr.String\<close>\<close>

definition hw_string :: "hardware_addr \<Rightarrow> string" where
  "hw_string h = join_with (CHR '':'') (map hex_byte h)"

section \<open>Parsing\<close>

text \<open>\<open>dtoi\<close>: a decimal number below the bound \<open>big\<close>, and the rest of the string.\<close>

definition parse_big :: nat where
  "parse_big = 16777215"

definition dtoi :: "string \<Rightarrow> (nat \<times> string) option" where
  "dtoi s =
     (let ds = takeWhile is_digit s
      in if ds = [] \<or> parse_big \<le> read_nat ds then None
         else Some (read_nat ds, drop (length ds) s))"

text \<open>\<open>parseIPv4\<close>: four numbers up to 255 between dots.\<close>

fun parse_octets :: "nat \<Rightarrow> bool \<Rightarrow> string \<Rightarrow> byte list option" where
  "parse_octets 0 first s = (if s = [] then Some [] else None)"
| "parse_octets (Suc j) first s =
     (if s = [] \<or> \<not> first \<and> hd s \<noteq> CHR ''.'' then None
      else case dtoi (if first then s else tl s) of
        None \<Rightarrow> None
      | Some (n, r) \<Rightarrow>
          if 255 < n then None
          else map_option (\<lambda>bs. word_of_nat n # bs) (parse_octets j False r))"

definition parse_ipv4 :: "string \<Rightarrow> ip" where
  "parse_ipv4 s = (case parse_octets 4 True s of None \<Rightarrow> [] | Some bs \<Rightarrow> ipv4_16 bs)"

definition hex_value :: "char \<Rightarrow> nat option" where
  "hex_value c =
     (let n = of_char c :: nat
      in if 48 \<le> n \<and> n \<le> 57 then Some (n - 48)
         else if 97 \<le> n \<and> n \<le> 102 then Some (n - 87)
         else if 65 \<le> n \<and> n \<le> 70 then Some (n - 55)
         else None)"

definition xtoi :: "string \<Rightarrow> (nat \<times> string) option" where
  "xtoi s =
     (let ds = takeWhile (\<lambda>c. hex_value c \<noteq> None) s;
          n = foldl (\<lambda>n c. 16 * n + the (hex_value c)) 0 ds
      in if ds = [] \<or> parse_big \<le> n then None else Some (n, drop (length ds) s))"

text \<open>
  \<open>parseIPv6\<close>: the loop over the rest of the string with the bytes read so far and the
  position of the ellipsis; the loop ends after sixteen bytes.
\<close>

function parse_ipv6_loop :: "byte list \<Rightarrow> nat option \<Rightarrow> string \<Rightarrow> (byte list \<times> nat option \<times> string) option" where
  "parse_ipv6_loop bs ell s =
     (if 16 \<le> length bs then Some (bs, ell, s)
      else case xtoi s of
        None \<Rightarrow> None
      | Some (n, r) \<Rightarrow>
          if 65535 < n then None
          else if r \<noteq> [] \<and> hd r = CHR ''.'' then
            (if ell = None \<and> length bs \<noteq> 12 then None
             else if 16 < length bs + 4 then None
             else case parse_octets 4 True s of
               None \<Rightarrow> None
             | Some v4 \<Rightarrow> Some (bs @ v4, ell, []))
          else
            (let bs' = bs @ [word_of_nat (n div 256), word_of_nat (n mod 256)]
             in if r = [] then Some (bs', ell, [])
                else if hd r \<noteq> CHR '':'' \<or> tl r = [] then None
                else if hd (tl r) = CHR '':'' then
                  (if ell \<noteq> None then None
                   else if tl (tl r) = [] then Some (bs', Some (length bs'), [])
                   else parse_ipv6_loop bs' (Some (length bs')) (tl (tl r)))
                else parse_ipv6_loop bs' ell (tl r)))"
  by pat_completeness auto
termination
  by (relation "measure (\<lambda>(bs, ell, s). 16 - length bs)") auto

declare parse_ipv6_loop.simps [simp del]

definition parse_ipv6 :: "string \<Rightarrow> ip" where
  "parse_ipv6 s =
     (let lead = has_prefix s ''::'';
          s' = (if lead then drop 2 s else s)
      in if lead \<and> s' = [] then replicate 16 0
         else case parse_ipv6_loop [] (if lead then Some 0 else None) s' of
           None \<Rightarrow> []
         | Some (bs, ell, r) \<Rightarrow>
             if r \<noteq> [] then []
             else if length bs < 16 then
               (case ell of
                  None \<Rightarrow> []
                | Some e \<Rightarrow> take e bs @ replicate (16 - length bs) 0 @ drop e bs)
             else if ell \<noteq> None then []
             else bs)"

text \<open>\<open>net.ParseIP\<close>: the first dot or colon decides the family; \<open>nil\<close> when the text is no address.\<close>

definition parse_ip :: "string \<Rightarrow> ip" where
  "parse_ip s =
     (case dropWhile (\<lambda>c. c \<noteq> CHR ''.'' \<and> c \<noteq> CHR '':'') s of
        [] \<Rightarrow> []
      | c # r \<Rightarrow> if c = CHR ''.'' then parse_ipv4 s else parse_ipv6 s)"

text \<open>\<open>net.ParseMAC\<close>: 6, 8 or 20 bytes, as pairs after \<open>:\<close> or \<open>-\<close>, or as fours after dots.\<close>

definition hex_pair :: "char \<Rightarrow> char \<Rightarrow> byte option" where
  "hex_pair a b =
     (case (hex_value a, hex_value b) of
        (Some x, Some y) \<Rightarrow> Some (word_of_nat (16 * x + y))
      | _ \<Rightarrow> None)"

fun mac_pairs :: "char \<Rightarrow> string \<Rightarrow> byte list option" where
  "mac_pairs sep [a, b] = map_option (\<lambda>x. [x]) (hex_pair a b)"
| "mac_pairs sep (a # b # c # r) =
     (if c \<noteq> sep then None
      else case hex_pair a b of
        None \<Rightarrow> None
      | Some x \<Rightarrow> map_option (\<lambda>xs. x # xs) (mac_pairs sep r))"
| "mac_pairs sep _ = None"

fun mac_fours :: "string \<Rightarrow> byte list option" where
  "mac_fours [a, b, c, d] =
     (case (hex_pair a b, hex_pair c d) of (Some x, Some y) \<Rightarrow> Some [x, y] | _ \<Rightarrow> None)"
| "mac_fours (a # b # c # d # e # r) =
     (if e \<noteq> CHR ''.'' then None
      else case (hex_pair a b, hex_pair c d) of
        (Some x, Some y) \<Rightarrow> map_option (\<lambda>xs. x # y # xs) (mac_fours r)
      | _ \<Rightarrow> None)"
| "mac_fours _ = None"

definition parse_mac :: "string \<Rightarrow> hardware_addr option" where
  "parse_mac s =
     (if length s < 14 then None
      else if s ! 2 = CHR '':'' \<or> s ! 2 = CHR ''-'' then
        (if length s + 1 \<in> {18, 24, 60} then mac_pairs (s ! 2) s else None)
      else if s ! 4 = CHR ''.'' then
        (if length s + 1 \<in> {15, 20, 50} then mac_fours s else None)
      else None)"

section \<open>Printing and parsing are inverse\<close>

lemma hex_value_hex_digit [simp]: "n < 16 \<Longrightarrow> hex_value (hex_digit n) = Some n"
  by (simp add: hex_value_def hex_digit_def Let_def)

lemma hex_pair_hex_byte: "hex_byte b = [x, y] \<Longrightarrow> hex_pair x y = Some b"
proof -
  assume b: "hex_byte b = [x, y]"
  have "unat b div 16 < 16" "unat b mod 16 < 16"
    using unat_byte [of b] by simp_all
  with b show ?thesis
    by (auto simp: hex_byte_def hex_pair_def)
qed

lemma mac_pairs_hw_string: "bs \<noteq> [] \<Longrightarrow> mac_pairs (CHR '':'') (hw_string bs) = Some bs"
proof (induction bs)
  case (Cons b bs)
  obtain x y where xy: "hex_byte b = [x, y]"
    by (simp add: hex_byte_def)
  show ?case
  proof (cases bs)
    case Nil
    with xy show ?thesis by (simp add: hw_string_def hex_pair_hex_byte)
  next
    case (Cons c cs)
    with xy Cons.IH show ?thesis
      by (simp add: hw_string_def hex_pair_hex_byte)
  qed
qed simp

lemma length_hw_string: "bs \<noteq> [] \<Longrightarrow> length (hw_string bs) + 1 = 3 * length bs"
proof (induction bs)
  case (Cons b bs)
  then show ?case by (cases bs) (simp_all add: hw_string_def hex_byte_def)
qed simp

lemma hw_string_separator: "2 \<le> length bs \<Longrightarrow> hw_string bs ! 2 = CHR '':''"
  by (cases bs; cases "tl bs") (auto simp: hw_string_def hex_byte_def)

lemma parse_mac_hw_string:
  assumes "length h \<in> {6, 8, 20}"
  shows "parse_mac (hw_string h) = Some h"
proof -
  have h: "h \<noteq> []" "2 \<le> length h" using assms by auto
  have "length (hw_string h) + 1 \<in> {18, 24, 60}"
    using length_hw_string [OF h(1)] assms by auto
  then show ?thesis
    using hw_string_separator [OF h(2)] mac_pairs_hw_string [OF h(1)]
    by (auto simp: parse_mac_def)
qed

lemma takeWhile_show_nat:
  assumes "r = [] \<or> \<not> is_digit (hd r)"
  shows "takeWhile is_digit (show_nat n @ r) = show_nat n"
proof -
  have "takeWhile is_digit (show_nat n @ r) = show_nat n @ takeWhile is_digit r"
    by (rule takeWhile_append2) (simp add: show_nat_digits [rule_format])
  with assms show ?thesis by (cases r) auto
qed

lemma dtoi_show_nat:
  assumes "r = [] \<or> \<not> is_digit (hd r)" "n < parse_big"
  shows "dtoi (show_nat n @ r) = Some (n, r)"
  using assms by (simp add: dtoi_def takeWhile_show_nat)

definition octet_tail :: "byte list \<Rightarrow> string" where
  "octet_tail bs = concat (map (\<lambda>b. CHR ''.'' # show_nat (unat b)) bs)"

lemma dotted_Cons: "dotted (b # bs) = show_nat (unat b) @ octet_tail bs"
proof (induction bs arbitrary: b)
  case (Cons c cs)
  then show ?case by (simp add: dotted_def octet_tail_def)
qed (simp add: dotted_def octet_tail_def)

lemma byte_below_big [simp]: "unat (b :: byte) < parse_big" "\<not> 255 < unat (b :: byte)"
  using unat_byte [of b] by (simp_all add: parse_big_def)

lemma octet_tail_start: "octet_tail bs = [] \<or> \<not> is_digit (hd (octet_tail bs))"
  by (cases bs) (simp_all add: octet_tail_def)

lemma parse_octets_tail: "parse_octets (length bs) False (octet_tail bs) = Some bs"
proof (induction bs)
  case (Cons b bs)
  then show ?case
    by (simp add: octet_tail_def dtoi_show_nat [OF octet_tail_start [of bs], unfolded octet_tail_def])
qed (simp add: octet_tail_def)

lemma parse_octets_dotted: "bs \<noteq> [] \<Longrightarrow> parse_octets (length bs) True (dotted bs) = Some bs"
  by (cases bs) (simp_all add: dotted_Cons dtoi_show_nat octet_tail_start parse_octets_tail)

lemma parse_ip_dotted:
  assumes "length bs = 4"
  shows "parse_ip (dotted bs) = ipv4_16 bs"
proof -
  obtain b c cs where bs: "bs = b # c # cs"
    using assms by (cases bs; cases "tl bs") auto
  let ?sep = "\<lambda>c. c \<noteq> CHR ''.'' \<and> c \<noteq> CHR '':''"
  have plain: "?sep d" if "d \<in> set (show_nat n)" for d n
    using that not_in_show_nat [of d n] by auto
  have "dropWhile ?sep (show_nat n @ CHR ''.'' # r) = CHR ''.'' # r" for n r
    using plain [of _ n] by (subst dropWhile_append2) auto
  then have "dropWhile ?sep (dotted bs) = octet_tail (c # cs)"
    by (simp add: bs dotted_Cons octet_tail_def)
  then show ?thesis
    using parse_octets_dotted [of bs] assms bs
    by (simp add: parse_ip_def octet_tail_def parse_ipv4_def del: parse_octets.simps)
qed

lemma to4_ipv4_16 [simp]: "length bs = 4 \<Longrightarrow> to4 (ipv4_16 bs) = bs"
  by (simp add: to4_def ipv4_16_def v4_in_v6_prefix_def)

lemma length_to4: "length (to4 a) = 4 \<or> to4 a = []"
  by (simp add: to4_def)

lemma to4_4 [simp]: "length a = 4 \<Longrightarrow> to4 a = a"
  by (simp add: to4_def)

lemma ip_string_4: "length a = 4 \<Longrightarrow> ip_string a = dotted a"
  by (cases a) (auto simp: ip_string_def)

lemma dotted_inj: "length as = 4 \<Longrightarrow> length bs = 4 \<Longrightarrow> dotted as = dotted bs \<longleftrightarrow> as = bs"
  by (metis parse_ip_dotted to4_ipv4_16)

lemma ip_equal_4: "length a = 4 \<Longrightarrow> length b = 4 \<Longrightarrow> ip_equal a b \<longleftrightarrow> a = b"
  by (simp add: ip_equal_def)

lemma ip_equal_parse_string:
  "length a = 4 \<Longrightarrow> ip_equal (parse_ip (ip_string a)) a"
  by (simp add: ip_string_4 parse_ip_dotted ip_equal_def ipv4_16_def v4_in_v6_prefix_def)

section \<open>Prefix masks\<close>

lemma and_not_mask_eq:
  fixes c d :: byte
  shows "c AND NOT (mask j) = d AND NOT (mask j) \<longleftrightarrow> unat c div 2 ^ j = unat d div 2 ^ j"
proof -
  have "c AND NOT (mask j) = d AND NOT (mask j) \<longleftrightarrow> drop_bit j c = drop_bit j d"
  proof
    assume eq: "c AND NOT (mask j) = d AND NOT (mask j)"
    show "drop_bit j c = drop_bit j d"
    proof (rule bit_eqI)
      fix n assume "possible_bit TYPE(byte) n"
      have "bit (c AND NOT (mask j)) (j + n) = bit (d AND NOT (mask j)) (j + n)"
        using eq by simp
      then show "bit (drop_bit j c) n = bit (drop_bit j d) n"
        by (auto simp: bit_simps dest: bit_imp_possible_bit)
    qed
  next
    assume eq: "drop_bit j c = drop_bit j d"
    show "c AND NOT (mask j) = d AND NOT (mask j)"
    proof (rule bit_eqI)
      fix n assume "possible_bit TYPE(byte) n"
      have "bit (drop_bit j c) (n - j) = bit (drop_bit j d) (n - j)"
        using eq by simp
      then show "bit (c AND NOT (mask j)) n = bit (d AND NOT (mask j)) n"
        by (auto simp: bit_simps)
    qed
  qed
  also have "\<dots> \<longleftrightarrow> unat (drop_bit j c) = unat (drop_bit j d)"
    by (simp add: word_unat_eq_iff)
  also have "\<dots> \<longleftrightarrow> unat c div 2 ^ j = unat d div 2 ^ j"
    by (simp only: unat_drop_bit_eq) (simp add: drop_bit_eq_div)
  finally show ?thesis .
qed

lemma prefix_byte_not_mask:
  "8 * i < ones \<Longrightarrow> ones \<le> 8 * i + 8 \<Longrightarrow> prefix_byte ones i = NOT (mask (8 * i + 8 - ones))"
proof -
  assume i: "8 * i < ones" "ones \<le> 8 * i + 8"
  then have "8 - (ones - 8 * i) = 8 * i + 8 - ones" by arith
  with i show ?thesis
    by (cases "ones = 8 * i + 8") (simp_all add: prefix_byte_def)
qed

lemma mask_bytes_snoc:
  "length as = length ms \<Longrightarrow> mask_bytes (as @ [a]) (ms @ [m]) = mask_bytes as ms @ [a AND m]"
  by (simp add: mask_bytes_def)

lemma mask_bytes_full:
  "8 * length as \<le> ones \<Longrightarrow> mask_bytes as (map (prefix_byte ones) [0..<length as]) = as"
proof (induction as rule: rev_induct)
  case (snoc a as)
  then have "prefix_byte ones (length as) = -1"
    by (simp add: prefix_byte_def)
  with snoc show ?case by (simp add: mask_bytes_snoc)
qed (simp add: mask_bytes_def)

lemma byte_div_pow:
  fixes c :: byte
  assumes "j \<le> 8"
  shows "(256 * x + unat c) div 2 ^ j = 2 ^ (8 - j) * x + unat c div 2 ^ j"
    and "unat c div 2 ^ j < 2 ^ (8 - j)"
proof -
  have e: "256 = 2 ^ (8 - j) * (2 ^ j :: nat)"
    using assms by (simp flip: power_add)
  have "256 * x + unat c = (2 ^ (8 - j) * x) * 2 ^ j + unat c"
    by (subst e) (simp add: mult.assoc mult.left_commute)
  then show "(256 * x + unat c) div 2 ^ j = 2 ^ (8 - j) * x + unat c div 2 ^ j"
    by (simp only: div_mult_self3) simp
  have "unat c < 2 ^ (8 - j) * 2 ^ j"
    using unat_byte [of c] e by simp
  then show "unat c div 2 ^ j < 2 ^ (8 - j)"
    by (rule less_mult_imp_div_less)
qed

lemma byte_div_eq:
  fixes c d :: byte
  assumes "j \<le> 8"
  shows "(256 * x + unat c) div 2 ^ j = (256 * y + unat d) div 2 ^ j \<longleftrightarrow>
    x = y \<and> unat c div 2 ^ j = unat d div 2 ^ j"
proof -
  have "y * n + r = z * n + s \<longleftrightarrow> y = z \<and> r = s" if "r < n" "s < n" for y z n r s :: nat
    using that by (metis div_mult_self3 mod_mult_self3 div_less mod_less add.right_neutral less_nat_zero_code)
  from this [OF byte_div_pow(2) byte_div_pow(2), OF assms assms] show ?thesis
    by (simp only: byte_div_pow(1) [OF assms] mult.commute [of "2 ^ (8 - j)"])
qed

text \<open>Two addresses agree under a prefix mask when their numbers agree without the host part.\<close>

lemma mask_bytes_prefix:
  assumes "length as = length bs" "ones \<le> 8 * length as"
  shows "mask_bytes as (map (prefix_byte ones) [0..<length as]) =
         mask_bytes bs (map (prefix_byte ones) [0..<length as]) \<longleftrightarrow>
         set_bytes as div 2 ^ (8 * length as - ones) = set_bytes bs div 2 ^ (8 * length as - ones)"
  using assms
proof (induction as arbitrary: bs rule: rev_induct)
  case Nil
  then show ?case by (simp add: mask_bytes_def)
next
  case (snoc a as)
  then obtain b bs' where bs: "bs = bs' @ [b]" and len: "length bs' = length as"
    by (cases bs rule: rev_cases) auto
  let ?m = "map (prefix_byte ones) [0..<length as]" and ?p = "prefix_byte ones (length as)"
  have lhs: "mask_bytes (as @ [a]) (map (prefix_byte ones) [0..<length (as @ [a])]) =
      mask_bytes bs (map (prefix_byte ones) [0..<length (as @ [a])]) \<longleftrightarrow>
      mask_bytes as ?m = mask_bytes bs' ?m \<and> a AND ?p = b AND ?p"
    using len by (simp add: bs mask_bytes_snoc)
  show ?case
  proof (cases "ones \<le> 8 * length as")
    case True
    then have p: "?p = 0" by (simp add: prefix_byte_def)
    have e: "8 * length (as @ [a]) - ones = 8 + (8 * length as - ones)"
      using True by simp
    have d: "(256 * x + unat c) div 2 ^ (8 + k) = x div 2 ^ k" for x k and c :: byte
      using unat_byte [of c] by (simp add: power_add div_mult2_eq)
    have "set_bytes (as @ [a]) div 2 ^ (8 * length (as @ [a]) - ones) =
        set_bytes as div 2 ^ (8 * length as - ones)"
      "set_bytes bs div 2 ^ (8 * length (as @ [a]) - ones) = set_bytes bs' div 2 ^ (8 * length as - ones)"
      by (simp_all only: e bs set_bytes_snoc d)
    then show ?thesis
      using snoc.IH [of bs'] len True by (simp only: lhs p) simp
  next
    case False
    let ?j = "8 * length as + 8 - ones"
    have p: "?p = NOT (mask ?j)"
      using False snoc.prems by (intro prefix_byte_not_mask) simp_all
    have j: "?j \<le> 8" "8 * length (as @ [a]) - ones = ?j" using False by simp_all
    have full: "mask_bytes as ?m = as" "mask_bytes bs' ?m = bs'"
      using False mask_bytes_full [of as ones] mask_bytes_full [of bs' ones] len by simp_all
    have "set_bytes as = set_bytes bs' \<longleftrightarrow> as = bs'"
      using set_bytes_inj len by metis
    then show ?thesis
      unfolding lhs p j(2) full and_not_mask_eq
      by (simp only: bs set_bytes_snoc byte_div_eq [OF j(1)])
  qed
qed

lemma net_contains_prefix:
  assumes "length (to4 (net_ip n)) = 4" "net_mask n = cidr_mask ones 32" "ones \<le> 32" "length a = 4"
  shows "net_contains n a \<longleftrightarrow>
    set_bytes a div 2 ^ (32 - ones) = set_bytes (to4 (net_ip n)) div 2 ^ (32 - ones)"
proof -
  let ?b = "to4 (net_ip n)"
  have m: "net_mask n = map (prefix_byte ones) [0..<4]" "length (net_mask n) = 4"
    using assms(2,3) by (simp_all add: cidr_mask_def)
  have ne: "?b \<noteq> []" "a \<noteq> []" using assms by auto
  have "net_contains n a \<longleftrightarrow> mask_bytes ?b (net_mask n) = mask_bytes a (net_mask n)"
    using assms m(2) ne by (simp add: net_contains_def network_number_and_mask_def)
  then show ?thesis
    using mask_bytes_prefix [of ?b a ones] assms m(1) by auto
qed

lemma net_contains_between:
  assumes net: "length (to4 (net_ip n)) = 4" "net_mask n = cidr_mask ones 32" "ones \<le> 32"
    and len: "length a = 4" "length x = 4" "length b = 4"
    and ends: "net_contains n a" "net_contains n b"
    and between: "set_bytes a \<le> set_bytes x" "set_bytes x \<le> set_bytes b"
  shows "net_contains n x"
proof -
  let ?q = "\<lambda>c. set_bytes c div 2 ^ (32 - ones)"
  have "?q a \<le> ?q x" "?q x \<le> ?q b"
    using between by (simp_all add: div_le_mono)
  then show ?thesis
    using ends net_contains_prefix [OF net] len by (metis le_antisym)
qed

end
