(* ===== verification/Network.thy ===== *)
theory Network
  imports Go_Net
begin

text \<open>
  The network mapper (\<open>network/network_mapper.go\<close>) and the names derived from it and from
  container ids (\<open>container/creator.go\<close>, \<open>cni/cni_del.go\<close>), on a model of \<open>crypto/sha1\<close> and
  \<open>encoding/base32\<close>.
\<close>

section \<open>crypto/sha1\<close>

type_synonym u32 = "32 word"

definition bytes_of_string :: "string \<Rightarrow> byte list" where
  "bytes_of_string s = map (\<lambda>c. word_of_nat (of_char c)) s"

text \<open>Big-endian words of four bytes.\<close>

fun words_of :: "byte list \<Rightarrow> u32 list" where
  "words_of (a # b # c # d # bs) =
     word_of_nat (set_bytes [a, b, c, d]) # words_of bs"
| "words_of _ = []"

definition be_bytes :: "nat \<Rightarrow> nat \<Rightarrow> byte list" where
  "be_bytes k n = map (\<lambda>i. word_of_nat (n div 256 ^ (k - 1 - i))) [0..<k]"

text \<open>The message, a one bit, zeros up to 56 modulo 64 bytes, the length in bits.\<close>

definition sha1_pad :: "byte list \<Rightarrow> byte list" where
  "sha1_pad m = m @ 128 # replicate ((119 - length m mod 64) mod 64) 0 @ be_bytes 8 (8 * length m)"

text \<open>The message schedule, newest word first.\<close>

fun sha1_expand :: "nat \<Rightarrow> u32 list \<Rightarrow> u32 list" where
  "sha1_expand 0 r = r"
| "sha1_expand (Suc n) r =
     sha1_expand n (word_rotl 1 (r ! 2 XOR r ! 7 XOR r ! 13 XOR r ! 15) # r)"

definition sha1_f :: "nat \<Rightarrow> u32 \<Rightarrow> u32 \<Rightarrow> u32 \<Rightarrow> u32" where
  "sha1_f t b c d =
     (if t < 20 then (b AND c) OR (NOT b AND d)
      else if t < 40 then b XOR c XOR d
      else if t < 60 then (b AND c) OR (b AND d) OR (c AND d)
      else b XOR c XOR d)"

definition sha1_k :: "nat \<Rightarrow> u32" where
  "sha1_k t =
     (if t < 20 then 0x5A827999 else if t < 40 then 0x6ED9EBA1
      else if t < 60 then 0x8F1BBCDC else 0xCA62C1D6)"

type_synonym sha1_state = "u32 \<times> u32 \<times> u32 \<times> u32 \<times> u32"

fun sha1_rounds :: "nat \<Rightarrow> u32 list \<Rightarrow> sha1_state \<Rightarrow> sha1_state" where
  "sha1_rounds t [] s = s"
| "sha1_rounds t (w # ws) (a, b, c, d, e) =
     sha1_rounds (Suc t) ws
       (word_rotl 5 a + sha1_f t b c d + e + sha1_k t + w, a, word_rotl 30 b, c, d)"

definition sha1_block :: "u32 list \<Rightarrow> sha1_state \<Rightarrow> sha1_state" where
  "sha1_block ws s =
     (case s of (a, b, c, d, e) \<Rightarrow>
        (case sha1_rounds 0 (rev (sha1_expand 64 (rev ws))) s of
           (a', b', c', d', e') \<Rightarrow> (a + a', b + b', c + c', d + d', e + e')))"

fun sha1_blocks :: "nat \<Rightarrow> u32 list \<Rightarrow> sha1_state \<Rightarrow> sha1_state" where
  "sha1_blocks 0 ws s = s"
| "sha1_blocks (Suc n) ws s = sha1_blocks n (drop 16 ws) (sha1_block (take 16 ws) s)"

definition sha1_init :: sha1_state where
  "sha1_init = (0x67452301, 0xEFCDAB89, 0x98BADCFE, 0x10325476, 0xC3D2E1F0)"

text \<open>\<open>sha1.Sum\<close>: twenty bytes.\<close>

definition sha1_sum :: "byte list \<Rightarrow> byte list" where
  "sha1_sum m =
     (let ws = words_of (sha1_pad m)
      in case sha1_blocks (length ws div 16) ws sha1_init of
           (a, b, c, d, e) \<Rightarrow> concat (map (\<lambda>w. be_bytes 4 (unat w)) [a, b, c, d, e]))"

lemma length_be_bytes [simp]: "length (be_bytes k n) = k"
  by (simp add: be_bytes_def)

lemma length_sha1_sum [simp]: "length (sha1_sum m) = 20"
  by (simp add: sha1_sum_def Let_def split: prod.split)

subsection \<open>Evaluation\<close>

text \<open>
  The same on integers with an explicit mask, for evaluation: a reduction modulo \<open>2 ^ 32\<close> by a
  conjunction is much cheaper than one by a division.
\<close>

definition int_rotl :: "nat \<Rightarrow> int \<Rightarrow> int \<Rightarrow> int" where
  "int_rotl n p x = (let y = x AND 0xFFFFFFFF in (y * p) OR drop_bit (32 - n) y)"

lemma mask_32: "x AND 0xFFFFFFFF = take_bit 32 (x :: int)"
  by (simp add: take_bit_eq_mask mask_eq_exp_minus_1)

lemma word_of_int_mask: "word_of_int (x AND 0xFFFFFFFF) = (word_of_int x :: u32)"
  unfolding mask_32 by (simp add: word_of_int_eq_iff)

lemma int_rotl: 
  assumes n: "n < 32" and p: "p = 2 ^ n"
  shows "word_of_int (int_rotl n p x) = word_rotl n (word_of_int x :: u32)"
proof (rule bit_word_eqI)
  fix m assume m: "m < LENGTH(32)"
  have eq: "int_rotl n p x = push_bit n (take_bit 32 x) OR drop_bit (32 - n) (take_bit 32 x)"
    by (simp add: int_rotl_def Let_def mask_32 p push_bit_eq_mult)
  have idx: "(m + (32 - n)) mod 32 = (if n \<le> m then m - n else 32 - n + m)"
  proof (cases "n \<le> m")
    case True
    then have "m + (32 - n) = m - n + 32" using n by arith
    then have "(m + (32 - n)) mod 32 = (m - n) mod 32" by (metis mod_add_self2)
    with True m show ?thesis by simp
  next
    case False
    then have "m + (32 - n) = 32 - n + m" "m + (32 - n) < 32" using n by arith+
    with False show ?thesis by simp
  qed
  show "bit (word_of_int (int_rotl n p x) :: u32) m = bit (word_rotl n (word_of_int x :: u32)) m"
    unfolding eq using m n idx by (auto simp: bit_word_rotl_iff bit_simps)
qed

fun int_expand :: "nat \<Rightarrow> int list \<Rightarrow> int list" where
  "int_expand 0 r = r"
| "int_expand (Suc n) r =
     int_expand n (int_rotl 1 2 (r ! 2 XOR r ! 7 XOR r ! 13 XOR r ! 15) # r)"

lemma int_expand: "16 \<le> length r \<Longrightarrow> map word_of_int (int_expand n r) = sha1_expand n (map word_of_int r)"
proof (induction n arbitrary: r)
  case (Suc n)
  then have "map word_of_int (int_expand (Suc n) r) =
    sha1_expand n (word_of_int (int_rotl 1 2 (r ! 2 XOR r ! 7 XOR r ! 13 XOR r ! 15)) # map word_of_int r)"
    by simp
  also have "word_of_int (int_rotl 1 2 (r ! 2 XOR r ! 7 XOR r ! 13 XOR r ! 15)) =
    word_rotl 1 (word_of_int (r ! 2) XOR word_of_int (r ! 7) XOR word_of_int (r ! 13) XOR word_of_int (r ! 15) :: u32)"
    by (simp add: int_rotl of_int_xor_eq)
  finally show ?case using Suc.prems by simp
qed simp

definition int_f :: "nat \<Rightarrow> int \<Rightarrow> int \<Rightarrow> int \<Rightarrow> int" where
  "int_f t b c d =
     (if t < 20 then (b AND c) OR (NOT b AND d)
      else if t < 40 then b XOR c XOR d
      else if t < 60 then (b AND c) OR (b AND d) OR (c AND d)
      else b XOR c XOR d)"

lemma int_f: "word_of_int (int_f t b c d) = sha1_f t (word_of_int b) (word_of_int c) (word_of_int d)"
  by (simp add: int_f_def sha1_f_def of_int_xor_eq of_int_and_eq of_int_or_eq of_int_not_eq)

definition int_k :: "nat \<Rightarrow> int" where
  "int_k t =
     (if t < 20 then 0x5A827999 else if t < 40 then 0x6ED9EBA1
      else if t < 60 then 0x8F1BBCDC else 0xCA62C1D6)"

lemma int_k: "word_of_int (int_k t) = sha1_k t"
  by (simp add: int_k_def sha1_k_def)

fun int_rounds :: "nat \<Rightarrow> int list \<Rightarrow> int \<times> int \<times> int \<times> int \<times> int \<Rightarrow> int \<times> int \<times> int \<times> int \<times> int" where
  "int_rounds t [] s = s"
| "int_rounds t (w # ws) (a, b, c, d, e) =
     int_rounds (Suc t) ws
       ((int_rotl 5 32 a + int_f t b c d + e + int_k t + w) AND 0xFFFFFFFF, a, int_rotl 30 1073741824 b AND 0xFFFFFFFF, c, d)"

definition to_words :: "int \<times> int \<times> int \<times> int \<times> int \<Rightarrow> sha1_state" where
  "to_words s = (case s of (a, b, c, d, e) \<Rightarrow> (word_of_int a, word_of_int b, word_of_int c, word_of_int d, word_of_int e))"

lemma int_rounds: "to_words (int_rounds t ws s) = sha1_rounds t (map word_of_int ws) (to_words s)"
proof (induction t ws s rule: int_rounds.induct)
  case (2 t w ws a b c d e)
  have a: "word_of_int ((int_rotl 5 32 a + int_f t b c d + e + int_k t + w) AND 0xFFFFFFFF) =
      word_rotl 5 (word_of_int a) + sha1_f t (word_of_int b) (word_of_int c) (word_of_int d) + word_of_int e + sha1_k t + word_of_int w"
    by (simp only: word_of_int_mask of_int_add int_rotl int_f int_k) (simp add: int_rotl)
  have b: "word_of_int (int_rotl 30 1073741824 b AND 0xFFFFFFFF) = word_rotl 30 (word_of_int b :: u32)"
    by (simp only: word_of_int_mask) (simp add: int_rotl)
  show ?case
    using "2.IH" by (simp add: to_words_def a b split: prod.splits)
qed simp

lemma int_block:
  assumes "16 \<le> length ws"
  shows "to_words (int_rounds 0 (rev (int_expand 64 (rev ws))) s) =
    sha1_rounds 0 (rev (sha1_expand 64 (rev (map word_of_int ws)))) (to_words s)"
proof -
  have "map word_of_int (int_expand 64 (rev ws)) = sha1_expand 64 (map word_of_int (rev ws))"
    by (rule int_expand) (use assms in simp)
  then have "map word_of_int (rev (int_expand 64 (rev ws))) = rev (sha1_expand 64 (rev (map word_of_int ws)))"
    by (simp flip: rev_map)
  then show ?thesis by (simp add: int_rounds)
qed

fun int_add :: "int \<times> int \<times> int \<times> int \<times> int \<Rightarrow> int \<times> int \<times> int \<times> int \<times> int \<Rightarrow> int \<times> int \<times> int \<times> int \<times> int" where
  "int_add (a, b, c, d, e) (a', b', c', d', e') = (a + a', b + b', c + c', d + d', e + e')"

fun int_blocks :: "nat \<Rightarrow> int list \<Rightarrow> int \<times> int \<times> int \<times> int \<times> int \<Rightarrow> int \<times> int \<times> int \<times> int \<times> int" where
  "int_blocks 0 ws s = s"
| "int_blocks (Suc n) ws s =
     int_blocks n (drop 16 ws) (int_add s (int_rounds 0 (rev (int_expand 64 (rev (take 16 ws)))) s))"

lemma to_words_add:
  "to_words (int_add s t) = (case to_words s of (a, b, c, d, e) \<Rightarrow> case to_words t of
     (a', b', c', d', e') \<Rightarrow> (a + a', b + b', c + c', d + d', e + e'))"
  by (cases s; cases t) (simp add: to_words_def)

lemma int_blocks:
  "16 * n \<le> length ws \<Longrightarrow> to_words (int_blocks n ws s) = sha1_blocks n (map word_of_int ws) (to_words s)"
proof (induction n arbitrary: ws s)
  case (Suc n)
  then have "16 \<le> length (take 16 ws)" by simp
  from int_block [OF this, of s] Suc show ?case
    by (simp add: to_words_add sha1_block_def take_map drop_map)
qed simp

lemma sha1_sum_code [code]:
  "sha1_sum m =
     (let ws = map uint (words_of (sha1_pad m))
      in case int_blocks (length ws div 16) ws (0x67452301, 0xEFCDAB89, 0x98BADCFE, 0x10325476, 0xC3D2E1F0) of
           (a, b, c, d, e) \<Rightarrow> concat (map (\<lambda>w. be_bytes 4 (nat (w AND 0xFFFFFFFF))) [a, b, c, d, e]))"
proof -
  let ?ws = "words_of (sha1_pad m)"
  let ?s = "int_blocks (length ?ws div 16) (map uint ?ws) (0x67452301, 0xEFCDAB89, 0x98BADCFE, 0x10325476, 0xC3D2E1F0)"
  have "sha1_blocks (length ?ws div 16) ?ws sha1_init = to_words ?s"
    using int_blocks [of "length ?ws div 16" "map uint ?ws"] by (simp add: comp_def to_words_def sha1_init_def)
  moreover have "nat (w AND 0xFFFFFFFF) = unat (word_of_int w :: u32)" for w
    unfolding mask_32 by (simp add: unsigned_of_int nat_take_bit_eq)
  ultimately show ?thesis
    by (cases ?s) (simp add: sha1_sum_def Let_def to_words_def)
qed

section \<open>encoding/base32\<close>

definition base32_digit :: "nat \<Rightarrow> char" where
  "base32_digit n = (if n < 26 then char_of (65 + n) else char_of (24 + n))"

definition byte_bits :: "byte \<Rightarrow> bool list" where
  "byte_bits b = rev (map (bit b) [0..<8])"

definition bits_value :: "bool list \<Rightarrow> nat" where
  "bits_value bs = foldl (\<lambda>n b. 2 * n + (if b then 1 else 0)) 0 bs"

text \<open>Groups of five bits, the last one filled with zero bits.\<close>

fun base32_groups :: "nat \<Rightarrow> bool list \<Rightarrow> string" where
  "base32_groups 0 bs = []"
| "base32_groups (Suc n) bs =
     base32_digit (bits_value (take 5 (bs @ replicate 4 False))) # base32_groups n (drop 5 bs)"

text \<open>\<open>base32.StdEncoding.EncodeToString\<close>, padded to a multiple of eight characters.\<close>

definition base32_encode :: "byte list \<Rightarrow> string" where
  "base32_encode bs =
     (let n = (8 * length bs + 4) div 5
      in base32_groups n (concat (map byte_bits bs)) @ replicate ((8 - n mod 8) mod 8) (CHR ''=''))"

lemma length_base32_groups [simp]: "length (base32_groups n bs) = n"
  by (induction n arbitrary: bs) simp_all

section \<open>The fixed network mapper\<close>

text \<open>\<open>models.Properties\<close> and \<open>models.NetworkPayload\<close>\<close>

record network_payload =
  np_app_id :: string
  np_space_id :: string

text \<open>\<open>binary.LittleEndian.Uint32\<close>, as an \<open>int\<close> of 64 bits.\<close>

definition little_endian :: "byte list \<Rightarrow> nat" where
  "little_endian bs = set_bytes (rev bs)"

definition get_vni :: "string \<Rightarrow> goerror + int" where
  "get_vni network_id =
     (let digest = (sha1_sum (bytes_of_string network_id))[3 := 0]
      in Inr (int (little_endian (take 4 digest))))"

definition get_network_id :: "string \<Rightarrow> network_payload \<Rightarrow> goerror + string" where
  "get_network_id default_id p =
     (if np_space_id p = [] then Inr default_id else Inr (np_space_id p))"

section \<open>Names\<close>

definition name_sandbox_link :: "string \<Rightarrow> string" where
  "name_sandbox_link container_id = take 15 (base32_encode (sha1_sum (bytes_of_string container_id)))"

definition vxlan_name :: "int \<Rightarrow> string" where
  "vxlan_name vni = ''vxlan'' @ show_int vni"

definition sandbox_name :: "int \<Rightarrow> string" where
  "sandbox_name vni = ''vni-'' @ show_int vni"

definition bridge_name :: "int \<Rightarrow> string" where
  "bridge_name vni = ''vxlanbr'' @ show_int vni"

lemma sandbox_name_inj [simp]: "sandbox_name i = sandbox_name j \<longleftrightarrow> i = j"
  by (simp add: sandbox_name_def)

lemma sandbox_name_nonempty [simp]: "sandbox_name i \<noteq> []"
  by (simp add: sandbox_name_def)

lemma sandbox_name_no_slash [simp]: "CHR ''/'' \<notin> set (sandbox_name i)"
  by (simp add: sandbox_name_def)

lemma get_vni_range:
  assumes "get_vni n = Inr v"
  shows "0 \<le> v" "v < 2 ^ 24"
proof -
  let ?d = "(sha1_sum (bytes_of_string n))[3 := 0]"
  let ?t = "take 3 ?d"
  have len: "length ?d = 20" by simp
  then have "?d ! 3 = 0"
    by (simp del: length_list_update)
  with len have "take 4 ?d = ?t @ [0]"
    using take_Suc_conv_app_nth [of 3 ?d] by (simp add: numeral_eq_Suc)
  then have "set_bytes (rev (take 4 ?d)) = set_bytes (0 # rev ?t)"
    by simp
  also have "\<dots> = set_bytes (rev ?t)"
    by (simp add: set_bytes_def)
  also have "\<dots> < 256 ^ 3"
    using set_bytes_bound [of "rev ?t"] by simp
  finally have "set_bytes (rev (take 4 ?d)) < 2 ^ 24"
    by simp
  moreover have v: "v = int (set_bytes (rev (take 4 ?d)))"
    using assms by (simp add: get_vni_def little_endian_def Let_def)
  ultimately show "0 \<le> v" "v < 2 ^ 24" by simp_all
qed

lemma length_show_nat: "0 < k \<Longrightarrow> n < 10 ^ k \<Longrightarrow> length (show_nat n) \<le> k"
proof (induction n arbitrary: k rule: show_nat.induct)
  case (1 n)
  show ?case
  proof (cases "n < 10")
    case True
    with "1.prems" show ?thesis by (simp add: show_nat.simps [of n])
  next
    case False
    with "1.prems" obtain j where j: "k = Suc j" "0 < j"
      by (cases k; cases "k - 1") auto
    with "1.prems" have "n div 10 < 10 ^ j" by simp
    with "1.IH" [OF False j(2)] j False show ?thesis
      by (simp add: show_nat.simps [of n])
  qed
qed

section \<open>Properties\<close>

text \<open>
  C37: The VNI of a network is a 24-bit number, so the names of the VXLAN device and of the bridge fit
  the 15 characters that Linux allows for a device, as does the name of the veth end in the
  sandbox; networks with different VNIs have different sandbox names.
\<close>

theorem names_fit_the_kernel:
  assumes "get_vni m = Inr v" "get_vni n = Inr w"
  shows "0 \<le> v \<and> v < 2 ^ 24 \<and> length (vxlan_name v) \<le> 15 \<and> length (bridge_name v) \<le> 15 \<and>
    length (name_sandbox_link i) = 15 \<and> (sandbox_name v = sandbox_name w \<longleftrightarrow> v = w)"
proof -
  have v: "0 \<le> v" "v < 2 ^ 24"
    using get_vni_range [OF assms(1)] by simp_all
  then have "length (show_int v) \<le> 8"
    using length_show_nat [of 8 "nat v"] by (simp add: show_int_nonneg nat_less_iff)
  with v show ?thesis
    by (simp add: vxlan_name_def bridge_name_def name_sandbox_link_def base32_encode_def Let_def)
qed

lemma names_fit_the_kernel_witness:
  "length (bridge_name (projr (get_vni ''default''))) \<le> 15"
proof -
  have "get_vni ''default'' = Inr (projr (get_vni ''default''))"
    by (simp add: get_vni_def Let_def)
  from names_fit_the_kernel [OF this this] show ?thesis by blast
qed

end
