(* ===== verification/Kernel.thy ===== *)
theory Kernel
  imports Network
begin

text \<open>
  The boundary of the daemon: the operating system and the packages that are not in the
  repository, as a record of functions over a state of any type \<open>'k\<close>.  Every theorem holds for
  all such functions, unless it names what it needs of them.

  The functions stand for: \<open>github.com/vishvananda/netlink\<close> (reached through \<open>lib/nl\<close>, whose
  methods pass every call on unchanged), \<open>github.com/appc/cni/pkg/ns\<close>, \<open>golang.org/x/sys/unix\<close>,
  files and processes of package \<open>os\<close>, the database behind \<open>github.com/jmoiron/sqlx\<close>, and
  \<open>github.com/tedsuo/ifrit\<close>.
\<close>

section \<open>Data of github.com/vishvananda/netlink\<close>

record link_attrs =
  la_name :: string
  la_mtu :: int
  la_index :: int
  la_hardware_addr :: hardware_addr

definition attrs :: "string \<Rightarrow> int \<Rightarrow> link_attrs" where
  "attrs name mtu = \<lparr>la_name = name, la_mtu = mtu, la_index = 0, la_hardware_addr = []\<rparr>"

record vxlan_options =
  vx_id :: int
  vx_learning :: bool
  vx_port :: int
  vx_proxy :: bool
  vx_l3miss :: bool
  vx_l2miss :: bool

datatype link =
    Bridge link_attrs
  | Dummy link_attrs
  | Veth link_attrs string
  | Vxlan link_attrs vxlan_options
  | OtherLink link_attrs

fun link_attrs_of :: "link \<Rightarrow> link_attrs" where
  "link_attrs_of (Bridge a) = a"
| "link_attrs_of (Dummy a) = a"
| "link_attrs_of (Veth a p) = a"
| "link_attrs_of (Vxlan a o') = a"
| "link_attrs_of (OtherLink a) = a"

record netlink_neigh =
  nn_link_index :: int
  nn_family :: int
  nn_state :: int
  nn_type :: int
  nn_flags :: int
  nn_ip :: ip
  nn_hardware_addr :: hardware_addr

record netlink_route =
  nr_link_index :: int
  nr_scope :: int
  nr_dst :: ip_net
  nr_gw :: ip

section \<open>Files, processes, records\<close>

text \<open>
  An open file (\<open>*os.File\<close>): its name and descriptor.  A namespace of the daemon is always a
  \<open>*namespace.Netns\<close>, that is, such a file with a logger and a thread locker.
\<close>

record go_file =
  file_name :: string
  file_fd :: nat

record udp_addr =
  udp_ip :: ip
  udp_port :: int

text \<open>What \<open>DNSFactory.New\<close> hands to \<open>runner.New\<close>: the socket, the servers and the namespace written in.\<close>

record dns_runner =
  dns_external :: string
  dns_api :: string
  dns_suffix :: string
  dns_listener :: nat
  dns_namespace :: go_file

text \<open>\<open>models.Container\<close>\<close>

record container =
  ctr_id :: string
  ctr_ip :: string
  ctr_mac :: string
  ctr_host_ip :: string
  ctr_network_id :: string
  ctr_sandbox_name :: string
  ctr_app :: string

section \<open>The operating system\<close>

type_synonym ('k, 'a) sysop = "'k \<Rightarrow> (goerror + 'a) \<times> 'k"

record 'k os =
  \<comment> \<open>netlink\<close>
  os_link_add :: "link \<Rightarrow> ('k, unit) sysop"
  os_link_by_name :: "string \<Rightarrow> ('k, link) sysop"
  os_link_del :: "link \<Rightarrow> ('k, unit) sysop"
  os_link_list :: "('k, link list) sysop"
  os_link_set_master :: "link \<Rightarrow> link \<Rightarrow> ('k, unit) sysop"
  os_link_set_ns_fd :: "link \<Rightarrow> int \<Rightarrow> ('k, unit) sysop"
  os_link_set_up :: "link \<Rightarrow> ('k, unit) sysop"
  os_addr_add :: "link \<Rightarrow> ip_net \<Rightarrow> ('k, unit) sysop"
  os_route_add :: "netlink_route \<Rightarrow> ('k, unit) sysop"
  os_set_neigh :: "netlink_neigh \<Rightarrow> ('k, unit) sysop"
  os_neigh_subscribe :: "('k, nat) sysop"
  os_swap16 :: "16 word \<Rightarrow> 16 word"
  \<comment> \<open>files, mounts and namespaces\<close>
  os_open :: "string \<Rightarrow> ('k, go_file) sysop"
  os_close :: "go_file \<Rightarrow> 'k \<Rightarrow> 'k"
  os_create_excl :: "string \<Rightarrow> ('k, unit) sysop"
  os_mount :: "string \<Rightarrow> string \<Rightarrow> ('k, unit) sysop"
  os_unmount :: "string \<Rightarrow> ('k, unit) sysop"
  os_remove :: "string \<Rightarrow> ('k, unit) sysop"
  os_mkdir_all :: "string \<Rightarrow> ('k, unit) sysop"
  os_walk :: "string \<Rightarrow> 'k \<Rightarrow> string list"
  os_set_ns :: "go_file \<Rightarrow> ('k, unit) sysop"
  os_inode :: "nat \<Rightarrow> 'k \<Rightarrow> nat option"
  os_pid :: "'k \<Rightarrow> nat"
  os_tid :: "'k \<Rightarrow> nat"
  os_netns_add :: "string \<Rightarrow> ('k, unit) sysop"
  os_random :: "'k \<Rightarrow> 32 word \<times> 'k"
  \<comment> \<open>sockets and processes\<close>
  os_resolve_udp :: "string \<Rightarrow> ('k, udp_addr) sysop"
  os_listen_udp :: "udp_addr \<Rightarrow> ('k, nat) sysop"
  os_invoke :: "dns_runner \<Rightarrow> 'k \<Rightarrow> nat \<times> 'k"
  os_exited :: "nat \<Rightarrow> 'k \<Rightarrow> goerror option option"
  os_kill :: "nat \<Rightarrow> 'k \<Rightarrow> 'k"
  \<comment> \<open>the database\<close>
  os_db_exec :: "string \<Rightarrow> ('k, unit) sysop"
  os_db_insert :: "container \<Rightarrow> ('k, unit) sysop"
  os_db_get :: "string \<Rightarrow> ('k, container) sysop"
  os_db_select :: "('k, container list) sysop"
  os_db_delete :: "string \<Rightarrow> ('k, goerror + int) sysop"

text \<open>The state of the daemon extends that of the system.\<close>

record 'k world =
  kernel :: 'k

definition sys :: "('k, 'a) sysop \<Rightarrow> (('k, 'z) world_scheme, 'a) prog" where
  "sys f s = (case f (kernel s) of
     (Inl e, k) \<Rightarrow> (Err e, s\<lparr>kernel := k\<rparr>)
   | (Inr x, k) \<Rightarrow> (Ok x, s\<lparr>kernel := k\<rparr>))"

text \<open>A call that changes the system and cannot fail.\<close>

definition sys_do :: "('k \<Rightarrow> 'a \<times> 'k) \<Rightarrow> (('k, 'z) world_scheme, 'a) prog" where
  "sys_do f s = (case f (kernel s) of (x, k) \<Rightarrow> (Ok x, s\<lparr>kernel := k\<rparr>))"

lemma sys_eval:
  "f (kernel s) = (Inl e, k) \<Longrightarrow> sys f s = (Err e, s\<lparr>kernel := k\<rparr>)"
  "f (kernel s) = (Inr x, k) \<Longrightarrow> sys f s = (Ok x, s\<lparr>kernel := k\<rparr>)"
  by (simp_all add: sys_def)

text \<open>Programs that only change the system.\<close>

definition system_only :: "(('k, 'z) world_scheme, 'a) prog \<Rightarrow> bool" where
  "system_only m \<longleftrightarrow> (\<forall>s c. (snd (m s))\<lparr>kernel := c\<rparr> = s\<lparr>kernel := c\<rparr>)"

named_theorems system_intros \<open>programs that only change the system\<close>

lemma system_onlyI: "(\<And>s c. (snd (m s))\<lparr>kernel := c\<rparr> = s\<lparr>kernel := c\<rparr>) \<Longrightarrow> system_only m"
  by (simp add: system_only_def)

lemma system_onlyD: "system_only m \<Longrightarrow> m s = (r, t) \<Longrightarrow> t\<lparr>kernel := c\<rparr> = s\<lparr>kernel := c\<rparr>"
  unfolding system_only_def by (metis snd_conv)

lemma system_onlyE:
  assumes "system_only m" "m s = (r, t)"
  obtains k where "t = s\<lparr>kernel := k\<rparr>"
proof
  have "t = t\<lparr>kernel := kernel t\<rparr>" by simp
  also have "\<dots> = s\<lparr>kernel := kernel t\<rparr>" by (rule system_onlyD [OF assms])
  finally show "t = s\<lparr>kernel := kernel t\<rparr>" .
qed

lemma system_only_basic [system_intros]:
  "system_only (ret x)" "system_only (fail e)" "system_only (panic t)" "system_only (pick p)"
  "system_only (gets g)" "system_only (sys f)" "system_only (sys_do h)"
  by (rule system_onlyI; simp add: ret_def fail_def panic_def pick_def gets_def sys_def sys_do_def
      split: sum.split prod.split)+

lemma system_only_attempt [system_intros]:
  assumes "system_only m" "\<And>e. system_only (h e)" "\<And>x. system_only (k x)"
  shows "system_only (attempt m h k)"
proof (rule system_onlyI)
  fix s c
  obtain r t where mt: "m s = (r, t)" by fastforce
  with assms(1) have "t\<lparr>kernel := c\<rparr> = s\<lparr>kernel := c\<rparr>" by (rule system_onlyD)
  with mt assms(2,3) show "(snd (attempt m h k s))\<lparr>kernel := c\<rparr> = s\<lparr>kernel := c\<rparr>"
    by (cases r) (simp_all add: attempt_eval system_only_def)
qed

lemma system_only_bind [system_intros]:
  "system_only m \<Longrightarrow> (\<And>x. system_only (k x)) \<Longrightarrow> system_only (bind_wrap p m k)"
  "system_only m \<Longrightarrow> (\<And>x. system_only (k x)) \<Longrightarrow> system_only (bind_err m k)"
  by (simp_all add: bind_wrap_def bind_err_def system_intros)

lemma system_only_deferring:
  assumes "system_only m" "\<And>s c. (d s)\<lparr>kernel := c\<rparr> = s\<lparr>kernel := c\<rparr>"
  shows "system_only (deferring d m)"
proof (rule system_onlyI)
  fix s c
  obtain r t where t: "m s = (r, t)" by fastforce
  with assms(1) have "t\<lparr>kernel := c\<rparr> = s\<lparr>kernel := c\<rparr>" by (rule system_onlyD)
  with t assms(2) show "(snd (deferring d m s))\<lparr>kernel := c\<rparr> = s\<lparr>kernel := c\<rparr>"
    by (simp add: deferring_def)
qed

text \<open>What does not depend on the system is kept by such programs.\<close>

lemma system_only_keeps:
  assumes "system_only m" "\<And>s k. P s \<Longrightarrow> P (s\<lparr>kernel := k\<rparr>)"
  shows "keeps P m"
proof (rule keepsI)
  fix s assume "P s"
  obtain r t where t: "m s = (r, t)" by fastforce
  obtain k where "t = s\<lparr>kernel := k\<rparr>" by (rule system_onlyE [OF assms(1) t])
  with assms(2) \<open>P s\<close> t show "P (snd (m s))" by simp
qed

end
