(* ===== verification/Netlink.thy ===== *)
theory Netlink
  imports Kernel
begin

text \<open>
  The layer between the daemon and the netlink package (\<open>lib/nl/nl_linux.go\<close>): every method of
  \<open>nl\<close> passes its arguments on.  Two methods, which the daemon never calls, and the parser of messages, which
  is the parameter \<open>deser\<close> of the receive loop, have the function of the netlink package that they pass on to as
  an argument; the functions behind the others are fields of \<open>os\<close>.
\<close>

definition nl_link_add :: "'k os \<Rightarrow> link \<Rightarrow> (('k, 'z) world_scheme, unit) prog" where
  "nl_link_add os l = sys (os_link_add os l)"

definition nl_link_set_up :: "'k os \<Rightarrow> link \<Rightarrow> (('k, 'z) world_scheme, unit) prog" where
  "nl_link_set_up os l = sys (os_link_set_up os l)"

definition nl_link_by_name :: "'k os \<Rightarrow> string \<Rightarrow> (('k, 'z) world_scheme, link) prog" where
  "nl_link_by_name os name = sys (os_link_by_name os name)"

definition nl_link_by_index :: "(int \<Rightarrow> ('k, link) sysop) \<Rightarrow> int \<Rightarrow> (('k, 'z) world_scheme, link) prog" where
  "nl_link_by_index link_by_index index = sys (link_by_index index)"

definition nl_link_set_ns_fd :: "'k os \<Rightarrow> link \<Rightarrow> int \<Rightarrow> (('k, 'z) world_scheme, unit) prog" where
  "nl_link_set_ns_fd os l fd = sys (os_link_set_ns_fd os l fd)"

definition nl_addr_add :: "'k os \<Rightarrow> link \<Rightarrow> ip_net \<Rightarrow> (('k, 'z) world_scheme, unit) prog" where
  "nl_addr_add os l addr = sys (os_addr_add os l addr)"

definition nl_link_set_master :: "'k os \<Rightarrow> link \<Rightarrow> link \<Rightarrow> (('k, 'z) world_scheme, unit) prog" where
  "nl_link_set_master os slave master = sys (os_link_set_master os slave master)"

definition nl_route_add :: "'k os \<Rightarrow> netlink_route \<Rightarrow> (('k, 'z) world_scheme, unit) prog" where
  "nl_route_add os route = sys (os_route_add os route)"

definition nl_link_del :: "'k os \<Rightarrow> link \<Rightarrow> (('k, 'z) world_scheme, unit) prog" where
  "nl_link_del os l = sys (os_link_del os l)"

definition nl_link_list :: "'k os \<Rightarrow> (('k, 'z) world_scheme, link list) prog" where
  "nl_link_list os = sys (os_link_list os)"

definition nl_route_list ::
  "(link \<Rightarrow> int \<Rightarrow> ('k, netlink_route list) sysop) \<Rightarrow> link \<Rightarrow> int \<Rightarrow>
   (('k, 'z) world_scheme, netlink_route list) prog" where
  "nl_route_list route_list l family = sys (route_list l family)"

definition nl_subscribe :: "'k os \<Rightarrow> (('k, 'z) world_scheme, nat) prog" where
  "nl_subscribe os = sys (os_neigh_subscribe os)"

definition nl_neigh_deserialize ::
  "(byte list \<Rightarrow> goerror + netlink_neigh) \<Rightarrow> byte list \<Rightarrow> goerror + netlink_neigh" where
  "nl_neigh_deserialize neigh_deserialize data = neigh_deserialize data"

definition nl_set_neigh :: "'k os \<Rightarrow> netlink_neigh \<Rightarrow> (('k, 'z) world_scheme, unit) prog" where
  "nl_set_neigh os n = sys (os_set_neigh os n)"

lemmas nl_defs = nl_link_add_def nl_link_set_up_def nl_link_by_name_def nl_link_set_ns_fd_def nl_addr_add_def
  nl_link_set_master_def nl_route_add_def nl_link_del_def nl_link_list_def nl_link_by_index_def nl_route_list_def nl_subscribe_def nl_set_neigh_def

lemma system_only_nl [system_intros]:
  "system_only (nl_link_add os l)" "system_only (nl_link_set_up os l)" "system_only (nl_link_by_name os name)"
  "system_only (nl_link_set_ns_fd os l fd)" "system_only (nl_addr_add os l a)"
  "system_only (nl_link_set_master os l m)" "system_only (nl_route_add os r)" "system_only (nl_link_del os l)"
  "system_only (nl_link_list os)" "system_only (nl_link_by_index by_index i)"
  "system_only (nl_route_list route_list l family)" "system_only (nl_subscribe os)" "system_only (nl_set_neigh os n)"
  by (simp_all add: nl_defs system_intros)

end
