(* ===== verification/Links.thy ===== *)
theory Links
  imports Netlink
begin

text \<open>
  The link factory (\<open>lib/links/factory.go\<close>), the address and route managers (\<open>lib/ip\<close>), and
  what they ask of netlink.
\<close>

section \<open>The link factory\<close>

definition bridge_mtu :: int where "bridge_mtu = 1500"

definition vxlan_port :: "16 word" where "vxlan_port = 4789"

definition create_bridge :: "'k os \<Rightarrow> string \<Rightarrow> (('k, 'z) world_scheme, unit) prog" where
  "create_bridge os name = nl_link_add os (Bridge (attrs name bridge_mtu))"

definition create_dummy :: "'k os \<Rightarrow> string \<Rightarrow> (('k, 'z) world_scheme, unit) prog" where
  "create_dummy os name = nl_link_add os (Dummy (attrs name 0))"

definition create_veth :: "'k os \<Rightarrow> string \<Rightarrow> string \<Rightarrow> int \<Rightarrow> (('k, 'z) world_scheme, unit) prog" where
  "create_veth os name peer_name mtu =
     bind_wrap ''link add'' (nl_link_add os (Veth (attrs name mtu) peer_name)) (\<lambda>_. ret ())"

definition create_vxlan :: "'k os \<Rightarrow> string \<Rightarrow> int \<Rightarrow> (('k, 'z) world_scheme, unit) prog" where
  "create_vxlan os name vni =
     nl_link_add os (Vxlan (attrs name 0)
       \<lparr>vx_id = vni, vx_learning = True, vx_port = uint (os_swap16 os vxlan_port),
        vx_proxy = True, vx_l3miss = True, vx_l2miss = True\<rparr>)"

definition find_link :: "'k os \<Rightarrow> string \<Rightarrow> (('k, 'z) world_scheme, link) prog" where
  "find_link os name = nl_link_by_name os name"

definition link_exists :: "'k os \<Rightarrow> string \<Rightarrow> (('k, 'z) world_scheme, bool) prog" where
  "link_exists os name = attempt (find_link os name) (\<lambda>_. ret False) (\<lambda>_. ret True)"

definition delete_link :: "'k os \<Rightarrow> link \<Rightarrow> (('k, 'z) world_scheme, unit) prog" where
  "delete_link os l = nl_link_del os l"

definition delete_link_by_name :: "'k os \<Rightarrow> string \<Rightarrow> (('k, 'z) world_scheme, unit) prog" where
  "delete_link_by_name os name =
     bind_err (nl_link_by_name os name) (\<lambda>link.
     bind_err (nl_link_del os link) (\<lambda>_. ret ()))"

definition hardware_address :: "'k os \<Rightarrow> string \<Rightarrow> (('k, 'z) world_scheme, hardware_addr) prog" where
  "hardware_address os name =
     bind_wrap ''failed to find link'' (find_link os name) (\<lambda>link.
     ret (la_hardware_addr (link_attrs_of link)))"

definition list_links :: "'k os \<Rightarrow> (('k, 'z) world_scheme, link list) prog" where
  "list_links os = nl_link_list os"

fun is_bridge :: "link \<Rightarrow> bool" where
  "is_bridge (Bridge a) = True"
| "is_bridge _ = False"

fun is_veth :: "link \<Rightarrow> bool" where
  "is_veth (Veth a p) = True"
| "is_veth _ = False"

definition set_master :: "'k os \<Rightarrow> string \<Rightarrow> string \<Rightarrow> (('k, 'z) world_scheme, unit) prog" where
  "set_master os slave master =
     bind_wrap ''failed to find master'' (find_link os master) (\<lambda>bridge.
     if \<not> is_bridge bridge then fail (Errorf ''master must be a bridge'')
     else
       bind_wrap ''failed to find slave'' (find_link os slave) (\<lambda>link.
       bind_wrap ''failed to set master'' (nl_link_set_master os link bridge) (\<lambda>_. ret ())))"

definition set_namespace :: "'k os \<Rightarrow> string \<Rightarrow> nat \<Rightarrow> (('k, 'z) world_scheme, unit) prog" where
  "set_namespace os name fd =
     bind_wrap ''failed to find link'' (find_link os name) (\<lambda>link.
     bind_wrap ''failed to set link namespace'' (nl_link_set_ns_fd os link (int fd)) (\<lambda>_. ret ()))"

definition set_up :: "'k os \<Rightarrow> string \<Rightarrow> (('k, 'z) world_scheme, unit) prog" where
  "set_up os name =
     bind_err (find_link os name) (\<lambda>link.
     bind_wrap ''failed to set link up'' (nl_link_set_up os link) (\<lambda>_. ret ()))"

definition veth_device_count :: "'k os \<Rightarrow> (('k, 'z) world_scheme, nat) prog" where
  "veth_device_count os =
     bind_wrap ''failed to list links'' (nl_link_list os) (\<lambda>links.
     ret (length (filter is_veth links)))"

section \<open>The address and route managers\<close>

definition add_address :: "'k os \<Rightarrow> string \<Rightarrow> ip_net \<Rightarrow> (('k, 'z) world_scheme, unit) prog" where
  "add_address os name address =
     bind_wrap ''link by name failed'' (nl_link_by_name os name) (\<lambda>link.
     bind_wrap ''address add failed'' (nl_addr_add os link address) (\<lambda>_. ret ()))"

text \<open>\<open>netlink.SCOPE_UNIVERSE\<close> is 0.\<close>

definition add_route :: "'k os \<Rightarrow> string \<Rightarrow> ip_net \<Rightarrow> ip \<Rightarrow> (('k, 'z) world_scheme, unit) prog" where
  "add_route os name network gateway =
     bind_wrap ''link by name failed'' (nl_link_by_name os name) (\<lambda>link.
     bind_wrap ''route add failed''
       (nl_route_add os
         \<lparr>nr_link_index = la_index (link_attrs_of link), nr_scope = 0, nr_dst = network, nr_gw = gateway\<rparr>)
       (\<lambda>_. ret ()))"

section \<open>They change the system only\<close>

lemma system_only_links [system_intros]:
  "system_only (create_bridge os name)" "system_only (create_dummy os name)"
  "system_only (create_veth os name peer mtu)" "system_only (create_vxlan os name vni)"
  "system_only (find_link os name)" "system_only (link_exists os name)"
  "system_only (delete_link_by_name os name)" "system_only (hardware_address os name)"
  "system_only (set_master os slave master)" "system_only (set_namespace os name fd)"
  "system_only (set_up os name)" "system_only (veth_device_count os)"
  "system_only (add_address os name a)" "system_only (add_route os name n g)"
  by (simp_all add: create_bridge_def create_dummy_def create_veth_def create_vxlan_def find_link_def
      link_exists_def delete_link_by_name_def hardware_address_def set_master_def set_namespace_def
      set_up_def veth_device_count_def add_address_def add_route_def system_intros)

text \<open>A check for a link never fails.\<close>

lemma link_exists_ok: "\<exists>b k. link_exists os name s = (Ok b, s\<lparr>kernel := k\<rparr>)"
  by (cases "os_link_by_name os name (kernel s)"; cases "fst (os_link_by_name os name (kernel s))")
     (auto simp: link_exists_def find_link_def nl_link_by_name_def attempt_def sys_def ret_def)

end
