(* ===== verification/Namespace.thy ===== *)
theory Namespace
  imports Links
begin

text \<open>
  Network namespaces (\<open>lib/namespace\<close>, the files for Linux): running code in a namespace and
  coming back, the opener, and the repository of bind-mounted namespaces.
\<close>

section \<open>Rendering\<close>

text \<open>\<open>inode\<close>, \<open>String\<close> and \<open>MarshalJSON\<close> of a \<open>Netns\<close>: what the logs show of a namespace.\<close>

definition netns_inode :: "'k os \<Rightarrow> go_file \<Rightarrow> 'k \<Rightarrow> string" where
  "netns_inode os n k = (case os_inode os (file_fd n) k of None \<Rightarrow> ''unknown'' | Some ino \<Rightarrow> show_nat ino)"

definition netns_string :: "'k os \<Rightarrow> go_file \<Rightarrow> 'k \<Rightarrow> string" where
  "netns_string os n k = file_name n @ '':['' @ netns_inode os n k @ '']''"

definition netns_marshal_json :: "'k os \<Rightarrow> go_file \<Rightarrow> 'k \<Rightarrow> goerror + string" where
  "netns_marshal_json os n k =
     (let q = [CHR 0x22]
      in Inr (''{ '' @ q @ ''name'' @ q @ '': '' @ q @ file_name n @ q @ '', '' @
           q @ ''inode'' @ q @ '': '' @ q @ netns_inode os n k @ q @ '' }''))"

section \<open>Running in a namespace\<close>

definition task_namespace_path :: "'k os \<Rightarrow> 'k \<Rightarrow> string" where
  "task_namespace_path os k =
     ''/proc/'' @ show_nat (os_pid os k) @ ''/task/'' @ show_nat (os_tid os k) @ ''/ns/net''"

text \<open>\<open>defer func() { if err := d(); err != nil { panic(err) } }()\<close>\<close>

definition restoring :: "('s, unit) prog \<Rightarrow> ('s, 'a) prog \<Rightarrow> ('s, 'a) prog" where
  "restoring d m s =
     (case m s of (r, t) \<Rightarrow>
        if r = Abort Deadlock then (r, t)
        else (case d t of
                (Ok _, u) \<Rightarrow> (r, u)
              | (Err e, u) \<Rightarrow> (Abort (Panic (error_text e)), u)
              | (Abort a, u) \<Rightarrow> (Abort a, u)))"

definition close_file :: "'k os \<Rightarrow> go_file \<Rightarrow> ('k, 'z) world_scheme \<Rightarrow> ('k, 'z) world_scheme" where
  "close_file os f s = s\<lparr>kernel := os_close os f (kernel s)\<rparr>"

text \<open>
  \<open>Netns.Execute\<close>: the callback runs on a goroutine of its own, locked to its thread, and the
  caller waits for it, so the call is modelled in place.
\<close>

definition ns_execute ::
  "'k os \<Rightarrow> go_file \<Rightarrow> (go_file \<Rightarrow> (('k, 'z) world_scheme, 'a) prog) \<Rightarrow> (('k, 'z) world_scheme, 'a) prog" where
  "ns_execute os ns callback =
     bind_wrap ''open failed'' (\<lambda>s. sys (os_open os (task_namespace_path os (kernel s))) s) (\<lambda>original.
     deferring (close_file os original)
       (bind_wrap ''set ns failed'' (sys (os_set_ns os ns)) (\<lambda>_.
        restoring (sys (os_set_ns os original)) (callback original))))"

definition open_path :: "'k os \<Rightarrow> string \<Rightarrow> (('k, 'z) world_scheme, go_file) prog" where
  "open_path os path = bind_err (sys (os_open os path)) (\<lambda>file. ret file)"

text \<open>
  \<open>namespace_unix.go\<close> and \<open>repository_unix.go\<close>: on other systems than Linux the callback runs where the caller is,
  with no file, and a namespace is a plain file.
\<close>

definition ns_execute_elsewhere :: "(go_file option \<Rightarrow> ('s, 'a) prog) \<Rightarrow> ('s, 'a) prog" where
  "ns_execute_elsewhere callback = callback None"

definition bind_mount_file_elsewhere ::
  "(string \<Rightarrow> ('k, go_file) sysop) \<Rightarrow> string \<Rightarrow> string \<Rightarrow> (('k, 'z) world_scheme, go_file) prog" where
  "bind_mount_file_elsewhere create src dst = sys (create dst)"

definition unlink_network_namespace_elsewhere :: "'k os \<Rightarrow> string \<Rightarrow> (('k, 'z) world_scheme, unit) prog" where
  "unlink_network_namespace_elsewhere os path = sys (os_remove os path)"

section \<open>The repository\<close>

text \<open>\<open>fmt.Sprintf("ns-%.08x", random())\<close>\<close>

definition hex8 :: "32 word \<Rightarrow> string" where
  "hex8 w = map (\<lambda>i. hex_digit (unat w div 16 ^ (7 - i) mod 16)) [0..<8]"

definition path_of :: "string \<Rightarrow> string \<Rightarrow> string" where
  "path_of root path = path_join [root, path]"

definition new_repository :: "'k os \<Rightarrow> string \<Rightarrow> (('k, 'z) world_scheme, unit) prog" where
  "new_repository os root = bind_err (sys (os_mkdir_all os root)) (\<lambda>_. ret ())"

definition repo_open :: "'k os \<Rightarrow> string \<Rightarrow> string \<Rightarrow> (('k, 'z) world_scheme, go_file) prog" where
  "repo_open os root name = sys (os_open os (path_join [root, name]))"

definition repo_random :: "'k os \<Rightarrow> (('k, 'z) world_scheme, 32 word) prog" where
  "repo_random os = sys_do (os_random os)"

definition repo_get :: "'k os \<Rightarrow> string \<Rightarrow> string \<Rightarrow> (('k, 'z) world_scheme, go_file) prog" where
  "repo_get os root name = bind_err (repo_open os root name) (\<lambda>file. ret file)"

definition unlink_network_namespace :: "'k os \<Rightarrow> string \<Rightarrow> (('k, 'z) world_scheme, unit) prog" where
  "unlink_network_namespace os path =
     bind_wrap ''unmount'' (sys (os_unmount os path)) (\<lambda>_. sys (os_remove os path))"

text \<open>The format of the second error has no argument for its verb.\<close>

definition bind_mount_file :: "'k os \<Rightarrow> string \<Rightarrow> string \<Rightarrow> (('k, 'z) world_scheme, go_file) prog" where
  "bind_mount_file os src dst =
     bind_err (sys (os_create_excl os dst)) (\<lambda>_.
     attempt (sys (os_mount os src dst)) (\<lambda>_. fail (Errorf ''mount: %!s(MISSING)'')) (\<lambda>_.
     sys (os_open os dst)))"

definition repo_create :: "'k os \<Rightarrow> string \<Rightarrow> string \<Rightarrow> (('k, 'z) world_scheme, go_file) prog" where
  "repo_create os root name =
     bind_err (repo_random os) (\<lambda>r.
     (let temp_name = ''ns-'' @ hex8 r;
          netns_path = path_join [''/var/run/netns'', temp_name]
      in bind_err (sys (os_netns_add os temp_name)) (\<lambda>_.
         bind_err (bind_mount_file os netns_path (path_of root name)) (\<lambda>file.
         bind_err (unlink_network_namespace os netns_path) (\<lambda>_. ret file)))))"

text \<open>\<open>Netns\<close> is the only implementation of \<open>Namespace\<close>, so the type assertion succeeds.\<close>

definition repo_destroy :: "'k os \<Rightarrow> string \<Rightarrow> go_file \<Rightarrow> (('k, 'z) world_scheme, unit) prog" where
  "repo_destroy os root ns =
     (if \<not> has_prefix (file_name ns) root
      then fail (Errorf (''namespace outside of repository: '' @ file_name ns))
      else unlink_network_namespace os (file_name ns))"

section \<open>Effects\<close>

lemma system_only_restoring [system_intros]:
  assumes "system_only d" "system_only m"
  shows "system_only (restoring d m)"
proof (rule system_onlyI)
  fix s c
  obtain r t where mt: "m s = (r, t)" by fastforce
  obtain r' u where du: "d t = (r', u)" by fastforce
  have "t\<lparr>kernel := c\<rparr> = s\<lparr>kernel := c\<rparr>" "u\<lparr>kernel := c\<rparr> = t\<lparr>kernel := c\<rparr>"
    using system_onlyD [OF assms(2) mt] system_onlyD [OF assms(1) du] by blast+
  then show "(snd (restoring d m s))\<lparr>kernel := c\<rparr> = s\<lparr>kernel := c\<rparr>"
    using mt du by (simp add: restoring_def split: outcome.split)
qed

lemma system_only_namespace [system_intros]:
  "(\<And>f. system_only (callback f)) \<Longrightarrow> system_only (ns_execute os ns callback)"
  "system_only (open_path os path)" "system_only (repo_get os root name)"
  "system_only (unlink_network_namespace os path)" "system_only (bind_mount_file os path path')"
  "system_only (repo_create os root name)" "system_only (repo_destroy os root ns)"
proof -
  have task: "system_only (\<lambda>s. sys (os_open os (task_namespace_path os (kernel s))) s)"
    using system_only_basic(6) by (fastforce simp: system_only_def)
  have close: "(close_file os f s)\<lparr>kernel := c\<rparr> = s\<lparr>kernel := c\<rparr>" for f s c
    by (simp add: close_file_def)
  show "(\<And>f. system_only (callback f)) \<Longrightarrow> system_only (ns_execute os ns callback)"
    by (simp add: ns_execute_def system_intros system_only_deferring task close)
qed (simp_all add: open_path_def repo_open_def repo_random_def repo_get_def unlink_network_namespace_def bind_mount_file_def
    repo_create_def repo_destroy_def system_intros Let_def)

lemma keeps_restoring:
  assumes "keeps P m" "keeps P d"
  shows "keeps P (restoring d m)"
proof (rule keepsI)
  fix s assume "P s"
  obtain r t where mt: "m s = (r, t)" by fastforce
  obtain r' u where du: "d t = (r', u)" by fastforce
  have "P t" using assms(1) \<open>P s\<close> mt by (rule keepsD)
  moreover from assms(2) this du have "P u" by (rule keepsD)
  ultimately show "P (snd (restoring d m s))"
    using mt du by (simp add: restoring_def split: outcome.split)
qed

text \<open>An invariant of the callback that does not speak of the system is kept.\<close>

lemma keeps_ns_execute:
  assumes "\<And>f. keeps P (callback f)" "\<And>s k. P s \<Longrightarrow> P (s\<lparr>kernel := k\<rparr>)"
  shows "keeps P (ns_execute os ns callback)"
proof -
  have task: "system_only (\<lambda>s. sys (os_open os (task_namespace_path os (kernel s))) s)"
    using system_only_basic(6) by (fastforce simp: system_only_def)
  show ?thesis
    unfolding ns_execute_def
    by (intro keeps_bind_wrap keeps_deferring keeps_restoring assms(1)
        system_only_keeps [OF task] system_only_keeps [OF system_only_basic(6)])
       (simp_all add: close_file_def assms(2))
qed

end
