(* ===== verification/Simulation.thy ===== *)
theory Simulation
  imports Namespace
begin

text \<open>
  A small executable system, for runs of the daemon on concrete inputs: numbered namespaces with
  their links, files that denote namespaces, a table of containers, and a list of the operations
  that are to fail.  It is no part of the daemon's model; the theorems about the daemon that need
  laws of the system are applied to it, which shows that those laws can hold.
\<close>

record sim =
  sim_current :: nat
  sim_next :: nat
  sim_files :: "(string \<times> nat) list"
  sim_links :: "(nat \<times> link) list"
  sim_table :: "container list"
  sim_failing :: "string list"

definition sim_init :: "(string \<times> nat) list \<Rightarrow> string list \<Rightarrow> sim" where
  "sim_init files failing =
     \<lparr>sim_current = 0, sim_next = 100, sim_files = files, sim_links = map (\<lambda>(p, n). (n, OtherLink (attrs ''lo'' 0))) files,
      sim_table = [], sim_failing = failing\<rparr>"

definition sim_try :: "string \<Rightarrow> (sim \<Rightarrow> (goerror + 'a) \<times> sim) \<Rightarrow> (sim, 'a) sysop" where
  "sim_try name f k = (if name \<in> set (sim_failing k) then (Inl (ExtError (name @ '' failed'')), k) else f k)"

definition sim_ok :: "string \<Rightarrow> (sim \<Rightarrow> sim) \<Rightarrow> (sim, unit) sysop" where
  "sim_ok name f = sim_try name (\<lambda>k. (Inr (), f k))"

definition link_name :: "link \<Rightarrow> string" where
  "link_name l = la_name (link_attrs_of l)"

definition sim_find :: "string \<Rightarrow> sim \<Rightarrow> link option" where
  "sim_find name k = map_option snd (find (\<lambda>(n, l). n = sim_current k \<and> link_name l = name) (sim_links k))"

definition sim_set_ns_of :: "nat \<Rightarrow> string \<Rightarrow> nat \<times> link \<Rightarrow> nat \<times> link" where
  "sim_set_ns_of fd name p = (case p of (n, l) \<Rightarrow> if link_name l = name then (fd, l) else (n, l))"

fun sim_veth_peer :: "link \<Rightarrow> link list" where
  "sim_veth_peer (Veth a p) = [Veth (attrs p (la_mtu a)) (la_name a)]"
| "sim_veth_peer _ = []"

text \<open>The system gives every virtual ethernet device an address.\<close>

fun sim_device :: "link \<Rightarrow> link" where
  "sim_device (Veth a p) = Veth (a\<lparr>la_hardware_addr := [2, 0, 0, 0, 0, 1]\<rparr>) p"
| "sim_device l = l"

definition sim_open :: "string \<Rightarrow> (sim, go_file) sysop" where
  "sim_open path = sim_try ''open'' (\<lambda>k.
     if has_prefix path ''/proc/'' then (Inr \<lparr>file_name = path, file_fd = sim_current k\<rparr>, k)
     else case map_of (sim_files k) path of
       None \<Rightarrow> (Inl (ExtError (''open '' @ path @ '': no such file or directory'')), k)
     | Some n \<Rightarrow> (Inr \<lparr>file_name = path, file_fd = n\<rparr>, k))"

text \<open>The row with an id, and all rows, of a table in which the newest row with an id counts.\<close>

definition sim_row :: "container list \<Rightarrow> string \<Rightarrow> container option" where
  "sim_row table i = find (\<lambda>c. ctr_id c = i) table"

fun sim_select :: "container list \<Rightarrow> container list" where
  "sim_select [] = []"
| "sim_select (c # cs) = c # filter (\<lambda>d. ctr_id d \<noteq> ctr_id c) (sim_select cs)"

definition sim_os :: "sim os" where
  "sim_os = \<lparr>
     os_link_add = (\<lambda>l. sim_try ''link_add'' (\<lambda>k.
       if sim_find (link_name l) k \<noteq> None then (Inl (ExtError ''file exists''), k)
       else (Inr (), k\<lparr>sim_links := map (\<lambda>l. (sim_current k, sim_device l)) (l # sim_veth_peer l) @ sim_links k\<rparr>))),
     os_link_by_name = (\<lambda>name k. case sim_find name k of
       None \<Rightarrow> (Inl (ExtError ''Link not found''), k) | Some l \<Rightarrow> (Inr l, k)),
     os_link_del = (\<lambda>l. sim_ok ''link_del'' (\<lambda>k.
       k\<lparr>sim_links := filter (\<lambda>(n, m). \<not> (n = sim_current k \<and> link_name m = link_name l)) (sim_links k)\<rparr>)),
     os_link_list = (\<lambda>k. (Inr (map snd (filter (\<lambda>(n, l). n = sim_current k) (sim_links k))), k)),
     os_link_set_master = (\<lambda>l b. sim_ok ''set_master'' (\<lambda>k. k)),
     os_link_set_ns_fd = (\<lambda>l fd. sim_ok ''set_ns_fd'' (\<lambda>k.
       k\<lparr>sim_links := map (sim_set_ns_of (nat fd) (link_name l)) (sim_links k)\<rparr>)),
     os_link_set_up = (\<lambda>l. sim_ok ''set_up'' (\<lambda>k. k)),
     os_addr_add = (\<lambda>l a. sim_ok ''addr_add'' (\<lambda>k. k)),
     os_route_add = (\<lambda>r. sim_ok ''route_add'' (\<lambda>k. k)),
     os_set_neigh = (\<lambda>n. sim_ok ''set_neigh'' (\<lambda>k. k)),
     os_neigh_subscribe = sim_try ''subscribe'' (\<lambda>k. (Inr (sim_next k), k\<lparr>sim_next := sim_next k + 1\<rparr>)),
     os_swap16 = (\<lambda>w. push_bit 8 w OR drop_bit 8 w),
     os_open = sim_open,
     os_close = (\<lambda>f k. k),
     os_create_excl = (\<lambda>p. sim_try ''create'' (\<lambda>k.
       if map_of (sim_files k) p \<noteq> None then (Inl (ExtError ''file exists''), k)
       else (Inr (), k\<lparr>sim_files := (p, 0) # sim_files k\<rparr>))),
     os_mount = (\<lambda>src dst. sim_ok ''mount'' (\<lambda>k.
       k\<lparr>sim_files := map (\<lambda>(p, n). if p = dst then (p, case map_of (sim_files k) src of None \<Rightarrow> n | Some m \<Rightarrow> m) else (p, n))
          (sim_files k)\<rparr>)),
     os_unmount = (\<lambda>p. sim_ok ''unmount'' (\<lambda>k. k)),
     os_remove = (\<lambda>p. sim_ok ''remove'' (\<lambda>k. k\<lparr>sim_files := filter (\<lambda>(q, n). q \<noteq> p) (sim_files k)\<rparr>)),
     os_mkdir_all = (\<lambda>p. sim_ok ''mkdir'' (\<lambda>k. k)),
     os_walk = (\<lambda>dir k. dir # filter (\<lambda>p. has_prefix p (dir @ ''/'')) (map fst (sim_files k))),
     os_set_ns = (\<lambda>f. sim_ok ''set_ns'' (\<lambda>k. k\<lparr>sim_current := file_fd f\<rparr>)),
     os_inode = (\<lambda>fd k. Some fd),
     os_pid = (\<lambda>k. 7),
     os_tid = (\<lambda>k. 8),
     os_netns_add = (\<lambda>name. sim_ok ''netns_add'' (\<lambda>k.
       k\<lparr>sim_files := (''/var/run/netns/'' @ name, sim_next k) # sim_files k,
         sim_links := (sim_next k, OtherLink (attrs ''lo'' 0)) # sim_links k,
         sim_next := sim_next k + 1\<rparr>)),
     os_random = (\<lambda>k. (word_of_nat (sim_next k), k)),
     os_resolve_udp = (\<lambda>s. sim_try ''resolve'' (\<lambda>k. (Inr \<lparr>udp_ip = parse_ip (takeWhile (\<lambda>c. c \<noteq> CHR '':'') s), udp_port = 53\<rparr>, k))),
     os_listen_udp = (\<lambda>a. sim_try ''listen'' (\<lambda>k. (Inr (sim_next k), k\<lparr>sim_next := sim_next k + 1\<rparr>))),
     os_invoke = (\<lambda>r k. (sim_next k, k\<lparr>sim_next := sim_next k + 1\<rparr>)),
     os_exited = (\<lambda>p k. if ''exited'' \<in> set (sim_failing k) then Some None else None),
     os_kill = (\<lambda>p k. k),
     os_db_exec = (\<lambda>query. sim_ok ''db_exec'' (\<lambda>k. k)),
     os_db_insert = (\<lambda>c. sim_try ''db_insert'' (\<lambda>k.
       if sim_row (sim_table k) (ctr_id c) \<noteq> None then (Inl (PqError ''unique_violation'' ''duplicate key''), k)
       else (Inr (), k\<lparr>sim_table := c # sim_table k\<rparr>))),
     os_db_get = (\<lambda>i. sim_try ''db_get'' (\<lambda>k. case sim_row (sim_table k) i of
       None \<Rightarrow> (Inl (Sentinel ErrNoRows), k) | Some c \<Rightarrow> (Inr c, k))),
     os_db_select = sim_try ''db_select'' (\<lambda>k. (Inr (sim_select (sim_table k)), k)),
     os_db_delete = (\<lambda>i. sim_try ''db_delete'' (\<lambda>k.
       (Inr (Inr (if sim_row (sim_table k) i = None then 0 else 1)),
        k\<lparr>sim_table := filter (\<lambda>c. ctr_id c \<noteq> i) (sim_table k)\<rparr>)))\<rparr>"

end
