(* ===== verification/Datastore.thy ===== *)
theory Datastore
  imports Simulation
begin

text \<open>
  The store of container records (\<open>store/store.go\<close>): four statements on one table, and the
  translation of the database's answers.  Its contract is the locale \<open>container_store\<close>; the code
  keeps it over every database whose table behaves as SQL says (the locale \<open>sql_table\<close>).
\<close>

section \<open>The operations\<close>

text \<open>The text of the statement; the line breaks of the literal are \<open>CHR 0x0A\<close>.\<close>

definition schema :: string where
  "schema = concat (map (\<lambda>line. line @ [CHR 0x0A])
     ['''', ''CREATE TABLE IF NOT EXISTS container ('', ''  id text PRIMARY KEY,'', ''  ip text,'', ''  mac text,'',
      ''  host_ip text,'', ''  network_id text,'', ''  sandbox_name text,'', ''  app text'', '');''])"

definition setup_tables :: "'k os \<Rightarrow> (('k, 'z) world_scheme, unit) prog" where
  "setup_tables os = bind_err (sys (os_db_exec os schema)) (\<lambda>_. ret ())"

definition store_new :: "'k os \<Rightarrow> (('k, 'z) world_scheme, unit) prog" where
  "store_new os = bind_wrap ''setting up tables'' (setup_tables os) (\<lambda>_. ret ())"

text \<open>A \<open>*pq.Error\<close> is reported by the name of its code only.\<close>

fun insert_error :: "goerror \<Rightarrow> goerror" where
  "insert_error (PqError code text) =
     (if code = ''unique_violation'' then Sentinel RecordExistsError
      else Errorf (''insert: '' @ code))"
| "insert_error e = wrapf ''insert'' e"

definition store_create :: "'k os \<Rightarrow> container \<Rightarrow> (('k, 'z) world_scheme, unit) prog" where
  "store_create os c = attempt (sys (os_db_insert os c)) (\<lambda>e. fail (insert_error e)) (\<lambda>_. ret ())"

definition store_get :: "'k os \<Rightarrow> string \<Rightarrow> (('k, 'z) world_scheme, container) prog" where
  "store_get os i =
     attempt (sys (os_db_get os i))
       (\<lambda>e. fail (if e = Sentinel ErrNoRows then Sentinel RecordNotFoundError
                  else wrapf ''getting record'' e))
       ret"

definition store_all :: "'k os \<Rightarrow> (('k, 'z) world_scheme, container list) prog" where
  "store_all os = bind_wrap ''listing all'' (sys (os_db_select os)) ret"

definition store_delete :: "'k os \<Rightarrow> string \<Rightarrow> (('k, 'z) world_scheme, unit) prog" where
  "store_delete os i =
     bind_wrap ''deleting'' (sys (os_db_delete os i)) (\<lambda>exec_result.
     bind_wrap ''deleting: rows affected'' (pick exec_result) (\<lambda>rows.
     if rows = 0 then fail (Sentinel RecordNotFoundError)
     else if rows \<noteq> 1 then fail (Errorf (''deleting: rows affected: '' @ show_int rows))
     else ret ()))"

lemma system_only_store [system_intros]:
  "system_only (store_new os)" "system_only (store_create os c)" "system_only (store_get os i)"
  "system_only (store_all os)" "system_only (store_delete os i)"
  by (simp_all add: store_new_def setup_tables_def store_create_def store_get_def store_all_def
      store_delete_def system_intros)

section \<open>The contract\<close>

text \<open>
  A store is a map from container ids to records.  Every operation may fail for reasons of its
  own; then it has changed nothing, but for a deletion whose row count is lost.
\<close>

locale container_store =
  fixes create :: "container \<Rightarrow> ('s, unit) prog"
    and get :: "string \<Rightarrow> ('s, container) prog"
    and all_of :: "('s, container list) prog"
    and delete :: "string \<Rightarrow> ('s, unit) prog"
    and records :: "'s \<Rightarrow> string \<Rightarrow> container option"
  assumes create_ok: "create c s = (Ok u, t) \<Longrightarrow> records s (ctr_id c) = None \<and> records t = (records s)(ctr_id c \<mapsto> c)"
    and create_exists: "create c s = (Err (Sentinel RecordExistsError), t) \<Longrightarrow> records s (ctr_id c) \<noteq> None"
    and create_err: "create c s = (Err e, t) \<Longrightarrow> records t = records s"
    and get_ok: "get i s = (Ok c, t) \<Longrightarrow> records s i = Some c"
    and get_missing: "get i s = (Err (Sentinel RecordNotFoundError), t) \<Longrightarrow> records s i = None"
    and get_keeps: "get i s = (r, t) \<Longrightarrow> records t = records s"
    and all_ok: "all_of s = (Ok cs, t) \<Longrightarrow> set cs = ran (records s)"
    and delete_ok: "delete i s = (Ok u, t) \<Longrightarrow> records s i \<noteq> None \<and> records t = (records s)(i := None)"
    and delete_missing: "delete i s = (Err (Sentinel RecordNotFoundError), t) \<Longrightarrow> records s i = None \<and> records t = records s"
begin

text \<open>What was created is found, until it is deleted; a second creation is refused.\<close>

lemma get_created:
  assumes "create c s = (Ok u, t)" "get (ctr_id c) t = (r, v)"
  shows "r = Ok c \<or> (\<exists>e. r = Err e \<and> e \<noteq> Sentinel RecordNotFoundError) \<or> (\<exists>a. r = Abort a)"
  using create_ok [OF assms(1)] assms(2) get_ok get_missing by (cases r) fastforce+

lemma create_twice:
  assumes "create c s = (Ok u, t)" "ctr_id d = ctr_id c"
  shows "create d t \<noteq> (Ok v, w)"
proof
  assume "create d t = (Ok v, w)"
  with create_ok [OF this] create_ok [OF assms(1)] assms(2) show False by simp
qed

lemma get_deleted:
  assumes "delete i s = (Ok u, t)"
  shows "get i t \<noteq> (Ok c, v)"
proof
  assume "get i t = (Ok c, v)"
  with get_ok [OF this] delete_ok [OF assms] show False by simp
qed

end

section \<open>The code keeps the contract over a table\<close>

text \<open>
  What SQL and the driver promise of the statements: \<open>id\<close> is a primary key, so a second row with
  the same id is refused with \<open>unique_violation\<close>; a query for an id finds its row or none;
  \<open>DELETE\<close> removes the rows with the id and counts them; a statement that fails changes nothing.
\<close>

locale sql_table =
  fixes os :: "'k os" and rows :: "'k \<Rightarrow> string \<Rightarrow> container option"
  assumes insert_ok: "os_db_insert os c k = (Inr u, k') \<Longrightarrow> rows k (ctr_id c) = None \<and> rows k' = (rows k)(ctr_id c \<mapsto> c)"
    and insert_unique: "os_db_insert os c k = (Inl (PqError ''unique_violation'' t), k') \<Longrightarrow> rows k (ctr_id c) \<noteq> None"
    and insert_err: "os_db_insert os c k = (Inl e, k') \<Longrightarrow> rows k' = rows k \<and> (\<forall>x. e \<noteq> Sentinel x)"
    and select_one: "os_db_get os i k = (Inr c, k') \<Longrightarrow> rows k i = Some c"
    and select_none: "os_db_get os i k = (Inl (Sentinel ErrNoRows), k') \<Longrightarrow> rows k i = None"
    and select_keeps: "os_db_get os i k = (r, k') \<Longrightarrow> rows k' = rows k"
    and select_foreign: "os_db_get os i k = (Inl e, k') \<Longrightarrow> e \<noteq> Sentinel RecordNotFoundError"
    and select_all: "os_db_select os k = (Inr cs, k') \<Longrightarrow> set cs = ran (rows k)"
    and delete_count: "os_db_delete os i k = (Inr (Inr n), k') \<Longrightarrow>
      n = (if rows k i = None then 0 else 1) \<and> rows k' = (rows k)(i := None)"
begin

lemma store_create_cases:
  assumes "store_create os c s = (r, t)"
  shows "(r = Ok () \<and> rows (kernel s) (ctr_id c) = None \<and> rows (kernel t) = (rows (kernel s))(ctr_id c \<mapsto> c)) \<or>
    (\<exists>e. r = Err e \<and> rows (kernel t) = rows (kernel s) \<and>
      (e = Sentinel RecordExistsError \<longrightarrow> rows (kernel s) (ctr_id c) \<noteq> None))"
proof -
  obtain x k where ins: "os_db_insert os c (kernel s) = (x, k)" by fastforce
  show ?thesis
  proof (cases x)
    case (Inr u)
    then show ?thesis
      using assms ins insert_ok [of c "kernel s" u k]
      by (auto simp: store_create_def attempt_def sys_def ret_def)
  next
    case (Inl e)
    have keep: "rows k = rows (kernel s)" using insert_err ins Inl by blast
    have r: "r = Err (insert_error e)" "kernel t = k"
      using assms ins Inl by (simp_all add: store_create_def attempt_def sys_def fail_def) auto
    have "rows (kernel s) (ctr_id c) \<noteq> None" if "insert_error e = Sentinel RecordExistsError"
      using that ins Inl insert_unique
      by (cases e rule: insert_error.cases) (auto split: if_splits)
    with r keep show ?thesis by simp
  qed
qed

lemma store_get_cases:
  assumes "store_get os i s = (r, t)"
  shows "rows (kernel t) = rows (kernel s) \<and>
    (\<forall>c. r = Ok c \<longrightarrow> rows (kernel s) i = Some c) \<and>
    (r = Err (Sentinel RecordNotFoundError) \<longrightarrow> rows (kernel s) i = None)"
proof -
  obtain x k where sel: "os_db_get os i (kernel s) = (x, k)" by fastforce
  with select_keeps have "rows k = rows (kernel s)" by blast
  then show ?thesis
    using assms sel select_one select_none
    by (cases x) (auto simp: store_get_def attempt_def sys_def ret_def fail_def split: if_splits)
qed

lemma store_delete_cases:
  assumes "store_delete os i s = (r, t)"
  shows "(\<forall>u. r = Ok u \<longrightarrow> rows (kernel s) i \<noteq> None \<and> rows (kernel t) = (rows (kernel s))(i := None)) \<and>
    (r = Err (Sentinel RecordNotFoundError) \<longrightarrow> rows (kernel s) i = None \<and> rows (kernel t) = rows (kernel s))"
proof -
  obtain x k where del: "os_db_delete os i (kernel s) = (x, k)" by fastforce
  consider e where "x = Inl e" | e where "x = Inr (Inl e)" | n where "x = Inr (Inr n)"
    by (metis sum.exhaust)
  then show ?thesis
  proof cases
    case (3 n)
    then have count: "n = (if rows (kernel s) i = None then 0 else 1)" "rows k = (rows (kernel s))(i := None)"
      using delete_count del by blast+
    show ?thesis
    proof (cases "rows (kernel s) i")
      case None
      with count 3 have "os_db_delete os i (kernel s) = (Inr (Inr 0), k)" "rows k = rows (kernel s)"
        using del by (simp_all add: fun_upd_idem)
      then show ?thesis
        using assms None
        by (auto simp: store_delete_def bind_wrap_def attempt_def sys_def pick_def ret_def fail_def)
    next
      case (Some c)
      with count 3 have "os_db_delete os i (kernel s) = (Inr (Inr 1), k)"
        using del by simp
      then show ?thesis
        using assms Some count(2)
        by (auto simp: store_delete_def bind_wrap_def attempt_def sys_def pick_def ret_def fail_def)
    qed
  qed (use assms del in \<open>auto simp: store_delete_def bind_wrap_def attempt_def sys_def pick_def ret_def fail_def\<close>)
qed

end

sublocale sql_table \<subseteq> daemon_store: container_store
  "store_create os" "store_get os" "store_all os" "store_delete os" "\<lambda>s. rows (kernel s)"
proof unfold_locales
  fix c s t and u :: unit
  assume "store_create os c s = (Ok u, t)"
  from store_create_cases [OF this]
  show "rows (kernel s) (ctr_id c) = None \<and> rows (kernel t) = (rows (kernel s))(ctr_id c \<mapsto> c)" by simp
next
  fix c s t
  assume "store_create os c s = (Err (Sentinel RecordExistsError), t)"
  from store_create_cases [OF this] show "rows (kernel s) (ctr_id c) \<noteq> None" by simp
next
  fix c s t e
  assume "store_create os c s = (Err e, t)"
  from store_create_cases [OF this] show "rows (kernel t) = rows (kernel s)" by simp
next
  fix s t cs
  assume "store_all os s = (Ok cs, t)"
  then obtain k where "os_db_select os (kernel s) = (Inr cs, k)"
    by (auto simp: store_all_def ret_def sys_def split: prod.splits sum.splits elim!: bind_wrap_OkE)
  then show "set cs = ran (rows (kernel s))" by (rule select_all)
qed (auto dest: store_get_cases store_delete_cases)

context sql_table begin

lemmas created_twice = daemon_store.create_twice
lemmas get_after_create = daemon_store.get_created
lemmas get_after_delete = daemon_store.get_deleted

end

section \<open>The simulated table\<close>

definition sim_rows :: "sim \<Rightarrow> string \<Rightarrow> container option" where
  "sim_rows k = sim_row (sim_table k)"

lemma sim_db_ops:
  "os_db_insert sim_os c = sim_try ''db_insert'' (\<lambda>k.
     if sim_row (sim_table k) (ctr_id c) \<noteq> None then (Inl (PqError ''unique_violation'' ''duplicate key''), k)
     else (Inr (), k\<lparr>sim_table := c # sim_table k\<rparr>))"
  "os_db_get sim_os i = sim_try ''db_get'' (\<lambda>k. case sim_row (sim_table k) i of
     None \<Rightarrow> (Inl (Sentinel ErrNoRows), k) | Some c \<Rightarrow> (Inr c, k))"
  "os_db_select sim_os = sim_try ''db_select'' (\<lambda>k. (Inr (sim_select (sim_table k)), k))"
  "os_db_delete sim_os i = sim_try ''db_delete'' (\<lambda>k.
     (Inr (Inr (if sim_row (sim_table k) i = None then 0 else 1)),
      k\<lparr>sim_table := filter (\<lambda>c. ctr_id c \<noteq> i) (sim_table k)\<rparr>))"
  by (simp_all add: sim_os_def)

lemma sim_row_Cons: "sim_row (c # cs) = (sim_row cs)(ctr_id c \<mapsto> c)"
  by (simp add: sim_row_def fun_eq_iff)

lemma sim_row_id: "sim_row cs i = Some c \<Longrightarrow> ctr_id c = i"
  by (induction cs) (auto simp: sim_row_def split: if_splits)

lemma sim_row_filter: "sim_row (filter (\<lambda>c. ctr_id c \<noteq> i) cs) = (sim_row cs)(i := None)"
  by (induction cs) (auto simp: sim_row_def fun_eq_iff)

lemma set_sim_select: "set (sim_select cs) = ran (sim_row cs)"
proof (induction cs)
  case (Cons c cs)
  then show ?case
    by (auto simp: sim_row_Cons ran_def dest: sim_row_id)
qed (simp add: sim_row_def ran_def)

interpretation sim_db: sql_table sim_os sim_rows
  by unfold_locales
     (auto simp: sim_db_ops sim_try_def sim_rows_def sim_row_Cons sim_row_filter set_sim_select
       split: if_splits option.splits)

section \<open>Properties\<close>

text \<open>
  C20: The datastore is a map keyed by container id, over any database whose table obeys SQL: a
  \<open>Create\<close> succeeds only for an id that is not there and then maps it to the record,
  \<open>RecordExistsError\<close> is returned only if it is there, and a failed creation changes nothing; a
  \<open>Get\<close> returns the mapped record, \<open>RecordNotFoundError\<close> only if there is none; a successful
  \<open>Delete\<close> removes an entry that was there.
\<close>

theorem datastore_is_a_map:
  assumes "sql_table os rows"
  shows "(store_create os c s = (Ok (), t) \<longrightarrow>
        rows (kernel s) (ctr_id c) = None \<and> rows (kernel t) = (rows (kernel s))(ctr_id c \<mapsto> c)) \<and>
    (store_create os c s = (Err e, t) \<longrightarrow> rows (kernel t) = rows (kernel s) \<and>
        (e = Sentinel RecordExistsError \<longrightarrow> rows (kernel s) (ctr_id c) \<noteq> None)) \<and>
    (store_get os i s = (Ok d, t) \<longrightarrow> rows (kernel s) i = Some d) \<and>
    (store_get os i s = (Err (Sentinel RecordNotFoundError), t) \<longrightarrow> rows (kernel s) i = None) \<and>
    (store_delete os i s = (Ok (), t) \<longrightarrow>
        rows (kernel s) i \<noteq> None \<and> rows (kernel t) = (rows (kernel s))(i := None))"
  using sql_table.store_create_cases [OF assms, of c s _ t] sql_table.store_get_cases [OF assms, of i s _ t]
    sql_table.store_delete_cases [OF assms, of i s _ t]
  by blast

lemma datastore_is_a_map_witness:
  "let c = \<lparr>ctr_id = ''c'', ctr_ip = [], ctr_mac = [], ctr_host_ip = [], ctr_network_id = [], ctr_sandbox_name = [], ctr_app = []\<rparr>
   in sim_rows (kernel (snd (store_create sim_os c \<lparr>kernel = sim_init [] []\<rparr>))) ''c'' = Some c"
proof -
  let ?c = "\<lparr>ctr_id = ''c'', ctr_ip = [], ctr_mac = [], ctr_host_ip = [], ctr_network_id = [], ctr_sandbox_name = [], ctr_app = []\<rparr>"
  let ?s = "\<lparr>kernel = sim_init [] []\<rparr>"
  have "fst (store_create sim_os ?c ?s) = Ok ()" by code_simp
  then have "store_create sim_os ?c ?s = (Ok (), snd (store_create sim_os ?c ?s))"
    by (metis prod.collapse)
  with datastore_is_a_map [OF sim_db.sql_table_axioms, of ?c ?s] show ?thesis
    by (metis container.select_convs(1) fun_upd_same)
qed

text \<open>
  A container that is recorded once cannot be recorded again: after a successful \<open>Create\<close> any
  \<open>Create\<close> with the same id fails, as long as it is not deleted.
\<close>

theorem datastore_no_duplicates:
  assumes "sql_table os rows" "store_create os c s = (Ok (), t)" "ctr_id d = ctr_id c"
  shows "fst (store_create os d t) \<noteq> Ok ()"
proof
  assume "fst (store_create os d t) = Ok ()"
  then have "store_create os d t = (Ok (), snd (store_create os d t))"
    by (metis prod.collapse)
  with sql_table.created_twice [OF assms] show False by simp
qed

lemma datastore_no_duplicates_witness:
  "let c = \<lparr>ctr_id = ''c'', ctr_ip = [], ctr_mac = [], ctr_host_ip = [], ctr_network_id = [], ctr_sandbox_name = [], ctr_app = []\<rparr>
   in fst (store_create sim_os c (snd (store_create sim_os c \<lparr>kernel = sim_init [] []\<rparr>))) \<noteq> Ok ()"
proof -
  let ?c = "\<lparr>ctr_id = ''c'', ctr_ip = [], ctr_mac = [], ctr_host_ip = [], ctr_network_id = [], ctr_sandbox_name = [], ctr_app = []\<rparr>"
  let ?s = "\<lparr>kernel = sim_init [] []\<rparr>"
  have "fst (store_create sim_os ?c ?s) = Ok ()" by code_simp
  then have "store_create sim_os ?c ?s = (Ok (), snd (store_create sim_os ?c ?s))"
    by (metis prod.collapse)
  from datastore_no_duplicates [OF sim_db.sql_table_axioms this refl] show ?thesis by simp
qed

end
