(* ===== verification/Watcher.thy ===== *)
theory Watcher
  imports Datastore
begin

text \<open>
  The miss watcher (\<open>watcher/watcher.go\<close>, \<open>namespace_watcher.go\<close>), the subscriber
  (\<open>lib/subscriber\<close>), the resolver (\<open>watcher/resolver.go\<close>) and the ARP inserter (\<open>lib/neigh\<close>):
  starting and stopping monitors, and what the goroutines of a monitor do with one message.  How
  the goroutines run together is the theory \<open>Pipeline\<close>.
\<close>

section \<open>Messages\<close>

text \<open>\<open>watcher.Neigh\<close> and \<open>watcher.Neighbor\<close>\<close>

record neigh =
  ne_link_index :: int
  ne_family :: int
  ne_state :: int
  ne_type :: int
  ne_flags :: int
  ne_ip :: ip
  ne_hardware_addr :: hardware_addr

record neighbor =
  nb_sandbox_name :: string
  nb_vtep :: ip
  nb_neigh :: neigh

text \<open>The constants \<open>NUD_REACHABLE\<close>, \<open>NUD_STALE\<close>, \<open>NTF_SELF\<close>, \<open>AF_BRIDGE\<close> of Linux.\<close>

definition nud_reachable :: int where "nud_reachable = 2"
definition nud_stale :: int where "nud_stale = 4"
definition ntf_self :: int where "ntf_self = 2"
definition af_bridge :: int where "af_bridge = 7"

definition convert_neigh :: "netlink_neigh \<Rightarrow> neigh" where
  "convert_neigh n =
     \<lparr>ne_link_index = nn_link_index n, ne_family = nn_family n, ne_state = nn_state n, ne_type = nn_type n,
      ne_flags = nn_flags n, ne_ip = nn_ip n, ne_hardware_addr = nn_hardware_addr n\<rparr>"

definition reverse_convert :: "neigh \<Rightarrow> netlink_neigh" where
  "reverse_convert n =
     \<lparr>nn_link_index = ne_link_index n, nn_family = ne_family n, nn_state = ne_state n, nn_type = ne_type n,
      nn_flags = ne_flags n, nn_ip = ne_ip n, nn_hardware_addr = ne_hardware_addr n\<rparr>"

section \<open>The subscriber's receive loop\<close>

text \<open>
  A miss is a message with an address and no hardware address, or one whose entry is stale.  The
  argument of the loop is what \<open>Receive\<close> returns, call by call; it ends at the first error, of
  the socket or of \<open>NeighDeserialize\<close>.  The result: what is sent, and whether the loop has ended.
  The source compares both addresses with \<open>nil\<close>; the empty list stands for \<open>nil\<close>, and an attribute
  that is present but has no bytes is not told apart from it.
\<close>

definition is_miss :: "netlink_neigh \<Rightarrow> bool" where
  "is_miss n \<longleftrightarrow> \<not> (nn_ip n = [] \<or> nn_hardware_addr n \<noteq> [] \<and> nn_state n \<noteq> nud_stale)"

fun subscriber_batch :: "(byte list \<Rightarrow> goerror + netlink_neigh) \<Rightarrow> byte list list \<Rightarrow> neigh list \<times> bool" where
  "subscriber_batch deser [] = ([], False)"
| "subscriber_batch deser (m # ms) =
     (case deser m of
        Inl e \<Rightarrow> ([], True)
      | Inr n \<Rightarrow>
          (case subscriber_batch deser ms of
             (out, stop) \<Rightarrow> (if is_miss n then convert_neigh n # out else out, stop)))"

fun subscriber_loop ::
  "(byte list \<Rightarrow> goerror + netlink_neigh) \<Rightarrow> (goerror + byte list list) list \<Rightarrow> neigh list \<times> bool" where
  "subscriber_loop deser [] = ([], False)"
| "subscriber_loop deser (Inl e # rs) = ([], True)"
| "subscriber_loop deser (Inr msgs # rs) =
     (case subscriber_batch deser msgs of
        (out, True) \<Rightarrow> (out, True)
      | (out, False) \<Rightarrow> (case subscriber_loop deser rs of (out', stop) \<Rightarrow> (out @ out', stop)))"

section \<open>The resolver\<close>

text \<open>
  One turn of the loop of \<open>ResolveMisses\<close>: the first container of the sandbox with the missed
  address decides; a bad MAC ends the search.
\<close>

fun find_container :: "string \<Rightarrow> string \<Rightarrow> container list \<Rightarrow> (hardware_addr \<times> ip) option" where
  "find_container sandbox addr [] = None"
| "find_container sandbox addr (c # cs) =
     (if ctr_sandbox_name c \<noteq> path_base sandbox then find_container sandbox addr cs
      else if ctr_ip c = addr then
        (case parse_mac (ctr_mac c) of
           None \<Rightarrow> None
         | Some mac \<Rightarrow> Some (mac, parse_ip (ctr_host_ip c)))
      else find_container sandbox addr cs)"

definition resolve_with :: "container list \<Rightarrow> neighbor \<Rightarrow> neighbor option" where
  "resolve_with cs msg =
     map_option (\<lambda>(mac, host). msg\<lparr>nb_neigh := (nb_neigh msg)\<lparr>ne_hardware_addr := mac\<rparr>, nb_vtep := host\<rparr>)
       (find_container (nb_sandbox_name msg) (ip_string (ne_ip (nb_neigh msg))) cs)"

definition resolve_miss :: "'k os \<Rightarrow> neighbor \<Rightarrow> (('k, 'z) world_scheme, neighbor option) prog" where
  "resolve_miss os msg =
     attempt (store_all os) (\<lambda>_. ret None) (\<lambda>containers. ret (resolve_with containers msg))"

section \<open>The ARP inserter\<close>

definition find_vxlan :: "'k os \<Rightarrow> go_file \<Rightarrow> string \<Rightarrow> (('k, 'z) world_scheme, link) prog" where
  "find_vxlan os ns vxlan =
     bind_wrap ''namespace execute failed''
       (ns_execute os ns (\<lambda>_. bind_wrap (''find link '' @ quote vxlan) (nl_link_by_name os vxlan) ret))
       ret"

text \<open>One turn of the loop of \<open>addNeighbors\<close>; an error is logged only.\<close>

definition l3_neigh :: "neighbor \<Rightarrow> netlink_neigh" where
  "l3_neigh msg = (reverse_convert (nb_neigh msg))\<lparr>nn_state := nud_reachable\<rparr>"

definition fdb_neigh :: "int \<Rightarrow> neighbor \<Rightarrow> netlink_neigh" where
  "fdb_neigh index msg =
     \<lparr>nn_link_index = index, nn_family = af_bridge, nn_state = nud_reachable, nn_type = 0, nn_flags = ntf_self,
      nn_ip = nb_vtep msg, nn_hardware_addr = nn_hardware_addr (l3_neigh msg)\<rparr>"

definition add_neighbor :: "'k os \<Rightarrow> go_file \<Rightarrow> int \<Rightarrow> neighbor \<Rightarrow> (('k, 'z) world_scheme, unit) prog" where
  "add_neighbor os ns index msg =
     attempt (ns_execute os ns (\<lambda>_.
       bind_wrap ''set L3 neighbor failed'' (nl_set_neigh os (l3_neigh msg)) (\<lambda>_.
       bind_wrap ''set L2 forward failed'' (nl_set_neigh os (fdb_neigh index msg)) (\<lambda>_. ret ()))))
       (\<lambda>_. ret ()) ret"

section \<open>The watcher\<close>

text \<open>
  Channels are numbers.  \<open>done_chans\<close> is the map \<open>DoneChans\<close>; \<open>closed_chans\<close> are the closed
  ones; \<open>inserters\<close> and \<open>subscriptions\<close> list the goroutines that were started, with the done
  channel of their monitor: the ARP inserters with their namespace and link index, the receivers
  with their socket (closed once the done channel is closed).  The mutex of the watcher is held
  only around the accesses of the map, so each of them is one step.
\<close>

record 'k watch_world = "'k world" +
  done_chans :: "string \<rightharpoonup> nat"
  next_chan :: nat
  closed_chans :: "nat list"
  inserters :: "(nat \<times> go_file \<times> int) list"
  subscriptions :: "(nat \<times> nat) list"

definition subscribe :: "'k os \<Rightarrow> go_file \<Rightarrow> (('k, 'z) world_scheme, nat) prog" where
  "subscribe os ns =
     bind_wrap ''namespace execute''
       (ns_execute os ns (\<lambda>_. bind_wrap ''failed to acquire netlink socket'' (nl_subscribe os) ret))
       ret"

definition start_arp_inserter ::
  "'k os \<Rightarrow> nat \<Rightarrow> go_file \<Rightarrow> string \<Rightarrow> (('k, 'z) watch_world_scheme, unit) prog" where
  "start_arp_inserter os chan ns vxlan =
     bind_wrap ''handle resolved'' (find_vxlan os ns vxlan) (\<lambda>link.
     modify (\<lambda>s. s\<lparr>inserters := (chan, ns, la_index (link_attrs_of link)) # inserters s\<rparr>))"

definition new_done_chan :: "go_file \<Rightarrow> (('k, 'z) watch_world_scheme, nat) prog" where
  "new_done_chan ns s =
     (Ok (next_chan s), s\<lparr>next_chan := next_chan s + 1, done_chans := (done_chans s)(file_name ns \<mapsto> next_chan s)\<rparr>)"

definition start_monitor :: "'k os \<Rightarrow> go_file \<Rightarrow> string \<Rightarrow> (('k, 'z) watch_world_scheme, unit) prog" where
  "start_monitor os ns vxlan =
     bind_err (new_done_chan ns) (\<lambda>chan.
     bind_wrap ''arp inserter failed'' (start_arp_inserter os chan ns vxlan) (\<lambda>_.
     bind_wrap (''subscribe in '' @ file_name ns) (subscribe os ns) (\<lambda>sock.
     modify (\<lambda>s. s\<lparr>subscriptions := (chan, sock) # subscriptions s\<rparr>))))"

text \<open>Closing a closed channel panics.\<close>

definition close_chan :: "nat \<Rightarrow> (('k, 'z) watch_world_scheme, unit) prog" where
  "close_chan c s =
     (if c \<in> set (closed_chans s) then (Abort (Panic ''close of closed channel''), s)
      else (Ok (), s\<lparr>closed_chans := c # closed_chans s\<rparr>))"

definition stop_monitor :: "go_file \<Rightarrow> (('k, 'z) watch_world_scheme, unit) prog" where
  "stop_monitor ns s =
     (case done_chans s (file_name ns) of
        None \<Rightarrow> (Err (Errorf (''namespace '' @ file_name ns @ '' not monitored'')), s)
      | Some c \<Rightarrow> close_chan c (s\<lparr>done_chans := (done_chans s)(file_name ns := None)\<rparr>))"

text \<open>\<open>NamespaceWatcher.Run\<close>, which waits for a signal between its two halves.\<close>

definition namespace_watcher_run :: "'k os \<Rightarrow> go_file \<Rightarrow> string \<Rightarrow> (('k, 'z) watch_world_scheme, unit) prog" where
  "namespace_watcher_run os ns device =
     bind_wrap ''start monitor'' (start_monitor os ns device) (\<lambda>_.
     bind_wrap ''stop monitor'' (stop_monitor ns) (\<lambda>_. ret ()))"

lemma system_only_watcher [system_intros]:
  "system_only (resolve_miss os msg)" "system_only (find_vxlan os ns vxlan)"
  "system_only (add_neighbor os ns index msg)" "system_only (subscribe os ns)"
  by (simp_all add: resolve_miss_def find_vxlan_def add_neighbor_def subscribe_def system_intros)

section \<open>Done channels\<close>

text \<open>The channels in the map are open, and no two namespaces share one.\<close>

definition watch_ok :: "('k, 'z) watch_world_scheme \<Rightarrow> bool" where
  "watch_ok s \<longleftrightarrow>
     (\<forall>n c. done_chans s n = Some c \<longrightarrow> c < next_chan s \<and> c \<notin> set (closed_chans s)) \<and>
     (\<forall>m n c. done_chans s m = Some c \<and> done_chans s n = Some c \<longrightarrow> m = n) \<and>
     (\<forall>c \<in> set (closed_chans s). c < next_chan s)"

text \<open>A channel that is open but in no map any more: nothing can close it.\<close>

definition orphan :: "nat \<Rightarrow> ('k, 'z) watch_world_scheme \<Rightarrow> bool" where
  "orphan c s \<longleftrightarrow> c < next_chan s \<and> c \<notin> set (closed_chans s) \<and> c \<notin> ran (done_chans s)"

lemma keeps_system:
  assumes "system_only m" "\<And>s k. P (s\<lparr>kernel := k\<rparr>) = P s"
  shows "keeps P m"
  using assms system_only_keeps [of m P] by blast

text \<open>What holds once the new channel is in the map holds at the end.\<close>

lemma start_monitor_after:
  assumes kernel: "\<And>s k. P (s\<lparr>kernel := k\<rparr>) = P s"
    and ins: "\<And>s l. P (s\<lparr>inserters := l\<rparr>) = P s"
    and sub: "\<And>s l. P (s\<lparr>subscriptions := l\<rparr>) = P s"
    and new: "P (snd (new_done_chan ns s))"
  shows "P (snd (start_monitor os ns vxlan s))"
proof -
  let ?rest = "\<lambda>chan. bind_wrap ''arp inserter failed'' (start_arp_inserter os chan ns vxlan) (\<lambda>_.
     bind_wrap (''subscribe in '' @ file_name ns) (subscribe os ns) (\<lambda>sock.
     modify (\<lambda>s. s\<lparr>subscriptions := (chan, sock) # subscriptions s\<rparr>)))"
  have "keeps P (?rest chan)" for chan
    unfolding start_arp_inserter_def
    by (intro keeps_bind_wrap keeps_modify keeps_system [OF _ kernel] system_only_watcher)
       (simp_all add: ins sub)
  with new have "P (snd (?rest (next_chan s) (snd (new_done_chan ns s))))"
    by (simp add: keeps_def)
  then show ?thesis
    by (simp add: start_monitor_def bind_err_eval(1) new_done_chan_def)
qed

lemma start_monitor_keeps:
  assumes "\<And>s k. P (s\<lparr>kernel := k\<rparr>) = P s"
    and "\<And>s l. P (s\<lparr>inserters := l\<rparr>) = P s"
    and "\<And>s l. P (s\<lparr>subscriptions := l\<rparr>) = P s"
    and "keeps P (new_done_chan ns)"
  shows "keeps P (start_monitor os ns vxlan)"
  using start_monitor_after [of P ns, OF assms(1-3)] assms(4) by (simp add: keeps_def)

lemma start_monitor_watch_ok: "keeps watch_ok (start_monitor os ns vxlan)"
proof (rule start_monitor_keeps)
  show "keeps watch_ok (new_done_chan ns)"
    by (rule keepsI) (auto simp: new_done_chan_def watch_ok_def less_Suc_eq)
qed (simp_all add: watch_ok_def)

lemma stop_monitor_watch_ok: "keeps watch_ok (stop_monitor ns)"
proof (rule keepsI)
  fix s :: "('a, 'b) watch_world_scheme"
  assume ok: "watch_ok s"
  show "watch_ok (snd (stop_monitor ns s))"
  proof (cases "done_chans s (file_name ns)")
    case None
    with ok show ?thesis by (simp add: stop_monitor_def)
  next
    case (Some c)
    with ok have "c < next_chan s" "c \<notin> set (closed_chans s)" by (auto simp: watch_ok_def)
    with ok Some show ?thesis
      by (auto simp: stop_monitor_def close_chan_def watch_ok_def)
  qed
qed

lemma start_monitor_orphan: "keeps (orphan c) (start_monitor os ns vxlan)"
proof (rule start_monitor_keeps)
  show "keeps (orphan c) (new_done_chan ns)"
    by (rule keepsI) (auto simp: new_done_chan_def orphan_def ran_def split: if_splits)
qed (simp_all add: orphan_def)

lemma stop_monitor_orphan: "keeps (orphan c) (stop_monitor ns)"
  by (rule keepsI)
     (auto simp: stop_monitor_def close_chan_def orphan_def ran_def split: option.splits if_splits)

end
