(* ===== verification/Watcher_Props.thy ===== *)
theory Watcher_Props
  imports Watcher
begin

text \<open>
  Starting and stopping monitors in any order: what is closed and when, and the monitors that
  can never be stopped.  What the resolver answers.
\<close>

section \<open>Sequences of calls of the watcher\<close>

datatype watch_call =
    CallStart go_file string
  | CallStop go_file

fun watch_step :: "'k os \<Rightarrow> watch_call \<Rightarrow> (('k, 'z) watch_world_scheme, unit) prog" where
  "watch_step os (CallStart ns vxlan) = start_monitor os ns vxlan"
| "watch_step os (CallStop ns) = stop_monitor ns"

fun watch_run :: "'k os \<Rightarrow> watch_call list \<Rightarrow> ('k, 'z) watch_world_scheme \<Rightarrow> unit outcome list \<times> ('k, 'z) watch_world_scheme" where
  "watch_run os [] s = ([], s)"
| "watch_run os (x # xs) s =
     (case watch_step os x s of (r, t) \<Rightarrow> (case watch_run os xs t of (rs, u) \<Rightarrow> (r # rs, u)))"

definition watch_init :: "'k \<Rightarrow> 'k watch_world" where
  "watch_init k = \<lparr>kernel = k, done_chans = Map.empty, next_chan = 0, closed_chans = [], inserters = [], subscriptions = []\<rparr>"

lemma watch_run_keeps:
  assumes "\<And>x. keeps P (watch_step os x)" "P s" "watch_run os xs s = (rs, t)"
  shows "P t"
  using assms(2,3)
proof (induction xs arbitrary: s rs)
  case (Cons x xs)
  then show ?case
    by (auto split: prod.splits dest: keepsD [OF assms(1)])
qed simp

lemma watch_step_ok: "keeps watch_ok (watch_step os x)"
  by (cases x) (simp_all add: start_monitor_watch_ok stop_monitor_watch_ok)

lemma watch_step_orphan: "keeps (orphan c) (watch_step os x)"
  by (cases x) (simp_all add: start_monitor_orphan stop_monitor_orphan)

lemma watch_ok_init: "watch_ok (watch_init k)"
  by (simp add: watch_ok_def watch_init_def)

lemma stop_monitor_ok:
  assumes "watch_ok s"
  shows "stop_monitor ns s =
    (case done_chans s (file_name ns) of
       None \<Rightarrow> (Err (Errorf (''namespace '' @ file_name ns @ '' not monitored'')), s)
     | Some c \<Rightarrow> (Ok (), s\<lparr>done_chans := (done_chans s)(file_name ns := None), closed_chans := c # closed_chans s\<rparr>))"
  using assms by (auto simp: stop_monitor_def close_chan_def watch_ok_def split: option.split)

text \<open>
  C26: Whatever monitors are started and stopped before, on any system: \<open>StopMonitor\<close> never panics on
  a closed channel.  It closes the done channel of the namespace's latest monitor, which was open,
  and forgets it; if there is none it reports that the namespace is not monitored and changes
  nothing.
\<close>

theorem stop_monitor_closes_once:
  "case watch_run os calls (watch_init k) of (rs, s) \<Rightarrow>
     (case done_chans s (file_name ns) of
        None \<Rightarrow> stop_monitor ns s = (Err (Errorf (''namespace '' @ file_name ns @ '' not monitored'')), s)
      | Some c \<Rightarrow> c \<notin> set (closed_chans s) \<and>
          (\<exists>t. stop_monitor ns s = (Ok (), t) \<and> closed_chans t = c # closed_chans s \<and>
             done_chans t = (done_chans s)(file_name ns := None)))"
proof -
  obtain rs s where run: "watch_run os calls (watch_init k) = (rs, s)" by fastforce
  have "watch_ok s"
    by (rule watch_run_keeps [OF watch_step_ok watch_ok_init run])
  with run show ?thesis
    by (auto simp: stop_monitor_ok split: option.split) (auto simp: watch_ok_def)
qed

text \<open>
  C39: Starting a second monitor for a namespace while the first runs (which \<open>IdempotentlyCreateVxlan\<close>
  does for every container after the first) loses the first: whatever calls follow, its done
  channel is never closed, so its netlink socket and goroutines stay for ever.
\<close>

theorem second_monitor_orphans_first:
  assumes "watch_run os calls (watch_init k) = (rs, s)"
    and "start_monitor os ns vxlan s = (r, t)" "start_monitor os ns vxlan' t = (r', u)"
  shows "next_chan s \<notin> set (closed_chans (snd (watch_run os later u)))"
proof -
  let ?c = "next_chan s"
  obtain qs v where run: "watch_run os later u = (qs, v)" by fastforce
  have ok: "watch_ok s"
    by (rule watch_run_keeps [OF watch_step_ok watch_ok_init assms(1)])
  have new: "snd (new_done_chan ns s) = s\<lparr>next_chan := ?c + 1, done_chans := (done_chans s)(file_name ns \<mapsto> ?c)\<rparr>"
    by (simp add: new_done_chan_def)
  define owned where "owned = (\<lambda>w :: ('a, unit) watch_world_scheme. watch_ok w \<and> ?c < next_chan w \<and>
    ?c \<notin> set (closed_chans w) \<and> (\<forall>n. done_chans w n = Some ?c \<longrightarrow> n = file_name ns))"
  have "owned (snd (new_done_chan ns s))"
    using ok by (auto simp: new owned_def watch_ok_def less_Suc_eq)
  then have "owned (snd (start_monitor os ns vxlan s))"
    by (rule start_monitor_after [rotated 3]) (simp_all add: owned_def watch_ok_def)
  then have "orphan ?c (snd (new_done_chan ns t))"
    using assms(2) by (auto simp: owned_def watch_ok_def orphan_def new_done_chan_def ran_def)
  then have "orphan ?c (snd (start_monitor os ns vxlan' t))"
    by (rule start_monitor_after [rotated 3]) (simp_all add: orphan_def)
  then have "orphan ?c u" using assms(3) by simp
  from watch_run_keeps [OF watch_step_orphan this run] run show ?thesis
    by (simp add: orphan_def)
qed

lemma second_monitor_orphans_first_witness:
  "let ns = \<lparr>file_name = ''/ns/vni-1'', file_fd = 5\<rparr>;
       s = watch_init (sim_init [(''/ns/vni-1'', 5)] []);
       t = snd (start_monitor sim_os ns ''lo'' s);
       u = snd (start_monitor sim_os ns ''lo'' t)
   in 0 \<notin> set (closed_chans (snd (watch_run sim_os [CallStop ns, CallStop ns] u)))"
proof -
  let ?ns = "\<lparr>file_name = ''/ns/vni-1'', file_fd = 5\<rparr>"
  let ?s = "watch_init (sim_init [(''/ns/vni-1'', 5)] [])"
  show ?thesis
    unfolding Let_def
    using second_monitor_orphans_first
      [where calls = "[]" and rs = "[]" and k = "sim_init [(''/ns/vni-1'', 5)] []" and s = ?s and os = sim_os
        and ns = ?ns and vxlan = "''lo''" and vxlan' = "''lo''" and later = "[CallStop ?ns, CallStop ?ns]",
       OF _ prod.collapse [symmetric] prod.collapse [symmetric]]
    by (simp add: watch_init_def)
qed

section \<open>The resolver\<close>

lemma find_container_find:
  "find_container sandbox addr cs =
   (case find (\<lambda>c. ctr_sandbox_name c = path_base sandbox \<and> ctr_ip c = addr) cs of
      None \<Rightarrow> None
    | Some c \<Rightarrow> map_option (\<lambda>mac. (mac, parse_ip (ctr_host_ip c))) (parse_mac (ctr_mac c)))"
  by (induction cs) (auto split: option.split)

text \<open>
  The resolver answers a miss exactly when the first container of that sandbox with the missed
  address has a well-formed MAC; the answer is the miss with that MAC as hardware address and the
  container's host as tunnel endpoint.
\<close>

theorem resolver_answers_first_match:
  "resolve_with cs msg = Some msg' \<longleftrightarrow>
   (\<exists>i mac. i < length cs \<and>
     ctr_sandbox_name (cs ! i) = path_base (nb_sandbox_name msg) \<and> ctr_ip (cs ! i) = ip_string (ne_ip (nb_neigh msg)) \<and>
     \<not> (\<exists>j < i. ctr_sandbox_name (cs ! j) = path_base (nb_sandbox_name msg) \<and>
        ctr_ip (cs ! j) = ip_string (ne_ip (nb_neigh msg))) \<and>
     parse_mac (ctr_mac (cs ! i)) = Some mac \<and>
     msg' = msg\<lparr>nb_neigh := (nb_neigh msg)\<lparr>ne_hardware_addr := mac\<rparr>, nb_vtep := parse_ip (ctr_host_ip (cs ! i))\<rparr>)"
proof -
  have "resolve_with cs msg = Some msg' \<longleftrightarrow>
    (\<exists>c mac. find (\<lambda>c. ctr_sandbox_name c = path_base (nb_sandbox_name msg) \<and>
        ctr_ip c = ip_string (ne_ip (nb_neigh msg))) cs = Some c \<and>
      parse_mac (ctr_mac c) = Some mac \<and>
      msg' = msg\<lparr>nb_neigh := (nb_neigh msg)\<lparr>ne_hardware_addr := mac\<rparr>, nb_vtep := parse_ip (ctr_host_ip c)\<rparr>)"
    by (auto simp: resolve_with_def find_container_find split: option.split)
  then show ?thesis
    unfolding find_Some_iff by blast
qed

end
