(* ===== verification/Pipeline.thy ===== *)
theory Pipeline
  imports Watcher_Props
begin

text \<open>
  The goroutines of one monitor as a transition system: the receiver of the subscriber, the
  forwarding goroutine of \<open>StartMonitor\<close>, \<open>ResolveMisses\<close> and \<open>addNeighbors\<close>, coupled by the
  unbuffered channels \<open>subChan\<close>, \<open>unresolvedMisses\<close> and \<open>resolvedNeighbors\<close>.  A send on an
  unbuffered channel is one step with its receive.
\<close>

text \<open>
  \<open>received\<close> and \<open>inserted\<close> record the history: the misses read from the socket and the
  neighbours that the loop of \<open>addNeighbors\<close> has handed to netlink.  That loop logs an error of
  netlink and goes on to the next neighbour in either case, so what netlink answers has no influence
  on the goroutines and is no part of the state.
\<close>

record pipeline =
  received :: "neigh list"
  to_send :: "neigh list"
  receiver_returning :: bool
  sub_closed :: bool
  forwarding :: "neighbor option"
  forwarder_running :: bool
  unresolved_closed :: bool
  resolving :: "neighbor option"
  resolver_sending :: "neighbor option"
  resolver_running :: bool
  resolved_closed :: bool
  inserting :: "neighbor option"
  inserter_running :: bool
  inserted :: "neighbor list"

definition pipeline_init :: pipeline where
  "pipeline_init =
     \<lparr>received = [], to_send = [], receiver_returning = False, sub_closed = False,
      forwarding = None, forwarder_running = True, unresolved_closed = False,
      resolving = None, resolver_sending = None, resolver_running = True, resolved_closed = False,
      inserting = None, inserter_running = True, inserted = []\<rparr>"

text \<open>
  \<open>name\<close> is the name of the monitored namespace.  The datastore may answer every query of the
  resolver differently; a failing query counts as no containers.
\<close>

inductive pipeline_step ::
  "(byte list \<Rightarrow> goerror + netlink_neigh) \<Rightarrow> string \<Rightarrow> pipeline \<Rightarrow> pipeline \<Rightarrow> bool"
  for deser :: "byte list \<Rightarrow> goerror + netlink_neigh" and name :: string where
  receive: "to_send p = [] \<Longrightarrow> \<not> receiver_returning p \<Longrightarrow> subscriber_batch deser msgs = (out, stop) \<Longrightarrow>
    pipeline_step deser name p (p\<lparr>received := received p @ out, to_send := out, receiver_returning := stop\<rparr>)"
| receive_error: "to_send p = [] \<Longrightarrow> \<not> receiver_returning p \<Longrightarrow>
    pipeline_step deser name p (p\<lparr>receiver_returning := True\<rparr>)"
| close_sub: "to_send p = [] \<Longrightarrow> receiver_returning p \<Longrightarrow> \<not> sub_closed p \<Longrightarrow>
    pipeline_step deser name p (p\<lparr>sub_closed := True\<rparr>)"
| forward: "to_send p = n # ns \<Longrightarrow> forwarder_running p \<Longrightarrow> forwarding p = None \<Longrightarrow>
    pipeline_step deser name p
      (p\<lparr>to_send := ns, forwarding := Some \<lparr>nb_sandbox_name = name, nb_vtep = [], nb_neigh = n\<rparr>\<rparr>)"
| forwarder_end: "sub_closed p \<Longrightarrow> forwarder_running p \<Longrightarrow> forwarding p = None \<Longrightarrow>
    pipeline_step deser name p (p\<lparr>forwarder_running := False\<rparr>)"
| hand_miss: "forwarding p = Some m \<Longrightarrow> resolver_running p \<Longrightarrow> resolving p = None \<Longrightarrow> resolver_sending p = None \<Longrightarrow>
    pipeline_step deser name p (p\<lparr>forwarding := None, resolving := Some m\<rparr>)"
| resolve: "resolving p = Some m \<Longrightarrow>
    pipeline_step deser name p (p\<lparr>resolving := None, resolver_sending := resolve_with cs m\<rparr>)"
| resolver_end: "unresolved_closed p \<Longrightarrow> forwarding p = None \<Longrightarrow> resolver_running p \<Longrightarrow>
    resolving p = None \<Longrightarrow> resolver_sending p = None \<Longrightarrow>
    pipeline_step deser name p (p\<lparr>resolver_running := False, resolved_closed := True\<rparr>)"
| hand_resolved: "resolver_sending p = Some m \<Longrightarrow> inserter_running p \<Longrightarrow> inserting p = None \<Longrightarrow>
    pipeline_step deser name p (p\<lparr>resolver_sending := None, inserting := Some m\<rparr>)"
| insert: "inserting p = Some m \<Longrightarrow>
    pipeline_step deser name p (p\<lparr>inserting := None, inserted := inserted p @ [m]\<rparr>)"
| inserter_end: "resolved_closed p \<Longrightarrow> inserter_running p \<Longrightarrow> inserting p = None \<Longrightarrow>
    pipeline_step deser name p (p\<lparr>inserter_running := False\<rparr>)"

inductive pipeline_reachable ::
  "(byte list \<Rightarrow> goerror + netlink_neigh) \<Rightarrow> string \<Rightarrow> pipeline \<Rightarrow> bool"
  for deser :: "byte list \<Rightarrow> goerror + netlink_neigh" and name :: string where
  start: "pipeline_reachable deser name pipeline_init"
| step: "pipeline_reachable deser name p \<Longrightarrow> pipeline_step deser name p q \<Longrightarrow> pipeline_reachable deser name q"

inductive_cases pipeline_stepE: "pipeline_step deser name p q"

section \<open>Messages keep their order\<close>

text \<open>The message that the receiver makes of a miss, and what the resolver may make of it.\<close>

definition miss_message :: "string \<Rightarrow> neigh \<Rightarrow> neighbor" where
  "miss_message name n = \<lparr>nb_sandbox_name = name, nb_vtep = [], nb_neigh = n\<rparr>"

definition answers_miss :: "string \<Rightarrow> neighbor \<Rightarrow> neigh \<Rightarrow> bool" where
  "answers_miss name m n \<longleftrightarrow> (\<exists>cs. resolve_with cs (miss_message name n) = Some m)"

definition list_of :: "'a option \<Rightarrow> 'a list" where
  "list_of x = (case x of None \<Rightarrow> [] | Some y \<Rightarrow> [y])"

lemma list_of_simps [simp]: "list_of None = []" "list_of (Some x) = [x]"
  by (simp_all add: list_of_def)

text \<open>Everything on its way, the furthest first, each as what it says of the miss that it is for.\<close>

definition in_order :: "string \<Rightarrow> pipeline \<Rightarrow> (neigh \<Rightarrow> bool) list" where
  "in_order name p =
     map (answers_miss name) (inserted p @ list_of (inserting p) @ list_of (resolver_sending p)) @
     map (\<lambda>m n. m = miss_message name n) (list_of (resolving p) @ list_of (forwarding p)) @
     map (=) (to_send p)"

definition satisfied_by :: "(neigh \<Rightarrow> bool) list \<Rightarrow> neigh list \<Rightarrow> bool" where
  "satisfied_by qs ns \<longleftrightarrow> (\<exists>ms. subseq ms ns \<and> list_all2 (\<lambda>q n. q n) qs ms)"

lemma satisfied_by_append: "satisfied_by qs ns \<Longrightarrow> satisfied_by (qs @ map (=) out) (ns @ out)"
proof -
  have "list_all2 (\<lambda>q n. q n) (map (=) out) out"
    by (simp add: list_all2_map1 list_all2_refl)
  then show "satisfied_by qs ns \<Longrightarrow> satisfied_by (qs @ map (=) out) (ns @ out)"
    unfolding satisfied_by_def by (meson list_all2_appendI list_emb_append_mono subseq_order.order_refl)
qed

text \<open>One of them goes on, or goes away.\<close>

lemma satisfied_by_replace:
  "satisfied_by (as @ q # bs) ns \<Longrightarrow> (\<And>n. q n \<Longrightarrow> q' n) \<Longrightarrow> satisfied_by (as @ q' # bs) ns"
  unfolding satisfied_by_def by (fastforce simp: list_all2_append1 list_all2_Cons1)

lemma satisfied_by_drop: "satisfied_by (as @ q # bs) ns \<Longrightarrow> satisfied_by (as @ bs) ns"
proof -
  assume "satisfied_by (as @ q # bs) ns"
  then obtain us m vs where "subseq (us @ m # vs) ns" "list_all2 (\<lambda>q n. q n) as us" "list_all2 (\<lambda>q n. q n) bs vs"
    by (auto simp: satisfied_by_def list_all2_append1 list_all2_Cons1)
  moreover have "subseq (us @ vs) (us @ m # vs)" by (intro list_emb_append_mono) auto
  ultimately show ?thesis
    unfolding satisfied_by_def by (meson list_all2_appendI subseq_order.trans)
qed

lemma satisfied_by_prefix: "satisfied_by (qs @ ps) ns \<Longrightarrow> satisfied_by qs ns"
  unfolding satisfied_by_def by (metis list_all2_append1 list_emb_append2 prefixI prefix_imp_subseq subseq_order.trans)

definition ordered :: "string \<Rightarrow> pipeline \<Rightarrow> bool" where
  "ordered name p \<longleftrightarrow>
     satisfied_by (in_order name p) (received p) \<and> (resolving p = None \<or> resolver_sending p = None)"

lemma ordered_step:
  assumes "ordered name p" "pipeline_step deser name p q"
  shows "ordered name q"
  using assms(2)
proof (cases rule: pipeline_step.cases)
  case (receive msgs out stop)
  then have "in_order name q = in_order name p @ map (=) out"
    by (simp add: in_order_def)
  with receive assms(1) show ?thesis
    by (simp add: ordered_def satisfied_by_append)
next
  case (forward n ns)
  let ?as = "map (answers_miss name) (inserted p @ list_of (inserting p) @ list_of (resolver_sending p)) @
     map (\<lambda>m n. m = miss_message name n) (list_of (resolving p))"
  have "satisfied_by (?as @ (=) n # map (=) ns) (received p)"
    using assms(1) forward by (simp add: ordered_def in_order_def)
  then have "satisfied_by (?as @ (\<lambda>x. miss_message name n = miss_message name x) # map (=) ns) (received p)"
    by (rule satisfied_by_replace) simp
  with forward assms(1) show ?thesis
    by (simp add: ordered_def in_order_def miss_message_def [symmetric])
next
  case (resolve m cs)
  let ?as = "map (answers_miss name) (inserted p @ list_of (inserting p))"
  let ?bs = "map (\<lambda>m n. m = miss_message name n) (list_of (forwarding p)) @ map (=) (to_send p)"
  have sending: "resolver_sending p = None"
    using assms(1) resolve by (simp add: ordered_def)
  then have before: "satisfied_by (?as @ (\<lambda>n. m = miss_message name n) # ?bs) (received p)"
    using assms(1) resolve by (simp add: ordered_def in_order_def)
  show ?thesis
  proof (cases "resolve_with cs m")
    case None
    with resolve satisfied_by_drop [OF before] show ?thesis
      by (simp add: ordered_def in_order_def)
  next
    case (Some m')
    have "satisfied_by (?as @ answers_miss name m' # ?bs) (received p)"
      using before by (rule satisfied_by_replace) (use Some in \<open>auto simp: answers_miss_def\<close>)
    with resolve Some show ?thesis
      by (simp add: ordered_def in_order_def)
  qed
qed (use assms(1) in \<open>auto simp: ordered_def in_order_def\<close>)

lemma pipeline_ordered: "pipeline_reachable deser name p \<Longrightarrow> ordered name p"
proof (induction rule: pipeline_reachable.induct)
  case start
  show ?case by (simp add: ordered_def in_order_def satisfied_by_def pipeline_init_def)
next
  case (step p q)
  then show ?case by (blast intro: ordered_step)
qed

text \<open>
  C21: Whatever the goroutines' schedule and the datastore's answers: the neighbours that are handed to
  netlink answer, in order, a subsequence of the misses that were read from the socket: each is what
  the resolver makes, from some list of containers, of the miss in the monitored namespace.  None is
  made up, duplicated or overtaken.
\<close>

theorem pipeline_keeps_order:
  assumes "pipeline_reachable deser name p"
  shows "\<exists>ns. subseq ns (received p) \<and>
    list_all2 (\<lambda>m n. \<exists>cs. resolve_with cs \<lparr>nb_sandbox_name = name, nb_vtep = [], nb_neigh = n\<rparr> = Some m) (inserted p) ns"
proof -
  have "satisfied_by (in_order name p) (received p)"
    using pipeline_ordered [OF assms] by (simp add: ordered_def)
  then have "satisfied_by (map (answers_miss name) (inserted p)) (received p)"
    unfolding in_order_def map_append append_assoc by (rule satisfied_by_prefix)
  then show ?thesis
    by (simp add: satisfied_by_def list_all2_map1 answers_miss_def miss_message_def)
qed

text \<open>Two misses: the datastore knows no container for the first and one for the second.\<close>

definition two_misses :: "byte list \<Rightarrow> goerror + netlink_neigh" where
  "two_misses b = Inr \<lparr>nn_link_index = 3, nn_family = 2, nn_state = 1, nn_type = 0, nn_flags = 0,
     nn_ip = [192, 168, 1] @ b, nn_hardware_addr = []\<rparr>"

definition missed :: "byte \<Rightarrow> neigh" where
  "missed b = \<lparr>ne_link_index = 3, ne_family = 2, ne_state = 1, ne_type = 0, ne_flags = 0,
     ne_ip = [192, 168, 1, b], ne_hardware_addr = []\<rparr>"

definition known :: container where
  "known = \<lparr>ctr_id = ''c2'', ctr_ip = ''192.168.1.3'', ctr_mac = ''02:00:00:00:00:01'', ctr_host_ip = ''10.0.0.5'',
     ctr_network_id = ''n'', ctr_sandbox_name = ''vni-1'', ctr_app = []\<rparr>"

definition neighbour :: neighbor where
  "neighbour = \<lparr>nb_sandbox_name = ''/ns/vni-1'', nb_vtep = ipv4_16 [10, 0, 0, 5],
     nb_neigh = (missed 3)\<lparr>ne_hardware_addr := [2, 0, 0, 0, 0, 1]\<rparr>\<rparr>"

lemma two_misses_batch: "fst (subscriber_batch two_misses [[2], [3]]) = [missed 2, missed 3]"
  by code_simp

lemma two_misses_resolve:
  "resolve_with [known] \<lparr>nb_sandbox_name = ''/ns/vni-1'', nb_vtep = [], nb_neigh = missed 2\<rparr> = None"
  "resolve_with [known] \<lparr>nb_sandbox_name = ''/ns/vni-1'', nb_vtep = [], nb_neigh = missed 3\<rparr> = Some neighbour"
  by code_simp+

lemma two_misses_run:
  "\<exists>p. pipeline_reachable two_misses ''/ns/vni-1'' p \<and> received p = [missed 2, missed 3] \<and> inserted p = [neighbour]"
proof -
  let ?name = "''/ns/vni-1''"
  let ?m = "\<lambda>b. \<lparr>nb_sandbox_name = ?name, nb_vtep = [], nb_neigh = missed b\<rparr>"
  note go = pipeline_reachable.step [of two_misses ?name]
  obtain stop where batch: "subscriber_batch two_misses [[2], [3]] = ([missed 2, missed 3], stop)"
    by (metis (no_types) prod.collapse two_misses_batch)
  let ?p1 = "pipeline_init\<lparr>received := [missed 2, missed 3], to_send := [missed 2, missed 3], receiver_returning := stop\<rparr>"
  have r1: "pipeline_reachable two_misses ?name ?p1"
    using go [OF start receive [OF _ _ batch, of pipeline_init]] by (simp add: pipeline_init_def)
  let ?p2 = "?p1\<lparr>to_send := [missed 3], forwarding := Some (?m 2)\<rparr>"
  have r2: "pipeline_reachable two_misses ?name ?p2"
    by (rule go [OF r1]) (use forward [of ?p1 "missed 2" "[missed 3]" two_misses ?name] in \<open>simp add: pipeline_init_def\<close>)
  let ?p3 = "?p2\<lparr>forwarding := None, resolving := Some (?m 2)\<rparr>"
  have r3: "pipeline_reachable two_misses ?name ?p3"
    by (rule go [OF r2], rule hand_miss) (simp_all add: pipeline_init_def)
  let ?p4 = "?p3\<lparr>resolving := None, resolver_sending := None\<rparr>"
  have r4: "pipeline_reachable two_misses ?name ?p4"
    using go [OF r3 resolve [of ?p3 "?m 2" two_misses ?name "[known]"]] two_misses_resolve(1) by simp
  let ?p5 = "?p4\<lparr>to_send := [], forwarding := Some (?m 3)\<rparr>"
  have r5: "pipeline_reachable two_misses ?name ?p5"
    by (rule go [OF r4]) (use forward [of ?p4 "missed 3" "[]" two_misses ?name] in \<open>simp add: pipeline_init_def\<close>)
  let ?p6 = "?p5\<lparr>forwarding := None, resolving := Some (?m 3)\<rparr>"
  have r6: "pipeline_reachable two_misses ?name ?p6"
    by (rule go [OF r5], rule hand_miss) (simp_all add: pipeline_init_def)
  let ?p7 = "?p6\<lparr>resolving := None, resolver_sending := Some neighbour\<rparr>"
  have r7: "pipeline_reachable two_misses ?name ?p7"
    using go [OF r6 resolve [of ?p6 "?m 3" two_misses ?name "[known]"]] two_misses_resolve(2) by simp
  let ?p8 = "?p7\<lparr>resolver_sending := None, inserting := Some neighbour\<rparr>"
  have r8: "pipeline_reachable two_misses ?name ?p8"
    by (rule go [OF r7], rule hand_resolved) (simp_all add: pipeline_init_def)
  let ?p9 = "?p8\<lparr>inserting := None, inserted := inserted ?p8 @ [neighbour]\<rparr>"
  have r9: "pipeline_reachable two_misses ?name ?p9"
    by (rule go [OF r8], rule insert) simp
  then show ?thesis
    by (intro exI [of _ ?p9]) (simp add: pipeline_init_def)
qed

lemma pipeline_keeps_order_witness:
  "\<exists>ns. subseq ns [missed 2, missed 3] \<and>
    list_all2 (\<lambda>m n. \<exists>cs. resolve_with cs \<lparr>nb_sandbox_name = ''/ns/vni-1'', nb_vtep = [], nb_neigh = n\<rparr> = Some m)
      [neighbour] ns"
proof -
  obtain p where "pipeline_reachable two_misses ''/ns/vni-1'' p" "received p = [missed 2, missed 3]" "inserted p = [neighbour]"
    using two_misses_run by blast
  with pipeline_keeps_order [of two_misses "''/ns/vni-1''" p] show ?thesis by simp
qed

section \<open>Goroutines that never end\<close>

definition tail_running :: "pipeline \<Rightarrow> bool" where
  "tail_running p \<longleftrightarrow> \<not> unresolved_closed p \<and> \<not> resolved_closed p \<and> resolver_running p \<and> inserter_running p"

lemma tail_running_step: "pipeline_step deser name p q \<Longrightarrow> tail_running p \<Longrightarrow> tail_running q"
  by (erule pipeline_stepE) (simp_all add: tail_running_def)

text \<open>
  The goroutines of \<open>ResolveMisses\<close> and of the ARP inserter never end: nothing closes
  \<open>unresolvedMisses\<close>, not even after the monitor was stopped and the forwarding goroutine is done.
\<close>

theorem resolver_and_inserter_never_end:
  assumes "pipeline_reachable deser name p"
  shows "resolver_running p \<and> inserter_running p \<and> \<not> unresolved_closed p"
proof -
  have "tail_running p"
    using assms
    by (induction rule: pipeline_reachable.induct)
       (auto simp: tail_running_def pipeline_init_def dest: tail_running_step [unfolded tail_running_def])
  then show ?thesis by (simp add: tail_running_def)
qed

lemma resolver_and_inserter_never_end_witness:
  "\<exists>p. pipeline_reachable (\<lambda>_. Inl (ExtError ''bad message'')) ''/ns/vni-1'' p \<and> receiver_returning p \<and>
     resolver_running p \<and> inserter_running p \<and> \<not> unresolved_closed p"
proof -
  let ?d = "\<lambda>_ :: byte list. Inl (ExtError ''bad message'') :: goerror + netlink_neigh"
  have "pipeline_step ?d ''/ns/vni-1'' pipeline_init (pipeline_init\<lparr>receiver_returning := True\<rparr>)"
    by (rule receive_error) (simp_all add: pipeline_init_def)
  from pipeline_reachable.step [OF start this]
  have r: "pipeline_reachable ?d ''/ns/vni-1'' (pipeline_init\<lparr>receiver_returning := True\<rparr>)" .
  from r resolver_and_inserter_never_end [OF r] show ?thesis
    by (intro exI [of _ "pipeline_init\<lparr>receiver_returning := True\<rparr>"]) simp
qed

section \<open>Every message gets through\<close>

text \<open>Whether some message is on its way, and the steps that are left without further messages.\<close>

definition in_flight :: "pipeline \<Rightarrow> bool" where
  "in_flight p \<longleftrightarrow>
     to_send p \<noteq> [] \<or> forwarding p \<noteq> None \<or> resolving p \<noteq> None \<or> resolver_sending p \<noteq> None \<or> inserting p \<noteq> None"

definition backlog :: "pipeline \<Rightarrow> nat" where
  "backlog p =
     6 * length (to_send p) + 5 * length (list_of (forwarding p)) + 4 * length (list_of (resolving p)) +
     3 * length (list_of (resolver_sending p)) + 2 * length (list_of (inserting p)) +
     of_bool (\<not> receiver_returning p) + of_bool (\<not> sub_closed p) + of_bool (forwarder_running p) +
     of_bool (resolver_running p) + of_bool (inserter_running p)"

lemma backlog_decreases:
  assumes "pipeline_step deser name p q" "received q = received p" "ordered name p"
  shows "q = p \<or> backlog q < backlog p"
  using assms(1)
proof (cases rule: pipeline_step.cases)
  case (receive msgs out stop)
  then show ?thesis
    using assms(2) by (cases stop) (auto simp: backlog_def)
next
  case (resolve m cs)
  then have "resolver_sending p = None" using assms(3) by (simp add: ordered_def)
  with resolve show ?thesis
    by (cases "resolve_with cs m") (simp_all add: backlog_def)
qed (simp_all add: backlog_def)

definition forwarder_ok :: "pipeline \<Rightarrow> bool" where
  "forwarder_ok p \<longleftrightarrow>
     (sub_closed p \<longrightarrow> to_send p = [] \<and> receiver_returning p) \<and> (\<not> forwarder_running p \<longrightarrow> sub_closed p \<and> forwarding p = None)"

lemma forwarder_ok_step: "pipeline_step deser name p q \<Longrightarrow> forwarder_ok p \<Longrightarrow> forwarder_ok q"
  by (erule pipeline_stepE) (auto simp: forwarder_ok_def)

lemma pipeline_forwarder: "pipeline_reachable deser name p \<Longrightarrow> forwarder_ok p"
proof (induction rule: pipeline_reachable.induct)
  case start
  show ?case by (simp add: forwarder_ok_def pipeline_init_def)
next
  case (step p q)
  then show ?case by (blast intro: forwarder_ok_step)
qed

lemma pipeline_tail: "pipeline_reachable deser name p \<Longrightarrow> tail_running p"
proof (induction rule: pipeline_reachable.induct)
  case start
  show ?case by (simp add: tail_running_def pipeline_init_def)
next
  case (step p q)
  then show ?case by (blast intro: tail_running_step)
qed

text \<open>The message that is furthest ahead can take its next step.\<close>

lemma in_flight_step:
  assumes "forwarder_ok p" "tail_running p" "ordered name p" "in_flight p"
  shows "\<exists>q. pipeline_step deser name p q \<and> received q = received p \<and> backlog q < backlog p"
proof -
  have running: "resolver_running p" "inserter_running p" using assms(2) by (simp_all add: tail_running_def)
  consider (inserting) m where "inserting p = Some m"
    | (sending) m where "inserting p = None" "resolver_sending p = Some m"
    | (resolving) m where "resolving p = Some m"
    | (forwarding) m where "resolving p = None" "resolver_sending p = None" "forwarding p = Some m"
    | (waiting) n ns where "forwarding p = None" "to_send p = n # ns"
    using assms(4)
    by (cases "inserting p"; cases "resolver_sending p"; cases "resolving p"; cases "forwarding p"; cases "to_send p")
       (simp_all add: in_flight_def)
  then show ?thesis
  proof cases
    case inserting
    then show ?thesis
      by - (rule exI, rule conjI, rule insert [OF inserting], simp add: backlog_def)
  next
    case sending
    then show ?thesis
      by - (rule exI, rule conjI, rule hand_resolved [OF sending(2) running(2) sending(1)], simp add: backlog_def)
  next
    case resolving
    have "resolver_sending p = None" using assms(3) resolving by (simp add: ordered_def)
    then show ?thesis
      using resolving
      by - (rule exI, rule conjI, rule resolve [OF resolving, of _ _ "[]"],
        cases "resolve_with [] m"; simp add: backlog_def)
  next
    case forwarding
    then show ?thesis
      by - (rule exI, rule conjI, rule hand_miss [OF forwarding(3) running(1) forwarding(1,2)], simp add: backlog_def)
  next
    case waiting
    then have "forwarder_running p" using assms(1) by (auto simp: forwarder_ok_def)
    from forward [OF waiting(2) this waiting(1)] waiting show ?thesis
      by - (rule exI, rule conjI, assumption, simp add: backlog_def)
  qed
qed

text \<open>
  C22: No message gets stuck: as long as a message is on its way from the socket to netlink, some
  goroutine can take a step with it, and every step that reads no new message, whichever goroutine
  takes it, brings the pipeline nearer to having handled all messages.
\<close>

theorem pipeline_drains:
  assumes "pipeline_reachable deser name p"
  shows "(in_flight p \<longrightarrow>
      (\<exists>q. pipeline_step deser name p q \<and> received q = received p \<and> backlog q < backlog p)) \<and>
    (\<forall>q. pipeline_step deser name p q \<and> received q = received p \<longrightarrow> q = p \<or> backlog q < backlog p)"
  using in_flight_step [OF pipeline_forwarder [OF assms] pipeline_tail [OF assms] pipeline_ordered [OF assms]]
    backlog_decreases [OF _ _ pipeline_ordered [OF assms]] by metis

lemma pipeline_drains_witness:
  "\<exists>p. pipeline_reachable (\<lambda>_. Inr \<lparr>nn_link_index = 3, nn_family = 2, nn_state = 1, nn_type = 0, nn_flags = 0,
      nn_ip = [192, 168, 1, 2], nn_hardware_addr = []\<rparr>) ''/ns/vni-1'' p \<and> length (to_send p) = 2 \<and>
    (\<exists>q. pipeline_step (\<lambda>_. Inr \<lparr>nn_link_index = 3, nn_family = 2, nn_state = 1, nn_type = 0, nn_flags = 0,
      nn_ip = [192, 168, 1, 2], nn_hardware_addr = []\<rparr>) ''/ns/vni-1'' p q \<and> received q = received p \<and> backlog q < backlog p)"
proof -
  let ?d = "\<lambda>_ :: byte list. Inr \<lparr>nn_link_index = 3, nn_family = 2, nn_state = 1, nn_type = 0, nn_flags = 0,
      nn_ip = [192, 168, 1, 2], nn_hardware_addr = []\<rparr> :: goerror + netlink_neigh"
  obtain out stop where batch: "subscriber_batch ?d [[], []] = (out, stop)"
    by (rule prod.exhaust)
  then have two: "length out = 2"
    by (auto simp: is_miss_def)
  let ?p = "pipeline_init\<lparr>received := out, to_send := out, receiver_returning := stop\<rparr>"
  have "pipeline_step ?d ''/ns/vni-1'' pipeline_init ?p"
    using receive [of pipeline_init ?d "[[], []]" out stop "''/ns/vni-1''"] batch by (simp add: pipeline_init_def)
  from pipeline_reachable.step [OF start this] have r: "pipeline_reachable ?d ''/ns/vni-1'' ?p" .
  have "in_flight ?p" using two by (auto simp: in_flight_def)
  with pipeline_drains [OF r] have "\<exists>q. pipeline_step ?d ''/ns/vni-1'' ?p q \<and> received q = received ?p \<and> backlog q < backlog ?p"
    by blast
  with r two show ?thesis
    by - (rule exI [of _ ?p], simp)
qed

end
