(* ===== verification/Namespace_Props.thy ===== *)
theory Namespace_Props
  imports Simulation
begin

text \<open>
  What \<open>Netns.Execute\<close> guarantees: the callback only ever runs in the target namespace, and the
  thread is back in its own namespace afterwards unless the daemon panics.  And when the
  repository cannot destroy what it created.
\<close>

section \<open>The laws of namespaces\<close>

text \<open>
  \<open>cur\<close> is the namespace of the calling thread and \<open>denotes f\<close> the one a file handle stands
  for.  The thread's file under \<open>/proc\<close> stands for its namespace (proc(5)); \<open>SetNS\<close> moves the
  thread or fails (setns(2)); opening and closing files moves no thread.
\<close>

definition ns_laws :: "'k os \<Rightarrow> ('k \<Rightarrow> 'n) \<Rightarrow> (go_file \<Rightarrow> 'n) \<Rightarrow> bool" where
  "ns_laws os cur denotes \<longleftrightarrow>
     (\<forall>k f k'. os_open os (task_namespace_path os k) k = (Inr f, k') \<longrightarrow> denotes f = cur k) \<and>
     (\<forall>p k r k'. os_open os p k = (r, k') \<longrightarrow> cur k' = cur k) \<and>
     (\<forall>f k k'. os_set_ns os f k = (Inr (), k') \<longrightarrow> cur k' = denotes f) \<and>
     (\<forall>f k e k'. os_set_ns os f k = (Inl e, k') \<longrightarrow> cur k' = cur k) \<and>
     (\<forall>f k. cur (os_close os f k) = cur k)"

lemma ns_lawsD:
  assumes "ns_laws os cur denotes"
  shows "os_open os (task_namespace_path os k) k = (Inr f, k') \<Longrightarrow> denotes f = cur k \<and> cur k' = cur k"
    and "os_open os p k = (r, k') \<Longrightarrow> cur k' = cur k"
    and "os_set_ns os f k = (Inr (), k') \<Longrightarrow> cur k' = denotes f"
    and "os_set_ns os f k = (Inl e, k') \<Longrightarrow> cur k' = cur k"
    and "cur (os_close os f k) = cur k"
  using assms unfolding ns_laws_def by blast+

lemma sim_files_of_os:
  "os_open sim_os = sim_open" "os_set_ns sim_os = (\<lambda>f. sim_ok ''set_ns'' (\<lambda>k. k\<lparr>sim_current := file_fd f\<rparr>))"
  "os_close sim_os f k = k"
  by (simp_all add: sim_os_def)

lemma sim_ns_laws: "ns_laws sim_os sim_current file_fd"
proof -
  have proc: "has_prefix (task_namespace_path sim_os k) ''/proc/''" for k
    by (simp add: task_namespace_path_def has_prefix_def)
  have keep: "sim_current k' = sim_current k" if "sim_open p k = (r, k')" for p k r k'
    using that by (auto simp: sim_open_def sim_try_def split: if_splits option.splits)
  have task: "file_fd f = sim_current k" if "sim_open (task_namespace_path sim_os k) k = (Inr f, k')" for f k k'
    using that proc [of k] by (auto simp: sim_open_def sim_try_def split: if_splits)
  show ?thesis
    unfolding ns_laws_def sim_files_of_os using keep task
    by (auto simp: sim_try_def sim_ok_def split: if_splits)
qed

text \<open>The two ways into \<open>Execute\<close>, the same for any two callbacks.\<close>

lemma ns_execute_cases [consumes 1]:
  fixes callback callback' :: "go_file \<Rightarrow> (('k, 'z) world_scheme, 'a) prog"
  assumes laws: "ns_laws os cur denotes"
  obtains (not_entered) e t where
      "ns_execute os ns callback s = (Err e, t)" "ns_execute os ns callback' s = (Err e, t)"
      "cur (kernel t) = cur (kernel s)"
  | (entered) original u where
      "ns_execute os ns callback s =
         deferring (close_file os original) (restoring (sys (os_set_ns os original)) (callback original)) u"
      "ns_execute os ns callback' s =
         deferring (close_file os original) (restoring (sys (os_set_ns os original)) (callback' original)) u"
      "denotes original = cur (kernel s)" "cur (kernel u) = denotes ns"
proof -
  let ?path = "task_namespace_path os (kernel s)"
  obtain r k where open': "os_open os ?path (kernel s) = (r, k)" by fastforce
  show thesis
  proof (cases r)
    case (Inl e)
    then show thesis
      using open' ns_lawsD(2) [OF laws open'] not_entered [of "wrapf ''open failed'' e" "s\<lparr>kernel := k\<rparr>"]
      by (simp add: ns_execute_def bind_wrap_eval sys_def)
  next
    case (Inr original)
    obtain r' k' where set: "os_set_ns os ns k = (r', k')" by fastforce
    have original: "denotes original = cur (kernel s)" "cur k = cur (kernel s)"
      using ns_lawsD(1) [OF laws] open' Inr by blast+
    show thesis
    proof (cases r')
      case (Inl e)
      then have "cur k' = cur (kernel s)"
        using ns_lawsD(4) [OF laws] set original(2) by simp
      then show thesis
        using open' Inr set Inl ns_lawsD(5) [OF laws, of original k']
          not_entered [of "wrapf ''set ns failed'' e" "s\<lparr>kernel := os_close os original k'\<rparr>"]
        by (simp add: ns_execute_def bind_wrap_eval sys_def deferring_def close_file_def)
    next
      case (Inr u)
      then have "cur k' = denotes ns"
        using ns_lawsD(3) [OF laws] set by simp
      then show thesis
        using open' \<open>r = Inr original\<close> set Inr original(1) entered [of original "s\<lparr>kernel := k'\<rparr>"]
        by (simp add: ns_execute_def bind_wrap_eval sys_def deferring_def)
    qed
  qed
qed

text \<open>
  C23: However \<open>Netns.Execute\<close> ends, the calling thread is in the namespace it started in, unless
  the callback never returns or the daemon dies of a panic: no request goes on in a foreign
  namespace.
\<close>

theorem execute_restores_namespace:
  assumes "ns_laws os cur denotes" "ns_execute os ns callback s = (r, t)"
  shows "cur (kernel t) = cur (kernel s) \<or> (\<exists>a. r = Abort a)"
  using assms(1)
proof (cases rule: ns_execute_cases [of os cur denotes ns callback s callback])
  case (not_entered e u)
  with assms(2) show ?thesis by simp
next
  case (entered original u)
  obtain r' v where cb: "callback original u = (r', v)" by fastforce
  obtain q k where set: "os_set_ns os original (kernel v) = (q, k)" by fastforce
  show ?thesis
    using assms(2) entered cb set ns_lawsD(3,5) [OF assms(1)]
    by (cases q) (auto simp: deferring_def restoring_def sys_def close_file_def split: if_splits)
qed

lemma execute_restores_namespace_witness:
  "sim_current (kernel (snd (ns_execute sim_os \<lparr>file_name = ''/ns/a'', file_fd = 5\<rparr> (\<lambda>_. create_dummy sim_os ''d'')
     \<lparr>kernel = sim_init [(''/ns/a'', 5)] []\<rparr>))) = 0"
proof -
  let ?m = "ns_execute sim_os \<lparr>file_name = ''/ns/a'', file_fd = 5\<rparr> (\<lambda>_. create_dummy sim_os ''d'')"
  obtain r t where run: "?m \<lparr>kernel = sim_init [(''/ns/a'', 5)] []\<rparr> = (r, t)"
    by fastforce
  have "is_ok (fst (?m \<lparr>kernel = sim_init [(''/ns/a'', 5)] []\<rparr>))"
    by code_simp
  with execute_restores_namespace [OF sim_ns_laws run] run show ?thesis
    by (auto simp: sim_init_def)
qed

text \<open>
  The callback of \<open>Netns.Execute\<close> only ever runs while the thread is in the target namespace:
  two callbacks that do the same in that namespace cannot be told apart.
\<close>

theorem execute_runs_inside:
  assumes "ns_laws os cur denotes"
    and "\<And>f u. cur (kernel u) = denotes ns \<Longrightarrow> callback f u = callback' f u"
  shows "ns_execute os ns callback s = ns_execute os ns callback' s"
  using assms(1)
proof (cases rule: ns_execute_cases [of os cur denotes ns callback s callback'])
  case (not_entered e u)
  then show ?thesis by simp
next
  case (entered original u)
  with assms(2) [OF entered(4)] show ?thesis by (simp add: deferring_def restoring_def)
qed

lemma execute_runs_inside_witness:
  "ns_execute sim_os \<lparr>file_name = ''/ns/a'', file_fd = 5\<rparr> (\<lambda>_ s. (Ok (sim_current (kernel s)), s))
     \<lparr>kernel = sim_init [(''/ns/a'', 5)] []\<rparr> =
   ns_execute sim_os \<lparr>file_name = ''/ns/a'', file_fd = 5\<rparr> (\<lambda>_ s. (Ok 5, s))
     \<lparr>kernel = sim_init [(''/ns/a'', 5)] []\<rparr>"
  by (rule execute_runs_inside [OF sim_ns_laws]) simp

section \<open>Namespaces the repository cannot destroy\<close>

text \<open>
  \<open>PathOf\<close> cleans the path of a namespace but \<open>Destroy\<close> compares it with the directory as
  configured: with a directory such as \<open>/var//sandboxes\<close> the repository refuses to destroy every
  namespace it has created.
\<close>

theorem unclean_root_never_destroys:
  assumes "\<not> has_prefix (path_of root name) root" "file_name ns = path_of root name"
  shows "repo_destroy os root ns s =
    (Err (Errorf (''namespace outside of repository: '' @ path_of root name)), s)"
  using assms by (simp add: repo_destroy_def fail_def)

lemma unclean_root_never_destroys_witness:
  "fst (repo_destroy sim_os ''/var//sandboxes'' \<lparr>file_name = ''/var/sandboxes/vni-1'', file_fd = 3\<rparr>
     \<lparr>kernel = sim_init [] []\<rparr>) =
   Err (Errorf ''namespace outside of repository: /var/sandboxes/vni-1'')"
proof -
  have path: "path_of ''/var//sandboxes'' ''vni-1'' = ''/var/sandboxes/vni-1''"
    by code_simp
  have "\<not> has_prefix (path_of ''/var//sandboxes'' ''vni-1'') ''/var//sandboxes''"
    by code_simp
  then have "repo_destroy sim_os ''/var//sandboxes'' \<lparr>file_name = ''/var/sandboxes/vni-1'', file_fd = 3\<rparr>
      \<lparr>kernel = sim_init [] []\<rparr> =
    (Err (Errorf (''namespace outside of repository: '' @ path_of ''/var//sandboxes'' ''vni-1'')), \<lparr>kernel = sim_init [] []\<rparr>)"
    by (rule unclean_root_never_destroys) (simp add: path)
  then show ?thesis by (simp add: path)
qed

end
