(* ===== verification/Threads.thy ===== *)
theory Threads
  imports Namespace
begin

text \<open>
  Goroutines, threads and namespaces (\<open>lib/namespace/namespace_linux.go\<close> with \<open>ossupport\<close>).  A network
  namespace belongs to a thread, and the Go scheduler runs goroutines on any thread.  \<open>Execute\<close>
  therefore starts a goroutine, locks it to its thread, and unlocks it when the thread is back in its namespace.
  Here any number of calls of \<open>Execute\<close> run at the same time under any scheduling; \<open>ns_execute\<close> of the theory
  \<open>Namespace\<close> is one of them seen from its own goroutine.
\<close>

section \<open>Threads\<close>

text \<open>
  Where the goroutine of an \<open>Execute\<close> is: before \<open>LockOSThread\<close>, before the open, before the first
  \<open>SetNS\<close>, in the callback (with the original namespace), before \<open>UnlockOSThread\<close>, or done.
\<close>

datatype execute_pc =
    AtLock
  | AtOpen
  | AtEnter nat
  | InCallback nat
  | AtUnlock
  | Executed

text \<open>
  Threads, namespaces and goroutines are numbers.  \<open>th_made\<close> threads exist; \<open>th_calls\<close> lists what the
  callbacks did: the goroutine and the namespace it happened in.  \<open>th_panicked\<close>: the panic of a failed return
  ends the program.
\<close>

record threads =
  th_made :: nat
  th_namespace :: "nat \<Rightarrow> nat"
  th_locked :: "nat \<Rightarrow> nat option"
  th_runs_on :: "nat \<Rightarrow> nat"
  th_pc :: "nat \<Rightarrow> execute_pc"
  th_calls :: "(nat \<times> nat) list"
  th_panicked :: bool

text \<open>\<open>OSLocker.LockOSThread\<close> and \<open>UnlockOSThread\<close>, called by goroutine \<open>g\<close>.\<close>

definition lock_os_thread :: "nat \<Rightarrow> threads \<Rightarrow> threads" where
  "lock_os_thread g s = s\<lparr>th_locked := (th_locked s)(th_runs_on s g \<mapsto> g)\<rparr>"

definition unlock_os_thread :: "nat \<Rightarrow> threads \<Rightarrow> threads" where
  "unlock_os_thread g s = s\<lparr>th_locked := (th_locked s)(th_runs_on s g := None)\<rparr>"

definition set_ns_of_thread :: "nat \<Rightarrow> nat \<Rightarrow> threads \<Rightarrow> threads" where
  "set_ns_of_thread g n s = s\<lparr>th_namespace := (th_namespace s)(th_runs_on s g := n)\<rparr>"

definition at_pc :: "nat \<Rightarrow> execute_pc \<Rightarrow> threads \<Rightarrow> threads" where
  "at_pc g pc s = s\<lparr>th_pc := (th_pc s)(g := pc)\<rparr>"

text \<open>
  What can happen: the runtime makes a thread, or moves a goroutine that is not locked to a thread
  that is not locked; a goroutine takes its next step in \<open>execute\<close>, where a call of the system
  succeeds or not; a callback does something.
\<close>

datatype thread_action =
    MakeThread nat
  | Schedule nat nat
  | Go nat bool
  | Act nat

definition locked_goroutine :: "nat \<Rightarrow> threads \<Rightarrow> bool" where
  "locked_goroutine g s \<longleftrightarrow> th_locked s (th_runs_on s g) = Some g"

text \<open>
  One step of \<open>execute\<close> by goroutine \<open>g\<close> for the namespace \<open>target\<close>: the open and the two \<open>SetNS\<close> calls
  succeed as \<open>succeeds\<close> says.  The deferred functions run in reverse order: back to the original namespace
  (or panic), the close, the unlock.
\<close>

fun execute_step :: "nat \<Rightarrow> nat \<Rightarrow> bool \<Rightarrow> execute_pc \<Rightarrow> threads \<Rightarrow> threads" where
  "execute_step g target succeeds AtLock s = at_pc g AtOpen (lock_os_thread g s)"
| "execute_step g target succeeds AtOpen s =
     (if succeeds then at_pc g (AtEnter (th_namespace s (th_runs_on s g))) s else at_pc g AtUnlock s)"
| "execute_step g target succeeds (AtEnter original) s =
     (if succeeds then at_pc g (InCallback original) (set_ns_of_thread g target s) else at_pc g AtUnlock s)"
| "execute_step g target succeeds (InCallback original) s =
     (if succeeds then at_pc g AtUnlock (set_ns_of_thread g original s) else s\<lparr>th_panicked := True\<rparr>)"
| "execute_step g target succeeds AtUnlock s = at_pc g Executed (unlock_os_thread g s)"
| "execute_step g target succeeds Executed s = s"

text \<open>What a callback does happens in the namespace of the thread it runs on.\<close>

definition callback_acts :: "nat \<Rightarrow> threads \<Rightarrow> threads" where
  "callback_acts g s =
     (case th_pc s g of
        InCallback _ \<Rightarrow> s\<lparr>th_calls := (g, th_namespace s (th_runs_on s g)) # th_calls s\<rparr>
      | _ \<Rightarrow> s)"

definition runnable :: "nat \<Rightarrow> threads \<Rightarrow> bool" where
  "runnable g s \<longleftrightarrow> th_runs_on s g < th_made s \<and> (locked_goroutine g s \<or> th_locked s (th_runs_on s g) = None)"

text \<open>
  \<open>inherits\<close>: may a new thread be made from a locked one, and start in its namespace?  It may with Go up to
  1.9; since 1.10 the runtime makes threads from a clean one.
\<close>

fun thread_step :: "bool \<Rightarrow> (nat \<Rightarrow> nat) \<Rightarrow> thread_action \<Rightarrow> threads \<Rightarrow> threads" where
  "thread_step inherits target (MakeThread t) s =
     (if th_panicked s \<or> th_made s \<le> t \<or> \<not> inherits \<and> th_locked s t \<noteq> None then s
      else s\<lparr>th_made := th_made s + 1, th_namespace := (th_namespace s)(th_made s := th_namespace s t),
             th_locked := (th_locked s)(th_made s := None)\<rparr>)"
| "thread_step inherits target (Schedule g t) s =
     (if th_panicked s \<or> th_made s \<le> t \<or> locked_goroutine g s \<or> th_locked s t \<noteq> None then s
      else s\<lparr>th_runs_on := (th_runs_on s)(g := t)\<rparr>)"
| "thread_step inherits target (Go g succeeds) s =
     (if th_panicked s \<or> \<not> runnable g s then s else execute_step g (target g) succeeds (th_pc s g) s)"
| "thread_step inherits target (Act g) s =
     (if th_panicked s \<or> \<not> runnable g s then s else callback_acts g s)"

definition thread_run :: "bool \<Rightarrow> (nat \<Rightarrow> nat) \<Rightarrow> thread_action list \<Rightarrow> threads \<Rightarrow> threads" where
  "thread_run inherits target acts s = fold (thread_step inherits target) acts s"

text \<open>The program starts with one thread, in the namespace of the host.\<close>

definition threads_at_start :: "nat \<Rightarrow> threads" where
  "threads_at_start host =
     \<lparr>th_made = 1, th_namespace = (\<lambda>_. host), th_locked = (\<lambda>_. None), th_runs_on = (\<lambda>_. 0),
      th_pc = (\<lambda>_. AtLock), th_calls = [], th_panicked = False\<rparr>"

section \<open>Every callback runs where it should, and no thread is lost\<close>

text \<open>Where a goroutine's thread is, by the place the goroutine has reached.\<close>

fun at_home :: "nat \<Rightarrow> nat \<Rightarrow> execute_pc \<Rightarrow> nat \<Rightarrow> bool" where
  "at_home host target (AtEnter original) n \<longleftrightarrow> n = host \<and> original = host"
| "at_home host target (InCallback original) n \<longleftrightarrow> n = target \<and> original = host"
| "at_home host target _ n \<longleftrightarrow> n = host"

definition threads_ok :: "nat \<Rightarrow> (nat \<Rightarrow> nat) \<Rightarrow> threads \<Rightarrow> bool" where
  "threads_ok host target s \<longleftrightarrow>
     (\<forall>t < th_made s. th_locked s t = None \<longrightarrow> th_namespace s t = host) \<and>
     (\<forall>t g. th_locked s t = Some g \<longrightarrow> th_runs_on s g = t \<and> t < th_made s) \<and>
     (\<forall>g. locked_goroutine g s \<longleftrightarrow> th_pc s g \<noteq> AtLock \<and> th_pc s g \<noteq> Executed) \<and>
     (\<forall>g. locked_goroutine g s \<longrightarrow> at_home host (target g) (th_pc s g) (th_namespace s (th_runs_on s g))) \<and>
     (\<forall>(g, n) \<in> set (th_calls s). n = target g)"

lemma threads_ok_start: "threads_ok host target (threads_at_start host)"
  by (simp add: threads_ok_def threads_at_start_def locked_goroutine_def)

lemmas thread_defs = lock_os_thread_def unlock_os_thread_def set_ns_of_thread_def at_pc_def runnable_def
  callback_acts_def locked_goroutine_def

lemma threads_okI:
  assumes "\<And>t. \<lbrakk>t < th_made s; th_locked s t = None\<rbrakk> \<Longrightarrow> th_namespace s t = host"
    and "\<And>t g. th_locked s t = Some g \<Longrightarrow> th_runs_on s g = t \<and> t < th_made s"
    and "\<And>g. th_locked s (th_runs_on s g) = Some g \<longleftrightarrow> th_pc s g \<noteq> AtLock \<and> th_pc s g \<noteq> Executed"
    and "\<And>g. th_locked s (th_runs_on s g) = Some g \<Longrightarrow>
      at_home host (target g) (th_pc s g) (th_namespace s (th_runs_on s g))"
    and "\<And>g n. (g, n) \<in> set (th_calls s) \<Longrightarrow> n = target g"
  shows "threads_ok host target s"
  unfolding threads_ok_def locked_goroutine_def
proof (intro conjI allI impI ballI)
  fix x assume "x \<in> set (th_calls s)"
  moreover obtain g n where "x = (g, n)" by force
  ultimately show "case x of (g, n) \<Rightarrow> n = target g" using assms(5) by simp
qed (simp_all add: assms)

lemma threads_okD:
  assumes "threads_ok host target s"
  shows "\<lbrakk>t < th_made s; th_locked s t = None\<rbrakk> \<Longrightarrow> th_namespace s t = host"
    and "th_locked s t = Some g \<Longrightarrow> th_runs_on s g = t"
    and "th_locked s t = Some g \<Longrightarrow> t < th_made s"
    and "th_locked s (th_runs_on s g) = Some g \<longleftrightarrow> th_pc s g \<noteq> AtLock \<and> th_pc s g \<noteq> Executed"
    and "th_locked s (th_runs_on s g) = Some g \<Longrightarrow>
      at_home host (target g) (th_pc s g) (th_namespace s (th_runs_on s g))"
    and "(g, n) \<in> set (th_calls s) \<Longrightarrow> n = target g"
  using assms unfolding threads_ok_def locked_goroutine_def by blast+


lemma threads_ok_move:
  assumes ok: "threads_ok host target s" and at: "th_pc s g \<noteq> AtLock" "th_pc s g \<noteq> Executed"
    and pc: "pc \<noteq> AtLock" "pc \<noteq> Executed" and home: "at_home host (target g) pc n"
  shows "threads_ok host target (at_pc g pc (set_ns_of_thread g n s))"
  unfolding at_pc_def set_ns_of_thread_def
proof (rule threads_okI, goal_cases)
  case (1 t)
  moreover have mine: "th_locked s (th_runs_on s g) = Some g" using threads_okD(4) [OF ok] at by blast
  ultimately show ?case using threads_okD(1) [OF ok] by auto
next
  case (2 t h)
  then show ?case using threads_okD(2,3) [OF ok] by simp
next
  case (3 h)
  then show ?case using threads_okD(4) [OF ok] at pc by simp
next
  case (4 h)
  moreover have mine: "th_locked s (th_runs_on s g) = Some g" using threads_okD(4) [OF ok] at by blast
  ultimately show ?case using home threads_okD(5) [OF ok, of h] by auto
next
  case (5 h n)
  then show ?case using threads_okD(6) [OF ok] by simp
qed

lemma threads_ok_go_on:
  assumes "threads_ok host target s" "th_pc s g \<noteq> AtLock" "th_pc s g \<noteq> Executed"
    and "pc \<noteq> AtLock" "pc \<noteq> Executed" "at_home host (target g) pc (th_namespace s (th_runs_on s g))"
  shows "threads_ok host target (at_pc g pc s)"
  using threads_ok_move [OF assms] by (simp add: at_pc_def set_ns_of_thread_def)

lemma threads_ok_lock:
  assumes ok: "threads_ok host target s" and at: "th_pc s g = AtLock \<or> th_pc s g = Executed"
    and free: "th_locked s (th_runs_on s g) = None" "th_runs_on s g < th_made s"
  shows "threads_ok host target (at_pc g AtOpen (lock_os_thread g s))"
proof (rule threads_okI, goal_cases)
  case (1 t)
  then show ?case using threads_okD(1) [OF ok] by (simp add: thread_defs split: if_splits)
next
  case (2 t h)
  then show ?case using threads_okD(2,3) [OF ok] free by (auto simp: thread_defs split: if_splits)
next
  case (3 h)
  then show ?case using threads_okD(4) [OF ok, of h] free by (auto simp: thread_defs)
next
  case (4 h)
  then show ?case
    using threads_okD(5) [OF ok, of h] threads_okD(1) [OF ok free(2,1)]
    by (cases "h = g") (simp_all add: thread_defs split: if_splits)
next
  case (5 h n)
  then show ?case using threads_okD(6) [OF ok] by (simp add: thread_defs)
qed

lemma threads_ok_unlock:
  assumes ok: "threads_ok host target s" and at: "th_pc s g = AtUnlock"
  shows "threads_ok host target (at_pc g Executed (unlock_os_thread g s))"
proof -
  have mine: "th_locked s (th_runs_on s g) = Some g" using threads_okD(4) [OF ok] at by simp
  then have home: "th_namespace s (th_runs_on s g) = host" using threads_okD(5) [OF ok mine] at by simp
  show ?thesis
  proof (rule threads_okI, goal_cases)
    case (1 t)
    then show ?case using threads_okD(1) [OF ok] home by (simp add: thread_defs split: if_splits)
  next
    case (2 t h)
    then show ?case using threads_okD(2,3) [OF ok] by (simp add: thread_defs split: if_splits)
  next
    case (3 h)
    then show ?case using threads_okD(4) [OF ok, of h] mine by (auto simp: thread_defs)
  next
    case (4 h)
    then show ?case using threads_okD(5) [OF ok, of h] mine by (auto simp: thread_defs split: if_splits)
  next
    case (5 h n)
    then show ?case using threads_okD(6) [OF ok] by (simp add: thread_defs)
  qed
qed

lemma threads_ok_go:
  assumes ok: "threads_ok host target s" and run: "runnable g s"
  shows "threads_ok host target (execute_step g (target g) succeeds (th_pc s g) s)"
proof (cases "th_pc s g = AtLock \<or> th_pc s g = Executed")
  case True
  then have "th_locked s (th_runs_on s g) = None" "th_runs_on s g < th_made s"
    using run threads_okD(4) [OF ok, of g] by (auto simp: runnable_def locked_goroutine_def)
  with True ok show ?thesis by (auto simp: threads_ok_lock)
next
  case False
  then have "at_home host (target g) (th_pc s g) (th_namespace s (th_runs_on s g))"
    using threads_okD(4,5) [OF ok] by blast
  moreover have "threads_ok host target (s\<lparr>th_panicked := True\<rparr>)"
    using ok by (simp add: threads_ok_def locked_goroutine_def)
  ultimately show ?thesis
    using False ok by (cases "th_pc s g") (auto simp: threads_ok_move threads_ok_go_on threads_ok_unlock)
qed

lemma threads_ok_step:
  assumes ok: "threads_ok host target s"
  shows "threads_ok host target (thread_step False target a s)"
proof (cases a)
  case (MakeThread t)
  have "threads_ok host target (s\<lparr>th_made := th_made s + 1, th_namespace := (th_namespace s)(th_made s := th_namespace s t),
      th_locked := (th_locked s)(th_made s := None)\<rparr>)" if "t < th_made s" "th_locked s t = None"
  proof (rule threads_okI, goal_cases)
    case (1 u)
    then show ?case using threads_okD(1) [OF ok] that by (auto simp: less_Suc_eq)
  next
    case (2 u h)
    then show ?case using threads_okD(2,3) [OF ok, of u h] by (simp split: if_splits)
  next
    case (3 h)
    then show ?case using threads_okD(4) [OF ok, of h] threads_okD(3) [OF ok, of "th_runs_on s h" h] by auto
  next
    case (4 h)
    then show ?case using threads_okD(5) [OF ok, of h] by (simp split: if_splits)
  next
    case (5 h n)
    then show ?case using threads_okD(6) [OF ok] by simp
  qed
  with MakeThread ok show ?thesis by simp
next
  case (Schedule g t)
  have "threads_ok host target (s\<lparr>th_runs_on := (th_runs_on s)(g := t)\<rparr>)"
    if "\<not> locked_goroutine g s" "th_locked s t = None"
  proof (rule threads_okI, goal_cases)
    case (1 u)
    then show ?case using threads_okD(1) [OF ok] by simp
  next
    case (2 u h)
    then show ?case using threads_okD(2,3) [OF ok, of u h] that by (auto simp: locked_goroutine_def)
  next
    case (3 h)
    then show ?case using threads_okD(4) [OF ok, of h] that by (auto simp: locked_goroutine_def)
  next
    case (4 h)
    then show ?case using threads_okD(5) [OF ok, of h] that by (simp split: if_splits)
  next
    case (5 h n)
    then show ?case using threads_okD(6) [OF ok] by simp
  qed
  with Schedule ok show ?thesis by simp
next
  case (Go g succeeds)
  then show ?thesis using ok threads_ok_go by simp
next
  case (Act g)
  have "th_namespace s (th_runs_on s g) = target g" if "th_pc s g = InCallback original" for original
    using that threads_okD(4,5) [OF ok, of g] by simp
  then have "threads_ok host target (callback_acts g s)"
    using ok by (auto simp: threads_ok_def locked_goroutine_def callback_acts_def split: execute_pc.split)
  with Act ok show ?thesis by simp
qed

lemma threads_ok_run: "threads_ok host target s \<Longrightarrow> threads_ok host target (thread_run False target acts s)"
  by (induction acts arbitrary: s) (simp_all add: thread_run_def threads_ok_step)

text \<open>
  C24: Under every scheduling of any number of \<open>Execute\<close> calls, what a callback does happens in the
  namespace of its call, and a thread that no goroutine has locked is in the namespace of the host.  The Go
  runtime must not make threads from locked ones (Go 1.10 and later).
\<close>

theorem callbacks_stay_in_their_namespaces:
  assumes "s = thread_run False target acts (threads_at_start host)"
  shows "(\<forall>(g, n) \<in> set (th_calls s). n = target g) \<and>
    (\<forall>t < th_made s. th_locked s t = None \<longrightarrow> th_namespace s t = host)"
  using threads_ok_run [OF threads_ok_start, of host target acts] assms
  unfolding threads_ok_def by blast

text \<open>Two calls at once; the first has returned, the second is in its callback.\<close>

definition two_calls :: "thread_action list" where
  "two_calls =
     [MakeThread 0, Go 0 True, Go 0 True, Go 0 True, Schedule 1 1, Go 1 True, Go 1 True, Go 1 True,
      Act 1, Act 0, Go 0 True, Go 0 True]"

lemma callbacks_stay_in_their_namespaces_witness:
  "th_calls (thread_run False (\<lambda>g. g + 7) two_calls (threads_at_start 5)) = [(0, 7), (1, 8)] \<and>
   th_namespace (thread_run False (\<lambda>g. g + 7) two_calls (threads_at_start 5)) 1 = 8 \<and>
   th_namespace (thread_run False (\<lambda>g. g + 7) two_calls (threads_at_start 5)) 0 = 5"
proof -
  have run: "th_calls (thread_run False (\<lambda>g. g + 7) two_calls (threads_at_start 5)) = [(0, 7), (1, 8)]"
    "th_namespace (thread_run False (\<lambda>g. g + 7) two_calls (threads_at_start 5)) 1 = 8"
    "0 < th_made (thread_run False (\<lambda>g. g + 7) two_calls (threads_at_start 5))"
    "th_locked (thread_run False (\<lambda>g. g + 7) two_calls (threads_at_start 5)) 0 = None"
    by (simp_all add: two_calls_def thread_run_def threads_at_start_def thread_defs)
  then show ?thesis
    using callbacks_stay_in_their_namespaces [OF refl, of "\<lambda>g. g + 7" two_calls 5] by simp
qed

section \<open>Threads that inherit a namespace\<close>

text \<open>
  With Go up to 1.9 a thread that the runtime makes while a goroutine is in a namespace starts there and
  stays there, unlocked: the next call that is run on it takes that namespace for the host's, and
  everything outside of \<open>Execute\<close> that is run on it happens in the namespace of the sandbox.
\<close>

lemma inherited_namespace_is_never_left:
  defines "s \<equiv> thread_run True (\<lambda>g. g + 7)
      [Go 0 True, Go 0 True, Go 0 True, MakeThread 0, Go 0 True, Go 0 True,
       Schedule 1 1, Go 1 True, Go 1 True, Go 1 True, Go 1 True, Go 1 True] (threads_at_start 5)"
  shows "th_pc s 0 = Executed" "th_pc s 1 = Executed" "th_made s = 2" "th_locked s 1 = None" "th_namespace s 1 = 7"
  unfolding s_def
  by (simp_all add: thread_run_def threads_at_start_def thread_defs)

end
