(* ===== verification/Sandboxes.thy ===== *)
theory Sandboxes
  imports Watcher_Props
begin

text \<open>
  Sandboxes (\<open>sandbox/sandbox.go\<close>) and their repository (\<open>sandbox/repository.go\<close>), with the
  mutexes of both, and the reloader (\<open>reloader/reloader.go\<close>) that restarts the monitors.
\<close>

section \<open>State\<close>

text \<open>A \<open>NetworkSandbox\<close>; the objects are shared by pointer, so they live in a heap.\<close>

record sandbox =
  sb_namespace :: go_file
  sb_locked :: bool
  sb_dns :: "nat option"
  sb_destroyed :: bool

type_synonym sandbox_ref = nat

record 'k sandbox_world = "'k watch_world" +
  sandboxes :: "string \<rightharpoonup> sandbox_ref"
  objects :: "sandbox list"
  repo_locked :: bool

definition the_sandbox :: "sandbox_ref \<Rightarrow> ('k, 'z) sandbox_world_scheme \<Rightarrow> sandbox" where
  "the_sandbox r s = objects s ! r"

definition update_sandbox ::
  "sandbox_ref \<Rightarrow> (sandbox \<Rightarrow> sandbox) \<Rightarrow> ('k, 'z) sandbox_world_scheme \<Rightarrow> ('k, 'z) sandbox_world_scheme" where
  "update_sandbox r f s = s\<lparr>objects := (objects s)[r := f (objects s ! r)]\<rparr>"

text \<open>\<open>Lock(); defer Unlock()\<close>: locking a mutex that the same goroutine holds blocks for ever.\<close>

definition with_repo_lock ::
  "(('k, 'z) sandbox_world_scheme, 'a) prog \<Rightarrow> (('k, 'z) sandbox_world_scheme, 'a) prog" where
  "with_repo_lock m s =
     (if repo_locked s then deadlock s
      else deferring (\<lambda>t. t\<lparr>repo_locked := False\<rparr>) m (s\<lparr>repo_locked := True\<rparr>))"

definition with_sandbox_lock ::
  "sandbox_ref \<Rightarrow> (('k, 'z) sandbox_world_scheme, 'a) prog \<Rightarrow> (('k, 'z) sandbox_world_scheme, 'a) prog" where
  "with_sandbox_lock r m s =
     (if sb_locked (the_sandbox r s) then deadlock s
      else deferring (update_sandbox r (\<lambda>b. b\<lparr>sb_locked := False\<rparr>)) m
             (update_sandbox r (\<lambda>b. b\<lparr>sb_locked := True\<rparr>) s))"

section \<open>The sandbox\<close>

definition sandbox_new :: "go_file \<Rightarrow> (('k, 'z) sandbox_world_scheme, sandbox_ref) prog" where
  "sandbox_new ns s =
     (Ok (length (objects s)),
      s\<lparr>objects := objects s @ [\<lparr>sb_namespace = ns, sb_locked = False, sb_dns = None, sb_destroyed = False\<rparr>]\<rparr>)"

definition sandbox_namespace :: "sandbox_ref \<Rightarrow> (('k, 'z) sandbox_world_scheme, go_file) prog" where
  "sandbox_namespace r = gets (\<lambda>s. sb_namespace (the_sandbox r s))"

definition sandbox_setup :: "'k os \<Rightarrow> sandbox_ref \<Rightarrow> (('k, 'z) sandbox_world_scheme, unit) prog" where
  "sandbox_setup os r =
     bind_err (sandbox_namespace r) (\<lambda>ns.
     bind_wrap ''setup failed''
       (ns_execute os ns (\<lambda>_. bind_wrap ''set link up'' (set_up os ''lo'') (\<lambda>_. ret ())))
       (\<lambda>_. ret ()))"

text \<open>The channel of \<open>Wait\<close> is polled once, right after the start.\<close>

definition launch_dns :: "'k os \<Rightarrow> sandbox_ref \<Rightarrow> dns_runner \<Rightarrow> (('k, 'z) sandbox_world_scheme, unit) prog" where
  "launch_dns os r runner =
     bind_err (sys_do (os_invoke os runner)) (\<lambda>p.
     bind_err (modify (update_sandbox r (\<lambda>b. b\<lparr>sb_dns := Some p\<rparr>))) (\<lambda>_.
     bind_err (gets (\<lambda>s. os_exited os p (kernel s))) (\<lambda>exited.
     case exited of
       None \<Rightarrow> ret ()
     | Some None \<Rightarrow> fail (wrapf ''launch dns'' (Errorf ''unexpected server exit''))
     | Some (Some e) \<Rightarrow> fail (wrapf ''launch dns'' e))))"

text \<open>The callback keeps its error in a variable and returns \<open>nil\<close>.\<close>

definition sandbox_veth_count :: "'k os \<Rightarrow> sandbox_ref \<Rightarrow> (('k, 'z) sandbox_world_scheme, nat) prog" where
  "sandbox_veth_count os r =
     bind_err (sandbox_namespace r) (\<lambda>ns.
     bind_wrap ''namespace execute''
       (ns_execute os ns (\<lambda>_. attempt (veth_device_count os) (\<lambda>e. ret (Inl e)) (\<lambda>n. ret (Inr n))))
       (\<lambda>result. bind_wrap ''veth device count'' (pick result) ret))"

definition teardown :: "'k os \<Rightarrow> sandbox_ref \<Rightarrow> (('k, 'z) sandbox_world_scheme, unit) prog" where
  "teardown os r =
     bind_err (gets (the_sandbox r)) (\<lambda>b.
     if sb_destroyed b then fail (Sentinel AlreadyDestroyedError)
     else
       bind_wrap ''stop monitor'' (stop_monitor (sb_namespace b)) (\<lambda>_.
       bind_err
         (case sb_dns b of None \<Rightarrow> ret () | Some p \<Rightarrow> sys_do (\<lambda>k. ((), os_kill os p k))) (\<lambda>_.
       modify (update_sandbox r (\<lambda>b. b\<lparr>sb_destroyed := True\<rparr>)))))"

section \<open>The repository\<close>

text \<open>
  \<open>root\<close> is the directory of the namespace repository.  \<open>filepath.Walk\<close> calls back for the
  directory itself first and stops at the first error.
\<close>

fun load_files :: "'k os \<Rightarrow> string \<Rightarrow> string \<Rightarrow> string list \<Rightarrow> (('k, 'z) sandbox_world_scheme, unit) prog" where
  "load_files os root dir [] = ret ()"
| "load_files os root dir (p # ps) =
     (if dir = p then load_files os root dir ps
      else
        bind_wrap ''loading sandbox repo'' (repo_get os root (path_base p)) (\<lambda>ns.
        bind_err (sandbox_new ns) (\<lambda>r.
        bind_err (modify (\<lambda>s. s\<lparr>sandboxes := (sandboxes s)(path_base p \<mapsto> r)\<rparr>)) (\<lambda>_.
        load_files os root dir ps))))"

definition sandboxes_load :: "'k os \<Rightarrow> string \<Rightarrow> string \<Rightarrow> (('k, 'z) sandbox_world_scheme, unit) prog" where
  "sandboxes_load os root dir =
     with_repo_lock (\<lambda>s. load_files os root dir (os_walk os dir (kernel s)) s)"

text \<open>
  Go visits a map in an order of its own: \<open>names\<close> lists the keys in that order.
\<close>

fun for_each_sandbox ::
  "(go_file \<Rightarrow> (('k, 'z) sandbox_world_scheme, unit) prog) \<Rightarrow> string list \<Rightarrow> (('k, 'z) sandbox_world_scheme, unit) prog" where
  "for_each_sandbox callback [] = ret ()"
| "for_each_sandbox callback (n # ns) =
     bind_err (gets (\<lambda>s. sandboxes s n)) (\<lambda>ref.
     case ref of
       None \<Rightarrow> for_each_sandbox callback ns
     | Some r \<Rightarrow>
         bind_err (sandbox_namespace r) (\<lambda>file.
         bind_wrap ''callback'' (callback file) (\<lambda>_. for_each_sandbox callback ns)))"

definition sandboxes_for_each ::
  "(go_file \<Rightarrow> (('k, 'z) sandbox_world_scheme, unit) prog) \<Rightarrow> string list \<Rightarrow> (('k, 'z) sandbox_world_scheme, unit) prog" where
  "sandboxes_for_each callback names = with_repo_lock (for_each_sandbox callback names)"

definition sandboxes_create :: "'k os \<Rightarrow> string \<Rightarrow> string \<Rightarrow> (('k, 'z) sandbox_world_scheme, sandbox_ref) prog" where
  "sandboxes_create os root name =
     with_repo_lock (
       bind_err (gets (\<lambda>s. sandboxes s name)) (\<lambda>exists.
       if exists \<noteq> None then fail (Sentinel AlreadyExistsError)
       else
         bind_wrap ''create namespace'' (repo_create os root name) (\<lambda>ns.
         bind_err (sandbox_new ns) (\<lambda>r.
         bind_err (modify (\<lambda>s. s\<lparr>sandboxes := (sandboxes s)(name \<mapsto> r)\<rparr>)) (\<lambda>_.
         bind_wrap ''setup sandbox'' (sandbox_setup os r) (\<lambda>_. ret r))))))"

definition get_unlocked :: "string \<Rightarrow> (('k, 'z) sandbox_world_scheme, sandbox_ref) prog" where
  "get_unlocked name s =
     (case sandboxes s name of None \<Rightarrow> (Err (Sentinel NotFoundError), s) | Some r \<Rightarrow> (Ok r, s))"

definition sandboxes_get :: "string \<Rightarrow> (('k, 'z) sandbox_world_scheme, sandbox_ref) prog" where
  "sandboxes_get name = with_repo_lock (get_unlocked name)"

definition sandboxes_destroy :: "'k os \<Rightarrow> string \<Rightarrow> string \<Rightarrow> (('k, 'z) sandbox_world_scheme, unit) prog" where
  "sandboxes_destroy os root name =
     with_repo_lock (
       bind_err (get_unlocked name) (\<lambda>r.
       bind_wrap ''teardown'' (teardown os r) (\<lambda>_.
       bind_err (sandbox_namespace r) (\<lambda>ns.
       bind_wrap ''namespace destroy'' (repo_destroy os root ns) (\<lambda>_.
       modify (\<lambda>s. s\<lparr>sandboxes := (sandboxes s)(name := None)\<rparr>))))))"

section \<open>The reloader\<close>

text \<open>The comparison is with the full name, not with its last element.\<close>

definition get_vxlan_name :: "string \<Rightarrow> goerror + string" where
  "get_vxlan_name ns_name =
     (let s = trim_prefix (path_base ns_name) ''vni-''
      in if s = ns_name then Inl (Errorf ''not a valid sandbox name'') else Inr (''vxlan'' @ s))"

definition reloader_callback :: "'k os \<Rightarrow> go_file \<Rightarrow> (('k, 'z) watch_world_scheme, unit) prog" where
  "reloader_callback os ns =
     bind_wrap ''get vxlan name'' (pick (get_vxlan_name (file_name ns))) (\<lambda>vxlan.
     bind_wrap ''start monitor'' (start_monitor os ns vxlan) (\<lambda>_. ret ()))"

section \<open>Evaluation\<close>

lemma with_repo_lock_free:
  "\<not> repo_locked s \<Longrightarrow>
   with_repo_lock m s = deferring (\<lambda>t. t\<lparr>repo_locked := False\<rparr>) m (s\<lparr>repo_locked := True\<rparr>)"
  by (simp add: with_repo_lock_def)

lemma sandboxes_get_eval:
  "\<not> repo_locked s \<Longrightarrow>
   sandboxes_get name s = (case sandboxes s name of None \<Rightarrow> Err (Sentinel NotFoundError) | Some r \<Rightarrow> Ok r, s)"
  by (simp add: sandboxes_get_def with_repo_lock_def deferring_def get_unlocked_def split: option.split)

end
