(* ===== verification/Locks.thy ===== *)
theory Locks
  imports Sandboxes
begin

text \<open>
  Lock discipline: a calculus of programs that never block on a mutex of the daemon and leave
  every mutex as they found it.
\<close>

section \<open>Settled states\<close>

definition registered :: "('k, 'z) sandbox_world_scheme \<Rightarrow> bool" where
  "registered s \<longleftrightarrow> (\<forall>n r. sandboxes s n = Some r \<longrightarrow> r < length (objects s))"

text \<open>After a call the mutexes are as before, but for new sandboxes, which are unlocked.\<close>

definition settled :: "('k, 'z) sandbox_world_scheme \<Rightarrow> ('k, 'z) sandbox_world_scheme \<Rightarrow> bool" where
  "settled s t \<longleftrightarrow>
     repo_locked t = repo_locked s \<and>
     (\<exists>l. map sb_locked (objects t) = map sb_locked (objects s) @ replicate l False) \<and>
     (registered s \<longrightarrow> registered t)"

lemma settled_refl [simp]: "settled s s"
  by (auto simp: settled_def intro: exI [of _ 0])

lemma settled_trans:
  assumes "settled s t" "settled t u"
  shows "settled s u"
proof -
  obtain l l' where "map sb_locked (objects t) = map sb_locked (objects s) @ replicate l False"
    "map sb_locked (objects u) = map sb_locked (objects t) @ replicate l' False"
    using assms by (auto simp: settled_def)
  then have "map sb_locked (objects u) = map sb_locked (objects s) @ replicate (l + l') False"
    by (simp add: replicate_add)
  with assms show ?thesis by (auto simp: settled_def)
qed

lemma settled_same:
  assumes "repo_locked t = repo_locked s" "objects t = objects s" "sandboxes t = sandboxes s"
  shows "settled s t"
  using assms by (auto simp: settled_def registered_def intro: exI [of _ 0])

definition lock_stable :: "(('k, 'z) sandbox_world_scheme \<Rightarrow> bool) \<Rightarrow> bool" where
  "lock_stable P \<longleftrightarrow> (\<forall>s t. P s \<and> settled s t \<longrightarrow> P t)"

text \<open>No mutex of the repository is held; no mutex at all is held.\<close>

definition repo_free :: "('k, 'z) sandbox_world_scheme \<Rightarrow> bool" where
  "repo_free s \<longleftrightarrow> \<not> repo_locked s \<and> registered s"

definition all_free :: "('k, 'z) sandbox_world_scheme \<Rightarrow> bool" where
  "all_free s \<longleftrightarrow> repo_free s \<and> True \<notin> set (map sb_locked (objects s))"

lemma stable_repo_free: "lock_stable repo_free"
  by (auto simp: lock_stable_def repo_free_def settled_def)

lemma stable_all_free: "lock_stable all_free"
  unfolding lock_stable_def all_free_def settled_def repo_free_def by (clarsimp simp del: set_map)

lemma stable_True: "lock_stable (\<lambda>_. True)"
  by (simp add: lock_stable_def)

lemma stable_registered: "lock_stable registered"
  by (simp add: lock_stable_def settled_def)

section \<open>The calculus\<close>

definition lock_safe :: "(('k, 'z) sandbox_world_scheme \<Rightarrow> bool) \<Rightarrow> (('k, 'z) sandbox_world_scheme, 'a) prog \<Rightarrow> bool" where
  "lock_safe P m \<longleftrightarrow> (\<forall>s. P s \<longrightarrow> fst (m s) \<noteq> Abort Deadlock \<and> settled s (snd (m s)))"

named_theorems lock_intros \<open>programs that keep the lock discipline\<close>

lemma lock_safeI:
  "(\<And>s. P s \<Longrightarrow> fst (m s) \<noteq> Abort Deadlock \<and> settled s (snd (m s))) \<Longrightarrow> lock_safe P m"
  by (simp add: lock_safe_def)

lemma lock_safeD:
  "lock_safe P m \<Longrightarrow> P s \<Longrightarrow> m s = (r, t) \<Longrightarrow> r \<noteq> Abort Deadlock \<and> settled s t"
  unfolding lock_safe_def by (metis fst_conv snd_conv)

lemma lock_safe_weaken: "lock_safe Q m \<Longrightarrow> (\<And>s. P s \<Longrightarrow> Q s) \<Longrightarrow> lock_safe P m"
  by (simp add: lock_safe_def)

lemma lock_safe_basic [lock_intros]:
  "lock_safe P (ret x)" "lock_safe P (fail e)" "lock_safe P (panic t)" "lock_safe P (pick p)"
  "lock_safe P (gets g)" "lock_safe P (sys f)" "lock_safe P (sys_do h)"
  by (rule lock_safeI; simp add: ret_def fail_def panic_def pick_def gets_def sys_def sys_do_def settled_same
      split: sum.split prod.split)+

lemma lock_safe_modify:
  "(\<And>s. settled s (f s)) \<Longrightarrow> lock_safe P (modify f)"
  by (simp add: lock_safe_def modify_def)

lemma lock_safe_attempt [lock_intros]:
  assumes "lock_stable P" "lock_safe P m" "\<And>e. lock_safe P (h e)" "\<And>x. lock_safe P (k x)"
  shows "lock_safe P (attempt m h k)"
proof (rule lock_safeI)
  fix s assume "P s"
  obtain r t where mt: "m s = (r, t)" by fastforce
  with assms(2) \<open>P s\<close> have t: "r \<noteq> Abort Deadlock" "settled s t"
    by (auto dest: lock_safeD)
  with assms(1) \<open>P s\<close> have "P t" unfolding lock_stable_def by blast
  show "fst (attempt m h k s) \<noteq> Abort Deadlock \<and> settled s (snd (attempt m h k s))"
  proof (cases r)
    case (Ok x)
    obtain q u where k: "k x t = (q, u)" by fastforce
    with lock_safeD [OF assms(4) \<open>P t\<close>] have "q \<noteq> Abort Deadlock" "settled t u" by blast+
    with mt Ok k t show ?thesis by (auto simp: attempt_eval intro: settled_trans)
  next
    case (Err e)
    obtain q u where h: "h e t = (q, u)" by fastforce
    with lock_safeD [OF assms(3) \<open>P t\<close>] have "q \<noteq> Abort Deadlock" "settled t u" by blast+
    with mt Err h t show ?thesis by (auto simp: attempt_eval intro: settled_trans)
  next
    case (Abort a)
    with mt t show ?thesis by (simp add: attempt_eval)
  qed
qed

lemma lock_safe_bind [lock_intros]:
  "lock_stable P \<Longrightarrow> lock_safe P m \<Longrightarrow> (\<And>x. lock_safe P (k x)) \<Longrightarrow> lock_safe P (bind_wrap p m k)"
  "lock_stable P \<Longrightarrow> lock_safe P m \<Longrightarrow> (\<And>x. lock_safe P (k x)) \<Longrightarrow> lock_safe P (bind_err m k)"
  by (simp_all add: bind_wrap_def bind_err_def lock_intros)

lemma lock_safe_nl [lock_intros]:
  "lock_safe P (nl_link_add os l)" "lock_safe P (nl_link_set_up os l)" "lock_safe P (nl_link_by_name os name)"
  "lock_safe P (nl_link_set_ns_fd os l fd)" "lock_safe P (nl_addr_add os l a)"
  "lock_safe P (nl_link_set_master os l m)" "lock_safe P (nl_route_add os r)" "lock_safe P (nl_link_del os l)"
  "lock_safe P (nl_link_list os)" "lock_safe P (nl_subscribe os)" "lock_safe P (nl_set_neigh os n)"
  by (simp_all add: nl_defs lock_intros)

lemma lock_safe_dependent:
  assumes "\<And>x. lock_safe P (m x)"
  shows "lock_safe P (\<lambda>s. m (g s) s)"
  using assms unfolding lock_safe_def by blast

lemma lock_safe_if [lock_intros]:
  "(b \<Longrightarrow> lock_safe P m) \<Longrightarrow> (\<not> b \<Longrightarrow> lock_safe P n) \<Longrightarrow> lock_safe P (if b then m else n)"
  by simp

lemma lock_safe_deferring:
  assumes "lock_safe P m" "\<And>s. settled s (d s)"
  shows "lock_safe P (deferring d m)"
proof (rule lock_safeI)
  fix s assume "P s"
  obtain r t where "m s = (r, t)" by fastforce
  with lock_safeD [OF assms(1) \<open>P s\<close>] assms(2)
  show "fst (deferring d m s) \<noteq> Abort Deadlock \<and> settled s (snd (deferring d m s))"
    by (auto simp: deferring_def intro: settled_trans)
qed

lemma lock_safe_restoring:
  assumes "lock_stable P" "lock_safe P m" "lock_safe P d"
  shows "lock_safe P (restoring d m)"
proof (rule lock_safeI)
  fix s assume "P s"
  obtain r t where mt: "m s = (r, t)" by fastforce
  with lock_safeD [OF assms(2) \<open>P s\<close>] have t: "r \<noteq> Abort Deadlock" "settled s t" by blast+
  with assms(1) \<open>P s\<close> have "P t" unfolding lock_stable_def by blast
  obtain q u where du: "d t = (q, u)" by fastforce
  with lock_safeD [OF assms(3) \<open>P t\<close>] have "q \<noteq> Abort Deadlock" "settled t u" by blast+
  with mt t du show "fst (restoring d m s) \<noteq> Abort Deadlock \<and> settled s (snd (restoring d m s))"
    by (auto simp: restoring_def intro: settled_trans split: outcome.split)
qed

lemma lock_safe_ns_execute [lock_intros]:
  assumes "lock_stable P" "\<And>f. lock_safe P (callback f)"
  shows "lock_safe P (ns_execute os ns callback)"
proof -
  have "lock_safe P (\<lambda>s. sys (os_open os (task_namespace_path os (kernel s))) s)"
    by (rule lock_safe_dependent) (rule lock_safe_basic)
  then show ?thesis
    unfolding ns_execute_def using assms
    by (intro lock_safe_bind lock_safe_deferring lock_safe_restoring lock_safe_basic)
       (auto simp: close_file_def intro!: settled_same)
qed

section \<open>The components keep it\<close>

lemma lock_safe_links [lock_intros]:
  assumes "lock_stable P"
  shows "lock_safe P (create_bridge os name)" "lock_safe P (create_dummy os name)"
    "lock_safe P (create_veth os name peer mtu)" "lock_safe P (create_vxlan os name vni)"
    "lock_safe P (link_exists os name)" "lock_safe P (delete_link_by_name os name)"
    "lock_safe P (hardware_address os name)" "lock_safe P (set_master os slave master)"
    "lock_safe P (set_namespace os name fd)" "lock_safe P (set_up os name)"
    "lock_safe P (veth_device_count os)" "lock_safe P (add_address os name a)"
    "lock_safe P (add_route os name n g)"
  using assms
  by (simp_all add: create_bridge_def create_dummy_def create_veth_def create_vxlan_def find_link_def
      link_exists_def delete_link_by_name_def hardware_address_def set_master_def set_namespace_def
      set_up_def veth_device_count_def add_address_def add_route_def lock_intros)

lemma lock_safe_namespaces [lock_intros]:
  assumes "lock_stable P"
  shows "lock_safe P (open_path os path)" "lock_safe P (repo_get os root name)"
    "lock_safe P (repo_create os root name)" "lock_safe P (repo_destroy os root ns)"
  using assms
  by (simp_all add: open_path_def repo_open_def repo_random_def repo_get_def unlink_network_namespace_def bind_mount_file_def
      repo_create_def repo_destroy_def lock_intros Let_def)

lemma lock_safe_store [lock_intros]:
  assumes "lock_stable P"
  shows "lock_safe P (store_create os c)" "lock_safe P (store_get os i)"
    "lock_safe P (store_all os)" "lock_safe P (store_delete os i)"
  using assms
  by (simp_all add: store_create_def store_get_def store_all_def store_delete_def lock_intros)

lemma lock_safe_start_monitor [lock_intros]:
  assumes "lock_stable P"
  shows "lock_safe P (start_monitor os ns vxlan)"
proof -
  have "lock_safe P (new_done_chan ns)"
    by (rule lock_safeI) (simp add: new_done_chan_def settled_same)
  with assms show ?thesis
    unfolding start_monitor_def start_arp_inserter_def subscribe_def find_vxlan_def
    by (intro lock_intros lock_safe_modify) (auto intro!: settled_same)
qed

lemma lock_safe_stop_monitor [lock_intros]: "lock_safe P (stop_monitor ns)"
  by (rule lock_safeI) (auto simp: stop_monitor_def close_chan_def intro!: settled_same split: option.split)

lemma settled_update:
  assumes "\<And>b. sb_locked (f b) = sb_locked b"
  shows "settled s (update_sandbox r f s)"
proof -
  have "map sb_locked ((objects s)[r := f (objects s ! r)]) = map sb_locked (objects s)"
    using assms by (simp add: map_update) (metis list_update_id map_update)
  then show ?thesis
    by (auto simp: settled_def update_sandbox_def registered_def intro: exI [of _ 0])
qed

lemma lock_safe_sandbox [lock_intros]:
  assumes "lock_stable P"
  shows "lock_safe P (sandbox_namespace r)" "lock_safe P (sandbox_setup os r)"
    "lock_safe P (launch_dns os r runner)" "lock_safe P (sandbox_veth_count os r)"
    "lock_safe P (teardown os r)"
proof -
  show ns: "lock_safe P (sandbox_namespace r)" for r
    by (simp add: sandbox_namespace_def lock_intros)
  show "lock_safe P (sandbox_setup os r)" "lock_safe P (sandbox_veth_count os r)"
    using assms by (simp_all add: sandbox_setup_def sandbox_veth_count_def ns lock_intros)
  show "lock_safe P (launch_dns os r runner)" "lock_safe P (teardown os r)"
    unfolding launch_dns_def teardown_def
    by (intro lock_intros assms lock_safe_modify settled_update; simp add: lock_intros split: option.split)+
qed

lemma lock_safe_sandbox_new [lock_intros]: "lock_safe P (sandbox_new ns)"
  by (rule lock_safeI)
     (auto simp: sandbox_new_def settled_def registered_def less_SucI intro: exI [of _ 1])

text \<open>A new sandbox is registered in the map.\<close>

lemma lock_safe_register:
  assumes rest: "\<And>r. lock_safe registered (k r)"
  shows "lock_safe registered (bind_err (sandbox_new ns) (\<lambda>r.
    bind_err (modify (\<lambda>s. s\<lparr>sandboxes := (sandboxes s)(n \<mapsto> r)\<rparr>)) (\<lambda>_. k r)))"
proof (rule lock_safeI)
  fix s :: "('a, 'b) sandbox_world_scheme"
  assume s: "registered s"
  let ?r = "length (objects s)"
  let ?t = "(snd (sandbox_new ns s))\<lparr>sandboxes := (sandboxes s)(n \<mapsto> ?r)\<rparr>"
  have t: "settled s ?t" "registered ?t"
    using s by (auto simp: sandbox_new_def settled_def registered_def less_SucI intro: exI [of _ 1])
  obtain q u where u: "k ?r ?t = (q, u)" by fastforce
  from lock_safeD [OF rest t(2) u] t(1) u
  show "fst (bind_err (sandbox_new ns) (\<lambda>r. bind_err (modify (\<lambda>s. s\<lparr>sandboxes := (sandboxes s)(n \<mapsto> r)\<rparr>)) (\<lambda>_. k r)) s)
        \<noteq> Abort Deadlock \<and>
      settled s (snd (bind_err (sandbox_new ns) (\<lambda>r.
        bind_err (modify (\<lambda>s. s\<lparr>sandboxes := (sandboxes s)(n \<mapsto> r)\<rparr>)) (\<lambda>_. k r)) s))"
    by (auto simp: sandbox_new_def bind_err_eval(1) modify_def intro: settled_trans)
qed

text \<open>Taking the repository's mutex, for a body that keeps the discipline while it is held.\<close>

lemma lock_safe_with_repo_lock:
  assumes body: "lock_safe registered m"
  shows "lock_safe repo_free (with_repo_lock m)"
proof (rule lock_safeI)
  fix s :: "('a, 'b) sandbox_world_scheme"
  assume s: "repo_free s"
  obtain r t where mt: "m (s\<lparr>repo_locked := True\<rparr>) = (r, t)" by fastforce
  have "registered (s\<lparr>repo_locked := True\<rparr>)"
    using s by (simp add: repo_free_def registered_def)
  from lock_safeD [OF body this mt] have t: "r \<noteq> Abort Deadlock" "settled (s\<lparr>repo_locked := True\<rparr>) t" by blast+
  from t(2) s have "settled s (t\<lparr>repo_locked := False\<rparr>)"
    by (simp add: settled_def registered_def repo_free_def)
  with s mt t(1) show "fst (with_repo_lock m s) \<noteq> Abort Deadlock \<and> settled s (snd (with_repo_lock m s))"
    by (simp add: with_repo_lock_def deferring_def repo_free_def)
qed

text \<open>Taking the mutex of a sandbox that is free.\<close>

lemma settled_locked:
  assumes "r < length (objects s)" "\<not> sb_locked (the_sandbox r s)"
    "settled (update_sandbox r (\<lambda>b. b\<lparr>sb_locked := True\<rparr>) s) t"
  shows "settled s (update_sandbox r (\<lambda>b. b\<lparr>sb_locked := False\<rparr>) t)"
proof -
  obtain l where l: "map sb_locked (objects t) = (map sb_locked (objects s))[r := True] @ replicate l False"
    using assms(3) by (auto simp: settled_def update_sandbox_def map_update)
  then have "map sb_locked ((objects t)[r := (objects t ! r)\<lparr>sb_locked := False\<rparr>]) =
      (map sb_locked (objects s))[r := False] @ replicate l False"
    using assms(1) by (simp add: map_update list_update_append1)
  also have "(map sb_locked (objects s))[r := False] = map sb_locked (objects s)"
    using assms(1,2) by (simp add: list_update_same_conv the_sandbox_def)
  finally show ?thesis
    using assms(3) by (auto simp: settled_def update_sandbox_def registered_def)
qed

lemma with_sandbox_lock_safe:
  assumes body: "lock_safe repo_free m"
    and s: "repo_free s" "r < length (objects s)" "\<not> sb_locked (the_sandbox r s)"
  shows "fst (with_sandbox_lock r m s) \<noteq> Abort Deadlock \<and> settled s (snd (with_sandbox_lock r m s))"
proof -
  let ?s = "update_sandbox r (\<lambda>b. b\<lparr>sb_locked := True\<rparr>) s"
  obtain q t where mt: "m ?s = (q, t)" by fastforce
  have "repo_free ?s"
    using s(1) by (simp add: repo_free_def registered_def update_sandbox_def)
  from lock_safeD [OF body this mt] have "q \<noteq> Abort Deadlock" "settled ?s t" by blast+
  with mt s settled_locked [of r s t] show ?thesis
    by (simp add: with_sandbox_lock_def deferring_def)
qed

lemma lock_safe_load_files: "lock_safe registered (load_files os root dir ps)"
proof (induction ps)
  case (Cons p ps)
  then show ?case
    by (cases "dir = p") (simp_all add: lock_intros lock_safe_register stable_registered)
qed (simp add: lock_intros)

lemma lock_safe_sandboxes [lock_intros]:
  "lock_safe repo_free (sandboxes_load os root dir)"
  "lock_safe repo_free (sandboxes_get name)"
  "lock_safe repo_free (sandboxes_create os root name)"
  "lock_safe repo_free (sandboxes_destroy os root name)"
proof -
  have get: "lock_safe registered (get_unlocked name)"
    by (rule lock_safeI) (simp add: get_unlocked_def split: option.split)
  show "lock_safe repo_free (sandboxes_load os root dir)"
    unfolding sandboxes_load_def
    by (rule lock_safe_with_repo_lock, rule lock_safe_dependent, rule lock_safe_load_files)
  show "lock_safe repo_free (sandboxes_get name)"
    unfolding sandboxes_get_def by (intro lock_safe_with_repo_lock get)
  show "lock_safe repo_free (sandboxes_destroy os root name)"
    unfolding sandboxes_destroy_def
    by (intro lock_safe_with_repo_lock lock_intros stable_registered get lock_safe_modify)
       (auto simp: settled_def registered_def intro: exI [of _ 0])
  show "lock_safe repo_free (sandboxes_create os root name)"
    unfolding sandboxes_create_def
    by (intro lock_safe_with_repo_lock lock_intros lock_safe_register stable_registered)
qed

end
