(* ===== verification/Commands.thy ===== *)
theory Commands
  imports Locks
begin

text \<open>
  The command language of package \<open>executor\<close>: conditions (\<open>executor/conditions\<close>), commands
  (\<open>executor/commands\<close>), their execution and their rendering, and the writer that sends DNS
  answers from the host's namespace (\<open>executor/namespace_writer.go\<close>).
\<close>

section \<open>Conditions and commands\<close>

datatype condition =
    SandboxExists string
  | LinkExists string

text \<open>The arguments are the fields of the source's structs, in their order.\<close>

datatype command =
    Group "command list"
  | Unless condition command
  | InNamespace go_file command
  | AddAddress string ip_net
  | AddRoute string ip_net ip
  | CleanupSandbox string string
  | CreateBridge string
  | CreateDummy string
  | CreateSandbox string
  | CreateVeth string string int
  | CreateVxlan string int
  | DeleteLink string
  | GetHardwareAddress string
  | MoveLink string string
  | SetLinkMaster string string
  | SetLinkUp string
  | StartDNSServer string string
  | StartMonitor go_file string string

text \<open>\<open>commands.All\<close>\<close>

definition All :: "command list \<Rightarrow> command" where
  "All cs = Group cs"

definition dns_interface_name :: string where
  "dns_interface_name = ''dns0''"

section \<open>Rendering\<close>

definition newline :: char where "newline = CHR 0x0A"

definition sandbox_exists_string :: "string \<Rightarrow> string" where
  "sandbox_exists_string n = ''check if sandbox '' @ [CHR 0x22] @ n @ [CHR 0x22] @ '' exists''"

definition link_exists_string :: "string \<Rightarrow> string" where
  "link_exists_string n = ''check if link '' @ [CHR 0x22] @ n @ [CHR 0x22] @ '' exists''"

fun condition_string :: "condition \<Rightarrow> string" where
  "condition_string (SandboxExists n) = sandbox_exists_string n"
| "condition_string (LinkExists n) = link_exists_string n"

fun is_group :: "command \<Rightarrow> bool" where
  "is_group (Group cs) = True"
| "is_group _ = False"

text \<open>The methods \<open>String\<close> of the single commands.\<close>

definition unless_string :: "string \<Rightarrow> string \<Rightarrow> string" where
  "unless_string b c = b @ '' || '' @ c"

definition in_namespace_string :: "go_file \<Rightarrow> string \<Rightarrow> string" where
  "in_namespace_string ns c = ''ip netns exec '' @ file_name ns @ '' '' @ c"

definition add_address_string :: "string \<Rightarrow> ip_net \<Rightarrow> string" where
  "add_address_string i a = ''ip addr add '' @ net_string a @ '' dev '' @ i"

definition add_route_string :: "string \<Rightarrow> ip_net \<Rightarrow> ip \<Rightarrow> string" where
  "add_route_string i d g = ''ip route add dev '' @ i @ '' '' @ net_string d @ '' via '' @ ip_string g"

definition cleanup_sandbox_string :: "string \<Rightarrow> string" where
  "cleanup_sandbox_string s = ''cleanup-sandbox '' @ s"

definition create_bridge_string :: "string \<Rightarrow> string" where
  "create_bridge_string n = ''ip link add dev '' @ n @ '' type bridge''"

definition create_dummy_string :: "string \<Rightarrow> string" where
  "create_dummy_string n = ''ip link add '' @ n @ '' type dummy''"

definition create_sandbox_string :: "string \<Rightarrow> string" where
  "create_sandbox_string n = ''create sandbox '' @ n"

definition create_veth_string :: "string \<Rightarrow> string \<Rightarrow> int \<Rightarrow> string" where
  "create_veth_string n p m = 
     ''ip link add dev '' @ n @ '' mtu '' @ show_int m @ '' type veth peer name '' @ p @ '' mtu '' @ show_int m"

definition create_vxlan_string :: "string \<Rightarrow> int \<Rightarrow> string" where
  "create_vxlan_string n v = ''ip link add '' @ n @ '' type vxlan vni '' @ show_int v"

definition delete_link_string :: "string \<Rightarrow> string" where
  "delete_link_string n = ''ip link del '' @ n"

definition get_hardware_address_string :: "string \<Rightarrow> string" where
  "get_hardware_address_string n = ''ip link show '' @ n"

definition move_link_string :: "string \<Rightarrow> string \<Rightarrow> string" where
  "move_link_string n s = ''ip link set dev '' @ n @ '' netns '' @ s"

definition set_link_master_string :: "string \<Rightarrow> string \<Rightarrow> string" where
  "set_link_master_string m s = ''ip link set '' @ s @ '' master '' @ m"

definition set_link_up_string :: "string \<Rightarrow> string" where
  "set_link_up_string n = ''ip link set '' @ n @ '' up''"

definition start_dns_server_string :: "string \<Rightarrow> string" where
  "start_dns_server_string s = ''start dns server in sandbox '' @ s"

definition start_monitor_string :: "string \<Rightarrow> string" where
  "start_monitor_string s = ''ip netns exec '' @ s @ '' ip monitor neigh''"

text \<open>The method \<open>String\<close>, and the lines of \<open>toString\<close>; the cursor -1 marks no line.\<close>

fun command_string :: "command \<Rightarrow> string"
  and group_lines :: "int \<Rightarrow> int \<Rightarrow> command list \<Rightarrow> string" where
  "command_string (Group cs) = ''('' @ newline # group_lines (-1) 0 cs @ '')''"
| "command_string (Unless b c) = unless_string (condition_string b) (command_string c)"
| "command_string (InNamespace ns c) = in_namespace_string ns (command_string c)"
| "command_string (AddAddress i a) = add_address_string i a"
| "command_string (AddRoute i d g) = add_route_string i d g"
| "command_string (CleanupSandbox s v) = cleanup_sandbox_string s"
| "command_string (CreateBridge n) = create_bridge_string n"
| "command_string (CreateDummy n) = create_dummy_string n"
| "command_string (CreateSandbox n) = create_sandbox_string n"
| "command_string (CreateVeth n p m) = create_veth_string n p m"
| "command_string (CreateVxlan n v) = create_vxlan_string n v"
| "command_string (DeleteLink n) = delete_link_string n"
| "command_string (GetHardwareAddress n) = get_hardware_address_string n"
| "command_string (MoveLink n s) = move_link_string n s"
| "command_string (SetLinkMaster m s) = set_link_master_string m s"
| "command_string (SetLinkUp n) = set_link_up_string n"
| "command_string (StartDNSServer a s) = start_dns_server_string s"
| "command_string (StartMonitor h s v) = start_monitor_string s"
| "group_lines cursor i [] = []"
| "group_lines cursor i (c # cs) =
     (if i = cursor then ''--> '' else ''    '') @
     (if is_group c then replace_all (command_string c) [newline] (newline # ''    '') else command_string c) @
     (if cs \<noteq> [] then '' &&'' else []) @ newline # group_lines cursor (i + 1) cs"

definition to_string :: "command list \<Rightarrow> int \<Rightarrow> string" where
  "to_string cs cursor = ''('' @ newline # group_lines cursor 0 cs @ '')''"

section \<open>The execution context\<close>

text \<open>The configuration of a \<open>DNSFactory\<close>; its decorator is the one of the namespace writer.\<close>

record dns_factory =
  df_external :: string
  df_api :: string
  df_suffix :: string

text \<open>
  What the context hands out: the system, the directory of the namespace repository and the
  configuration of the DNS factory.
\<close>

record 'k env =
  env_os :: "'k os"
  env_root :: string
  env_dns_factory :: dns_factory

text \<open>
  \<open>executor.New\<close>: the managers, the link factory and the listener factory work on the system, the
  repositories on the directory.
\<close>

definition executor_new :: "'k os \<Rightarrow> string \<Rightarrow> dns_factory \<Rightarrow> 'k env" where
  "executor_new os root f = \<lparr>env_os = os, env_root = root, env_dns_factory = f\<rparr>"

text \<open>
  \<open>hw_result\<close> is the field \<open>Result\<close> of the \<open>GetHardwareAddress\<close> command that was made last (the
  only command whose object is written to).
\<close>

record 'k exec_world = "'k sandbox_world" +
  hw_result :: hardware_addr

text \<open>\<open>DNSFactory.New\<close>\<close>

definition dns_factory_new :: "dns_factory \<Rightarrow> nat \<Rightarrow> go_file \<Rightarrow> dns_runner" where
  "dns_factory_new f listener ns =
     \<lparr>dns_external = df_external f, dns_api = df_api f, dns_suffix = df_suffix f,
      dns_listener = listener, dns_namespace = ns\<rparr>"

text \<open>
  \<open>NamespaceWriter.Write\<close> around the writer of the DNS server: the number of bytes and the error
  of the writer, or no bytes and the error of the namespace.  The decorator makes such a writer of
  any writer.
\<close>

type_synonym ('k, 'z) writer = "string \<Rightarrow> (('k, 'z) world_scheme, nat \<times> goerror option) prog"

definition namespace_writer_write :: "'k os \<Rightarrow> go_file \<Rightarrow> ('k, 'z) writer \<Rightarrow> ('k, 'z) writer" where
  "namespace_writer_write os ns write contents =
     attempt (ns_execute os ns (\<lambda>_. write contents))
       (\<lambda>e. ret (0, Some (wrapf ''namespace execute'' e))) ret"

definition namespace_decorator_factory :: "'k os \<Rightarrow> go_file \<Rightarrow> ('k, 'z) writer \<Rightarrow> ('k, 'z) writer" where
  "namespace_decorator_factory os ns w = namespace_writer_write os ns w"

section \<open>Execution\<close>

text \<open>The methods \<open>Satisfied\<close> of the conditions.\<close>

definition sandbox_exists_satisfied :: "string \<Rightarrow> (('k, 'z) exec_world_scheme, bool) prog" where
  "sandbox_exists_satisfied n =
     attempt (sandboxes_get n)
       (\<lambda>e. if e = Sentinel NotFoundError then ret False else fail (wrapf ''sandbox get'' e))
       (\<lambda>_. ret True)"

definition link_exists_satisfied :: "'k env \<Rightarrow> string \<Rightarrow> (('k, 'z) exec_world_scheme, bool) prog" where
  "link_exists_satisfied env n = link_exists (env_os env) n"

definition satisfied :: "'k env \<Rightarrow> condition \<Rightarrow> (('k, 'z) exec_world_scheme, bool) prog" where
  "satisfied env b =
     (case b of
        SandboxExists n \<Rightarrow> sandbox_exists_satisfied n
      | LinkExists n \<Rightarrow> link_exists_satisfied env n)"

lemmas satisfied_defs = satisfied_def sandbox_exists_satisfied_def link_exists_satisfied_def

text \<open>The methods \<open>Execute\<close> of the commands that do more than one thing.\<close>

definition move_link :: "'k os \<Rightarrow> string \<Rightarrow> string \<Rightarrow> (('k, 'z) exec_world_scheme, unit) prog" where
  "move_link os name sandbox =
     bind_wrap ''get sandbox'' (sandboxes_get sandbox) (\<lambda>r.
     bind_err (sandbox_namespace r) (\<lambda>ns.
     bind_wrap ''move link'' (set_namespace os name (file_fd ns)) (\<lambda>_. ret ())))"

definition start_dns_server :: "'k env \<Rightarrow> string \<Rightarrow> string \<Rightarrow> (('k, 'z) exec_world_scheme, unit) prog" where
  "start_dns_server env listen_address sandbox =
     (let os = env_os env in
      bind_wrap ''resolve udp address'' (sys (os_resolve_udp os listen_address)) (\<lambda>addr.
      bind_wrap ''get sandbox'' (sandboxes_get sandbox) (\<lambda>r.
      with_sandbox_lock r (
        bind_err (sandbox_namespace r) (\<lambda>ns.
        bind_wrap ''namespace execute''
          (ns_execute os ns (\<lambda>_.
             bind_wrap ''create dummy'' (create_dummy os dns_interface_name) (\<lambda>_.
             bind_wrap ''add address''
               (add_address os dns_interface_name \<lparr>net_ip = udp_ip addr, net_mask = cidr_mask 32 32\<rparr>) (\<lambda>_.
             bind_wrap ''set up'' (set_up os dns_interface_name) (\<lambda>_.
             bind_wrap ''listen udp'' (sys (os_listen_udp os addr)) ret))))) (\<lambda>conn.
        bind_wrap ''sandbox launch dns'' (launch_dns os r (dns_factory_new (env_dns_factory env) conn ns)) (\<lambda>_. ret ())))))))"

definition cleanup_sandbox :: "'k env \<Rightarrow> string \<Rightarrow> string \<Rightarrow> (('k, 'z) exec_world_scheme, unit) prog" where
  "cleanup_sandbox env name device =
     (let os = env_os env in
      attempt (sandboxes_get name)
        (\<lambda>e. if e = Sentinel NotFoundError then ret () else fail (wrapf ''get sandbox'' e)) (\<lambda>r.
      with_sandbox_lock r (
        bind_wrap ''counting veth devices'' (sandbox_veth_count os r) (\<lambda>n.
        if n = 0 then
          bind_err (sandbox_namespace r) (\<lambda>ns.
          bind_wrap (''in namespace '' @ name)
            (ns_execute os ns (\<lambda>_.
               attempt (delete_link_by_name os device)
                 (\<lambda>e. bind_err (link_exists os device) (\<lambda>there.
                    if there then fail (wrapf (''destroying vxlan '' @ device) e) else ret ())) ret)) (\<lambda>_.
          attempt (sandboxes_destroy os (env_root env) name)
            (\<lambda>e. if e = Sentinel AlreadyDestroyedError then ret ()
                 else if e = Sentinel NotFoundError then ret ()
                 else fail (wrapf ''sandbox destroy'' e)) ret))
        else ret ()))))"

definition monitor_command :: "'k env \<Rightarrow> go_file \<Rightarrow> string \<Rightarrow> string \<Rightarrow> (('k, 'z) exec_world_scheme, unit) prog" where
  "monitor_command env host sandbox vxlan =
     (let os = env_os env in
      bind_wrap ''getting sandbox namespace'' (repo_get os (env_root env) sandbox) (\<lambda>ns.
      ns_execute os host (\<lambda>_. bind_wrap ''watcher start monitor'' (start_monitor os ns vxlan) (\<lambda>_. ret ()))))"

text \<open>A command that only calls one method and labels its error.\<close>

definition labelled :: "string \<Rightarrow> ('s, unit) prog \<Rightarrow> ('s, unit) prog" where
  "labelled p m = bind_wrap p m (\<lambda>_. ret ())"

text \<open>The methods \<open>Execute\<close> of the other single commands.\<close>

definition add_address_execute :: "'k env \<Rightarrow> string \<Rightarrow> ip_net \<Rightarrow> (('k, 'z) exec_world_scheme, unit) prog" where
  "add_address_execute env i a = labelled ''add address'' (add_address (env_os env) i a)"

definition add_route_execute :: "'k env \<Rightarrow> string \<Rightarrow> ip_net \<Rightarrow> ip \<Rightarrow> (('k, 'z) exec_world_scheme, unit) prog" where
  "add_route_execute env i d g = labelled ''add route'' (add_route (env_os env) i d g)"

definition create_bridge_execute :: "'k env \<Rightarrow> string \<Rightarrow> (('k, 'z) exec_world_scheme, unit) prog" where
  "create_bridge_execute env n = labelled ''create bridge'' (create_bridge (env_os env) n)"

definition create_dummy_execute :: "'k env \<Rightarrow> string \<Rightarrow> (('k, 'z) exec_world_scheme, unit) prog" where
  "create_dummy_execute env n = labelled ''create dummy'' (create_dummy (env_os env) n)"

definition create_sandbox_execute :: "'k env \<Rightarrow> string \<Rightarrow> (('k, 'z) exec_world_scheme, unit) prog" where
  "create_sandbox_execute env n = 
     bind_wrap ''create sandbox'' (sandboxes_create (env_os env) (env_root env) n) (\<lambda>_. ret ())"

definition create_veth_execute :: "'k env \<Rightarrow> string \<Rightarrow> string \<Rightarrow> int \<Rightarrow> (('k, 'z) exec_world_scheme, unit) prog" where
  "create_veth_execute env n p m = labelled ''create veth'' (create_veth (env_os env) n p m)"

definition create_vxlan_execute :: "'k env \<Rightarrow> string \<Rightarrow> int \<Rightarrow> (('k, 'z) exec_world_scheme, unit) prog" where
  "create_vxlan_execute env n v = labelled ''create vxlan'' (create_vxlan (env_os env) n v)"

definition delete_link_execute :: "'k env \<Rightarrow> string \<Rightarrow> (('k, 'z) exec_world_scheme, unit) prog" where
  "delete_link_execute env n = labelled ''delete link'' (delete_link_by_name (env_os env) n)"

definition get_hardware_address_execute :: "'k env \<Rightarrow> string \<Rightarrow> (('k, 'z) exec_world_scheme, unit) prog" where
  "get_hardware_address_execute env n = 
     bind_wrap ''get hardware address'' (hardware_address (env_os env) n) (\<lambda>a.
     modify (\<lambda>s. s\<lparr>hw_result := a\<rparr>))"

definition set_link_master_execute :: "'k env \<Rightarrow> string \<Rightarrow> string \<Rightarrow> (('k, 'z) exec_world_scheme, unit) prog" where
  "set_link_master_execute env m s = labelled ''set link master'' (set_master (env_os env) s m)"

definition set_link_up_execute :: "'k env \<Rightarrow> string \<Rightarrow> (('k, 'z) exec_world_scheme, unit) prog" where
  "set_link_up_execute env n = labelled ''set link up'' (set_up (env_os env) n)"

text \<open>\<open>Unless.Execute\<close> and \<open>InNamespace.Execute\<close>, given the execution of the inner command.\<close>

definition unless_execute ::
  "(('k, 'z) exec_world_scheme, bool) prog \<Rightarrow> (('k, 'z) exec_world_scheme, unit) prog \<Rightarrow> (('k, 'z) exec_world_scheme, unit) prog" where
  [code_unfold]: "unless_execute b m = bind_wrap ''condition check'' b (\<lambda>holds. if holds then ret () else labelled ''unless'' m)"

definition in_namespace_execute ::
  "'k env \<Rightarrow> go_file \<Rightarrow> (('k, 'z) exec_world_scheme, unit) prog \<Rightarrow> (('k, 'z) exec_world_scheme, unit) prog" where
  [code_unfold]: "in_namespace_execute env ns m = labelled ''execute in namespace'' (ns_execute (env_os env) ns (\<lambda>_. m))"

lemmas execute_defs =
  unless_execute_def in_namespace_execute_def
  add_address_execute_def add_route_execute_def create_bridge_execute_def create_dummy_execute_def create_sandbox_execute_def
  create_veth_execute_def create_vxlan_execute_def delete_link_execute_def get_hardware_address_execute_def set_link_master_execute_def set_link_up_execute_def

text \<open>\<open>Execute\<close> of every command; \<open>exec_group g i cs\<close> is the loop of the group \<open>g\<close> from index \<open>i\<close>.\<close>

fun exec :: "'k env \<Rightarrow> command \<Rightarrow> (('k, 'z) exec_world_scheme, unit) prog"
  and exec_group :: "'k env \<Rightarrow> command list \<Rightarrow> nat \<Rightarrow> command list \<Rightarrow> (('k, 'z) exec_world_scheme, unit) prog" where
  "exec env (Group cs) = exec_group env cs 0 cs"
| "exec env (Unless b c) = unless_execute (satisfied env b) (exec env c)"
| "exec env (InNamespace ns c) = in_namespace_execute env ns (exec env c)"
| "exec env (AddAddress i a) = add_address_execute env i a"
| "exec env (AddRoute i d g) = add_route_execute env i d g"
| "exec env (CleanupSandbox s v) = cleanup_sandbox env s v"
| "exec env (CreateBridge n) = create_bridge_execute env n"
| "exec env (CreateDummy n) = create_dummy_execute env n"
| "exec env (CreateSandbox n) = create_sandbox_execute env n"
| "exec env (CreateVeth n p m) = create_veth_execute env n p m"
| "exec env (CreateVxlan n v) = create_vxlan_execute env n v"
| "exec env (DeleteLink n) = delete_link_execute env n"
| "exec env (GetHardwareAddress n) = get_hardware_address_execute env n"
| "exec env (MoveLink n s) = move_link (env_os env) n s"
| "exec env (SetLinkMaster m s) = set_link_master_execute env m s"
| "exec env (SetLinkUp n) = set_link_up_execute env n"
| "exec env (StartDNSServer a s) = start_dns_server env a s"
| "exec env (StartMonitor h s v) = monitor_command env h s v"
| "exec_group env g i [] = ret ()"
| "exec_group env g i (c # cs) =
     attempt (exec env c) (\<lambda>e. fail (GroupErr i (to_string g (int i)) e)) (\<lambda>_. exec_group env g (i + 1) cs)"

end
