(* ===== verification/Commands_Props.thy ===== *)
theory Commands_Props
  imports Commands
begin

text \<open>
  How commands compose: groups stop at the first error and say where, \<open>Unless\<close> skips what is
  there, no command deadlocks; and what tearing a sandbox down does.
\<close>

section \<open>Groups\<close>

text \<open>The reference: run a list of commands as long as they succeed.\<close>

fun run_all :: "'k env \<Rightarrow> command list \<Rightarrow> ('k, 'z) exec_world_scheme \<Rightarrow> ('k, 'z) exec_world_scheme option" where
  "run_all env [] s = Some s"
| "run_all env (c # cs) s =
     (case exec env c s of
        (Ok _, t) \<Rightarrow> run_all env cs t
      | (Err e, t) \<Rightarrow> None
      | (Abort a, t) \<Rightarrow> None)"

lemma exec_group_cases:
  "case exec_group env g i cs s of
     (Ok _, t) \<Rightarrow> run_all env cs s = Some t
   | (Err e, t) \<Rightarrow> (\<exists>pre c post u e'. cs = pre @ c # post \<and> run_all env pre s = Some u \<and>
        exec env c u = (Err e', t) \<and>
        e = GroupErr (i + length pre) (to_string g (int (i + length pre))) e')
   | (Abort a, t) \<Rightarrow> (\<exists>pre c post u. cs = pre @ c # post \<and> run_all env pre s = Some u \<and>
        exec env c u = (Abort a, t))"
proof (induction cs arbitrary: i s)
  case Nil
  then show ?case by (simp add: ret_def)
next
  case (Cons c cs)
  obtain r t where c: "exec env c s = (r, t)" by fastforce
  show ?case
  proof (cases r)
    case (Ok u)
    then have step: "exec_group env g i (c # cs) s = exec_group env g (i + 1) cs t"
      "run_all env (c # pre) s = run_all env pre t" for pre
      using c by (simp_all add: attempt_eval)
    obtain q v where q: "exec_group env g (i + 1) cs t = (q, v)" by fastforce
    show ?thesis
    proof (cases q)
      case (Ok w)
      with Cons.IH [where i = "i + 1" and s = t] q step show ?thesis by simp
    next
      case (Err e)
      with Cons.IH [where i = "i + 1" and s = t] q obtain pre d post w e' where
        "cs = pre @ d # post" "run_all env pre t = Some w" "exec env d w = (Err e', v)"
        "e = GroupErr (i + 1 + length pre) (to_string g (int (i + 1 + length pre))) e'" by auto
      then show ?thesis
        using Err q step by (auto simp: ac_simps intro!: exI [of _ "c # pre"])
    next
      case (Abort a)
      with Cons.IH [where i = "i + 1" and s = t] q obtain pre d post w where
        "cs = pre @ d # post" "run_all env pre t = Some w" "exec env d w = (Abort a, v)" by auto
      then show ?thesis
        using Abort q step by (auto intro!: exI [of _ "c # pre"])
    qed
  next
    case (Err e)
    with c show ?thesis
      by (auto simp: attempt_eval fail_def intro!: exI [of _ "[]"])
  next
    case (Abort a)
    with c show ?thesis
      by (auto simp: attempt_eval intro!: exI [of _ "[]"])
  qed
qed

text \<open>
  C25: A group runs its commands in order and stops at the first that fails: it succeeds exactly when
  all of them do, one after the other; its error carries the index of the failing command, the
  rendering of the group with that line marked, and the command's own error, and the commands
  before it have been executed.
\<close>

theorem group_stops_at_first_error:
  "case exec env (Group cs) s of
     (Ok _, t) \<Rightarrow> run_all env cs s = Some t
   | (Err e, t) \<Rightarrow> (\<exists>pre c post u e'. cs = pre @ c # post \<and> run_all env pre s = Some u \<and>
        exec env c u = (Err e', t) \<and> e = GroupErr (length pre) (to_string cs (int (length pre))) e')
   | (Abort a, t) \<Rightarrow> (\<exists>pre c post u. cs = pre @ c # post \<and> run_all env pre s = Some u \<and>
        exec env c u = (Abort a, t))"
  using exec_group_cases [where env = env and g = cs and i = 0 and cs = cs and s = s]
  unfolding exec.simps add_0 .

section \<open>No command deadlocks\<close>

fun locks_sandbox :: "command \<Rightarrow> bool" where
  "locks_sandbox (Group cs) = list_ex locks_sandbox cs"
| "locks_sandbox (Unless b c) = locks_sandbox c"
| "locks_sandbox (InNamespace ns c) = locks_sandbox c"
| "locks_sandbox (CleanupSandbox s v) = True"
| "locks_sandbox (StartDNSServer a s) = True"
| "locks_sandbox _ = False"

lemma lock_safe_labelled [lock_intros]: "lock_stable P \<Longrightarrow> lock_safe P m \<Longrightarrow> lock_safe P (labelled p m)"
  by (simp add: labelled_def lock_intros)

lemma all_free_repo_free: "all_free s \<Longrightarrow> repo_free s"
  by (simp add: all_free_def)

lemmas lock_stables = stable_repo_free stable_all_free stable_registered stable_True

lemma lock_safe_satisfied [lock_intros]: "lock_safe repo_free (satisfied env b)"
  by (cases b) (simp_all add: satisfied_defs lock_intros lock_stables)

lemma lock_safe_move_link [lock_intros]: "lock_safe repo_free (move_link os name sandbox)"
  by (simp add: move_link_def lock_intros lock_stables)

lemma lock_safe_monitor_command [lock_intros]: "lock_safe repo_free (monitor_command env h s v)"
  by (simp add: monitor_command_def Let_def lock_intros lock_stables)

text \<open>A sandbox found in the repository is unlocked when no mutex is held.\<close>

lemma lock_safe_with_found_sandbox:
  assumes body: "\<And>r. lock_safe repo_free (m r)" and h: "\<And>e. lock_safe all_free (h e)"
  shows "lock_safe all_free (attempt (sandboxes_get name) h (\<lambda>r. with_sandbox_lock r (m r)))"
proof (rule lock_safeI)
  fix s :: "('a, 'b) sandbox_world_scheme"
  assume s: "all_free s"
  then have free: "\<not> repo_locked s" "registered s" "repo_free s"
    by (simp_all add: all_free_def repo_free_def)
  show "fst (attempt (sandboxes_get name) h (\<lambda>r. with_sandbox_lock r (m r)) s) \<noteq> Abort Deadlock \<and>
    settled s (snd (attempt (sandboxes_get name) h (\<lambda>r. with_sandbox_lock r (m r)) s))"
  proof (cases "sandboxes s name")
    case None
    with s h show ?thesis
      by (simp add: attempt_def sandboxes_get_eval [OF free(1)] lock_safe_def)
  next
    case (Some r)
    then have r: "r < length (objects s)"
      using free(2) by (auto simp: registered_def)
    then have "\<not> sb_locked (the_sandbox r s)"
      using s nth_mem [OF r] by (auto simp: all_free_def the_sandbox_def)
    with with_sandbox_lock_safe [OF body free(3) r] Some show ?thesis
      by (simp add: attempt_def sandboxes_get_eval [OF free(1)])
  qed
qed

lemma lock_safe_cleanup_sandbox: "lock_safe all_free (cleanup_sandbox env name device)"
  unfolding cleanup_sandbox_def Let_def
  by (rule lock_safe_with_found_sandbox) (simp_all add: lock_intros lock_stables)

lemma lock_safe_start_dns_server: "lock_safe all_free (start_dns_server env addr name)"
  unfolding start_dns_server_def Let_def bind_wrap_def [of "''get sandbox''"]
  by (intro lock_safe_bind lock_safe_with_found_sandbox)
     (simp_all add: lock_intros lock_stables)

lemma lock_safe_store_hw [lock_intros]: "lock_safe P (modify (\<lambda>s. s\<lparr>hw_result := a\<rparr>))"
  by (rule lock_safe_modify) (simp add: settled_same)

lemma lock_safe_exec:
  fixes Q :: "('k, 'z) exec_world_scheme \<Rightarrow> bool"
  assumes Q: "Q = repo_free"
  shows "\<not> locks_sandbox c \<Longrightarrow> lock_safe Q (exec env c)"
    and "\<not> list_ex locks_sandbox cs \<Longrightarrow> lock_safe Q (exec_group env g i cs)"
  unfolding Q
  by (induction env c and env g i cs rule: exec_exec_group.induct)
     (simp_all add: execute_defs lock_intros lock_stables)

lemma lock_safe_exec_free:
  fixes Q :: "('k, 'z) exec_world_scheme \<Rightarrow> bool"
  assumes Q: "Q = all_free"
  shows "lock_safe Q (exec env c)" and "lock_safe Q (exec_group env g i cs)"
  unfolding Q
proof (induction env c and env g i cs rule: exec_exec_group.induct)
  case (2 env b c)
  then show ?case
    by (simp add: execute_defs lock_intros lock_stables lock_safe_weaken [OF lock_safe_satisfied all_free_repo_free])
qed (simp_all add: execute_defs lock_intros lock_stables lock_safe_cleanup_sandbox lock_safe_start_dns_server
    lock_safe_weaken [OF lock_safe_exec(1) [OF refl] all_free_repo_free] lock_safe_weaken [OF lock_safe_move_link all_free_repo_free]
    lock_safe_weaken [OF lock_safe_monitor_command all_free_repo_free]
    lock_safe_weaken [OF lock_safe_sandboxes(3) all_free_repo_free])

text \<open>
  C15: Started while no mutex is held, no command, however it is nested, ever blocks on a mutex of
  the daemon, on any system; whether it ends with success, an error or a panic, all mutexes are
  free again.
\<close>

theorem commands_never_deadlock:
  assumes "all_free s"
  shows "fst (exec env c s) \<noteq> Abort Deadlock \<and> all_free (snd (exec env c s))"
  using lock_safe_exec_free(1) [OF refl, of env c] assms stable_all_free
  unfolding lock_safe_def lock_stable_def by blast

definition exec_init :: "'k \<Rightarrow> 'k exec_world" where
  "exec_init k =
     \<lparr>kernel = k, done_chans = Map.empty, next_chan = 0, closed_chans = [], inserters = [], subscriptions = [],
      sandboxes = Map.empty, objects = [], repo_locked = False, hw_result = []\<rparr>"

lemma all_free_init: "all_free (exec_init k)"
  by (simp add: all_free_def repo_free_def registered_def exec_init_def)

definition sim_env :: "sim env" where
  "sim_env = \<lparr>env_os = sim_os, env_root = ''/sb'',
     env_dns_factory = \<lparr>df_external = ''8.8.8.8:53'', df_api = ''http://127.0.0.1:4001'', df_suffix = ''potato''\<rparr>\<rparr>"

lemma commands_never_deadlock_witness:
  "all_free (snd (exec sim_env (Group [CreateSandbox ''vni-1'', CleanupSandbox ''vni-1'' ''vxlan1'', CreateSandbox ''vni-1''])
     (exec_init (sim_init [] []))))"
  by (rule commands_never_deadlock [OF all_free_init, THEN conjunct2])

section \<open>Tearing a sandbox down\<close>

lemma wrapf_inj [simp]: "wrapf p e = wrapf q f \<longleftrightarrow> p @ '': '' @ error_text e = q @ '': '' @ error_text f"
  by (simp add: wrapf_def)

lemma stop_monitor_frame:
  "stop_monitor ns s = (r, t) \<Longrightarrow>
   sandboxes t = sandboxes s \<and> objects t = objects s \<and> repo_locked t = repo_locked s"
  by (auto simp: stop_monitor_def close_chan_def split: option.splits if_splits)

lemma teardown_ok:
  assumes "teardown os r s = (Ok u, t)" "r < length (objects s)"
  shows "sb_destroyed (the_sandbox r t)" "sandboxes t = sandboxes s" "repo_locked t = repo_locked s"
    "length (objects t) = length (objects s)"
proof -
  have m: "(bind_wrap ''stop monitor'' (stop_monitor (sb_namespace (the_sandbox r s))) (\<lambda>_.
       bind_err (case sb_dns (the_sandbox r s) of None \<Rightarrow> ret () | Some p \<Rightarrow> sys_do (\<lambda>k. ((), os_kill os p k))) (\<lambda>_.
       modify (update_sandbox r (\<lambda>b. b\<lparr>sb_destroyed := True\<rparr>))))) s = (Ok u, t)"
    using assms(1) by (auto simp: teardown_def bind_err_eval(1) gets_def fail_def split: if_splits)
  obtain v s1 where s1: "stop_monitor (sb_namespace (the_sandbox r s)) s = (Ok v, s1)"
    "(bind_err (case sb_dns (the_sandbox r s) of None \<Rightarrow> ret () | Some p \<Rightarrow> sys_do (\<lambda>k. ((), os_kill os p k))) (\<lambda>_.
       modify (update_sandbox r (\<lambda>b. b\<lparr>sb_destroyed := True\<rparr>)))) s1 = (Ok u, t)"
    by (rule bind_wrap_OkE [OF m])
  obtain w s2 where s2: "(case sb_dns (the_sandbox r s) of None \<Rightarrow> ret () | Some p \<Rightarrow> sys_do (\<lambda>k. ((), os_kill os p k))) s1 = (Ok w, s2)"
    "modify (update_sandbox r (\<lambda>b. b\<lparr>sb_destroyed := True\<rparr>)) s2 = (Ok u, t)"
    by (rule bind_err_OkE [OF s1(2)])
  have "\<exists>k. s2 = s1\<lparr>kernel := k\<rparr>"
    using s2(1) by (auto simp: ret_def sys_do_def split: option.splits intro: exI [of _ "kernel s1"])
  then obtain k where "s2 = s1\<lparr>kernel := k\<rparr>" ..
  with s2(2) stop_monitor_frame [OF s1(1)] assms(2)
  show "sb_destroyed (the_sandbox r t)" "sandboxes t = sandboxes s" "repo_locked t = repo_locked s"
    "length (objects t) = length (objects s)"
    by (auto simp: modify_def update_sandbox_def the_sandbox_def)
qed

end
