(* ===== verification/Ipam.thy ===== *)
theory Ipam
  imports Go_Net
begin

text \<open>
  The address allocator, package \<open>ipam\<close>: the in-memory reservation store
  (\<open>memory_store.go\<close>), the allocator that walks a subnet and reserves the first free address
  (\<open>allocator.go\<close>), and the two factories (\<open>store_factory.go\<close>, \<open>config_factory.go\<close>).

  The allocator works on any \<open>AllocatorStore\<close>; that interface is the record
  \<open>allocator_store\<close>, its contract the locale \<open>reservations\<close>, and the memory store is shown to
  satisfy it.
\<close>

section \<open>Data of github.com/appc/cni/pkg/types\<close>

record route =
  route_dst :: ip_net
  route_gw :: ip

record ip_config =
  cfg_ip :: ip_net
  cfg_gateway :: ip
  cfg_routes :: "route list"

record cni_result =
  res_ip4 :: "ip_config option"

section \<open>The store interface and the memory store\<close>

text \<open>The methods of an \<open>AllocatorStore\<close> whose state is of type \<open>'s\<close>.\<close>

record 's allocator_store =
  as_reserve :: "string \<Rightarrow> ip \<Rightarrow> ('s, bool) prog"
  as_release_by_id :: "string \<Rightarrow> ('s, unit) prog"
  as_contains :: "string \<Rightarrow> 's \<Rightarrow> bool"

text \<open>
  \<open>inMemoryStore\<close>: the map from printed addresses to container ids, as an association list
  with distinct keys (Go iterates over a map in no fixed order; no method depends on it).
\<close>

record memory_store =
  allocated :: "(string \<times> string) list"

definition new_store :: memory_store where
  "new_store = \<lparr>allocated = []\<rparr>"

definition mem_reserve :: "string \<Rightarrow> ip \<Rightarrow> (memory_store, bool) prog" where
  "mem_reserve ident a s =
     (let key = ip_string a
      in if map_of (allocated s) key \<noteq> None then (Ok False, s)
         else (Ok True, s\<lparr>allocated := (key, ident) # allocated s\<rparr>))"

definition mem_release_by_id :: "string \<Rightarrow> (memory_store, unit) prog" where
  "mem_release_by_id ident s =
     (Ok (), s\<lparr>allocated := filter (\<lambda>(k, v). v \<noteq> ident) (allocated s)\<rparr>)"

definition mem_contains :: "string \<Rightarrow> memory_store \<Rightarrow> bool" where
  "mem_contains ident s = list_ex (\<lambda>(k, v). v = ident) (allocated s)"

definition mem_ops :: "memory_store allocator_store" where
  "mem_ops = \<lparr>as_reserve = mem_reserve, as_release_by_id = mem_release_by_id, as_contains = mem_contains\<rparr>"

text \<open>\<open>StoreFactory.Create\<close> and \<open>ConfigFactory.Create\<close> never fail.\<close>

definition store_factory_create :: "string \<Rightarrow> goerror + memory_store" where
  "store_factory_create network_id = Inr new_store"

definition config_factory_create :: "ip_config \<Rightarrow> string \<Rightarrow> goerror + ip_config" where
  "config_factory_create c network_id = Inr c"

section \<open>The allocator\<close>

text \<open>
  The two maps of \<open>allocator\<close>.  The stores and configurations are objects behind pointers,
  each reachable through its map only, so the maps hold their states.
\<close>

record 's allocator =
  al_stores :: "string \<rightharpoonup> 's"
  al_configs :: "string \<rightharpoonup> ip_config"

definition new_allocator :: "'s allocator" where
  "new_allocator = \<lparr>al_stores = Map.empty, al_configs = Map.empty\<rparr>"

text \<open>\<open>nextIP\<close>: the bytes of the number after the address; an address that has no four-byte form counts as 0.\<close>

definition next_ip :: "ip \<Rightarrow> ip" where
  "next_ip a = nat_bytes (set_bytes (to4 a) + 1)"

definition get_config :: "(string \<Rightarrow> goerror + ip_config) \<Rightarrow> string \<Rightarrow> ('s allocator, ip_config) prog" where
  "get_config cf network_id a =
     (case al_configs a network_id of
        Some c \<Rightarrow> (Ok c, a)
      | None \<Rightarrow>
          (case cf network_id of
             Inl e \<Rightarrow> (Err (wrapf (''failed to obtain configuration for network '' @ quote network_id) e), a)
           | Inr c \<Rightarrow> (Ok c, a\<lparr>al_configs := (al_configs a)(network_id \<mapsto> c)\<rparr>)))"

definition get_store :: "(string \<Rightarrow> goerror + 's) \<Rightarrow> string \<Rightarrow> ('s allocator, 's) prog" where
  "get_store sf network_id a =
     (case al_stores a network_id of
        Some s \<Rightarrow> (Ok s, a)
      | None \<Rightarrow>
          (case sf network_id of
             Inl e \<Rightarrow> (Err (wrapf ''failed to create allocator store'' e), a)
           | Inr s \<Rightarrow> (Ok s, a\<lparr>al_stores := (al_stores a)(network_id \<mapsto> s)\<rparr>)))"

text \<open>
  When is the next address inside the network?  Only if it has four bytes, and then its number
  is one more than the number before: this is what makes the loop of \<open>AllocateIP\<close> end.
\<close>

lemma length_next_ip: "length (next_ip a) \<le> 5" "next_ip a \<noteq> []"
proof -
  have "set_bytes (to4 a) < 256 ^ 4"
    using length_to4 [of a] set_bytes_bound [of "to4 a"] by auto
  then show "length (next_ip a) \<le> 5"
    by (simp add: next_ip_def length_nat_bytes)
  show "next_ip a \<noteq> []"
    by (simp add: next_ip_def nat_bytes.simps [of "Suc (set_bytes (to4 a))"])
qed

lemma length_network_number:
  "network_number_and_mask n = (nn, m) \<Longrightarrow> length nn \<in> {0, 4, 16}"
proof -
  assume nm: "network_number_and_mask n = (nn, m)"
  let ?a = "if to4 (net_ip n) \<noteq> [] then to4 (net_ip n) else net_ip n"
  have "nn = [] \<or> nn = ?a \<and> (to4 (net_ip n) \<noteq> [] \<or> length ?a = 16)"
    using nm unfolding network_number_and_mask_def Let_def by (simp only: split: if_split_asm) auto
  then show ?thesis
    using length_to4 [of "net_ip n"] by (auto split: if_splits)
qed

lemma contains_next_ip:
  assumes "net_contains n (next_ip a)"
  shows "length (next_ip a) = 4" "set_bytes (next_ip a) = set_bytes (to4 a) + 1"
proof -
  obtain nn m where nm: "network_number_and_mask n = (nn, m)" by fastforce
  have short: "length (next_ip a) \<noteq> 0" "length (next_ip a) \<le> 5"
    using length_next_ip [of a] by auto
  have "length (next_ip a) = length nn \<or> length (next_ip a) = 4"
    using assms short by (auto simp: net_contains_def nm to4_def Let_def split: if_splits)
  then show "length (next_ip a) = 4"
    using length_network_number [OF nm] short by auto
  show "set_bytes (next_ip a) = set_bytes (to4 a) + 1"
    by (simp add: next_ip_def)
qed

lemma contains_next_ip_bound:
  assumes "net_contains n (next_ip a)"
  shows "set_bytes (to4 (next_ip a)) = set_bytes (to4 a) + 1 \<and> set_bytes (to4 a) + 1 < 2 ^ 32"
  using contains_next_ip [OF assms] set_bytes_bound [of "next_ip a"] by simp_all

text \<open>The loop of \<open>AllocateIP\<close>, from the address before the first one it tries.\<close>

function reserve_loop ::
  "'s allocator_store \<Rightarrow> ip_config \<Rightarrow> string \<Rightarrow> ip \<Rightarrow> 's \<Rightarrow> ip outcome \<times> 's" where
  "reserve_loop ops cfg ident a s =
     (if \<not> net_contains (cfg_ip cfg) (next_ip a) then (Err (Sentinel NoMoreAddressesError), s)
      else if ip_equal (cfg_gateway cfg) (next_ip a) then
        reserve_loop ops cfg ident (next_ip a) s
      else case as_reserve ops ident (next_ip a) s of
        (Err e, t) \<Rightarrow> (Err (wrapf ''failed to reserve IP'' e), t)
      | (Abort x, t) \<Rightarrow> (Abort x, t)
      | (Ok ok, t) \<Rightarrow>
          if ok then (Ok (next_ip a), t) else reserve_loop ops cfg ident (next_ip a) t)"
  by pat_completeness auto
termination
proof (relation "measure (\<lambda>(ops, cfg, ident, a, s). 2 ^ 32 - set_bytes (to4 a))")
  show "wf (measure (\<lambda>(ops, cfg, ident, a, s). 2 ^ 32 - set_bytes (to4 a)))"
    by simp
qed (auto dest!: contains_next_ip_bound)

declare reserve_loop.simps [simp del]

definition allocate_ip ::
  "'s allocator_store \<Rightarrow> (string \<Rightarrow> goerror + 's) \<Rightarrow> (string \<Rightarrow> goerror + ip_config) \<Rightarrow>
   string \<Rightarrow> string \<Rightarrow> ('s allocator, cni_result) prog" where
  "allocate_ip ops sf cf network_id container_id =
     bind_err (get_config cf network_id) (\<lambda>config.
     bind_err (get_store sf network_id) (\<lambda>store a.
       if as_contains ops container_id store then (Err (Sentinel AlreadyOnNetworkError), a)
       else
         (let start = net_ip (cfg_ip config);
              first = (if cfg_gateway config = [] then next_ip start else start);
              config' = (if cfg_gateway config = [] then config\<lparr>cfg_gateway := first\<rparr> else config);
              a' = a\<lparr>al_configs := (al_configs a)(network_id \<mapsto> config')\<rparr>;
              (r, store') = reserve_loop ops config' container_id first store;
              a'' = a'\<lparr>al_stores := (al_stores a')(network_id \<mapsto> store')\<rparr>
          in (case r of
                Ok addr \<Rightarrow>
                  (Ok \<lparr>res_ip4 = Some \<lparr>cfg_ip = \<lparr>net_ip = addr, net_mask = net_mask (cfg_ip config')\<rparr>,
                                       cfg_gateway = cfg_gateway config',
                                       cfg_routes = cfg_routes config'\<rparr>\<rparr>, a'')
              | Err e \<Rightarrow> (Err e, a'')
              | Abort x \<Rightarrow> (Abort x, a'')))))"

definition release_ip ::
  "'s allocator_store \<Rightarrow> (string \<Rightarrow> goerror + 's) \<Rightarrow> string \<Rightarrow> string \<Rightarrow> ('s allocator, unit) prog" where
  "release_ip ops sf network_id container_id =
     bind_err (get_store sf network_id) (\<lambda>store a.
       case as_release_by_id ops container_id store of
         (r, store') \<Rightarrow>
           (let a' = a\<lparr>al_stores := (al_stores a)(network_id \<mapsto> store')\<rparr>
            in case r of
                 Ok u \<Rightarrow> (Ok (), a')
               | Err e \<Rightarrow> (Err (wrapf ''store failed to release'' e), a')
               | Abort x \<Rightarrow> (Abort x, a')))"

end
