(* ===== verification/Container.thy ===== *)
theory Container
  imports Commands_Props Ipam
begin

text \<open>
  Setting up and tearing down the network of a container: the command builder
  (\<open>container/command_builder.go\<close>), the creator (\<open>creator.go\<close>) and the deletor (\<open>deletor.go\<close>).
\<close>

section \<open>The command builder\<close>

definition idempotently_create_sandbox :: "string \<Rightarrow> string \<Rightarrow> int \<Rightarrow> string \<Rightarrow> command" where
  "idempotently_create_sandbox sandbox vxlan vni dns_address =
     Unless (SandboxExists sandbox)
       (All [CreateSandbox sandbox,
             CreateVxlan vxlan vni,
             MoveLink vxlan sandbox,
             StartDNSServer dns_address sandbox])"

definition idempotently_create_vxlan :: "go_file \<Rightarrow> string \<Rightarrow> string \<Rightarrow> go_file \<Rightarrow> command" where
  "idempotently_create_vxlan host_ns vxlan sandbox sandbox_ns =
     All [InNamespace sandbox_ns (SetLinkUp vxlan),
          StartMonitor host_ns sandbox vxlan]"

definition add_route_command :: "string \<Rightarrow> ip_config \<Rightarrow> route \<Rightarrow> command" where
  "add_route_command interface cfg r =
     AddRoute interface (route_dst r) (if route_gw r = [] then cfg_gateway cfg else route_gw r)"

definition add_routes :: "string \<Rightarrow> ip_config \<Rightarrow> command" where
  "add_routes interface cfg = All (map (add_route_command interface cfg) (cfg_routes cfg))"

definition setup_veth :: "go_file \<Rightarrow> string \<Rightarrow> string \<Rightarrow> ip_net \<Rightarrow> string \<Rightarrow> command \<Rightarrow> command" where
  "setup_veth container_ns sandbox_link container_link address sandbox route_command =
     InNamespace container_ns
       (Group ([CreateVeth container_link sandbox_link 1450,
                MoveLink sandbox_link sandbox,
                AddAddress container_link address,
                SetLinkUp container_link] @ [route_command]))"

definition idempotently_setup_bridge :: "string \<Rightarrow> string \<Rightarrow> string \<Rightarrow> go_file \<Rightarrow> ip_config \<Rightarrow> command" where
  "idempotently_setup_bridge vxlan sandbox_link bridge sandbox_ns cfg =
     InNamespace sandbox_ns
       (All [SetLinkUp sandbox_link,
             Unless (LinkExists bridge)
               (All [CreateBridge bridge,
                     AddAddress bridge \<lparr>net_ip = cfg_gateway cfg, net_mask = net_mask (cfg_ip cfg)\<rparr>,
                     SetLinkUp bridge,
                     SetLinkMaster bridge dns_interface_name]),
             SetLinkMaster bridge vxlan,
             SetLinkMaster bridge sandbox_link])"

section \<open>The creator\<close>

record creator_config =
  cc_network_id :: string
  cc_app :: string
  cc_container_ns_path :: string
  cc_container_id :: string
  cc_interface_name :: string
  cc_vni :: int
  cc_ipam_result :: cni_result

text \<open>The fields of \<open>Creator\<close> and \<open>CommandBuilder\<close> that hold data.\<close>

record 'k creator =
  cr_env :: "'k env"
  cr_host_namespace :: go_file
  cr_dns_address :: string
  cr_host_ip :: ip

definition container_record :: "'k creator \<Rightarrow> creator_config \<Rightarrow> ip_config \<Rightarrow> hardware_addr \<Rightarrow> container" where
  "container_record c config ip4 mac =
     \<lparr>ctr_id = cc_container_id config, ctr_ip = ip_string (net_ip (cfg_ip ip4)), ctr_mac = hw_string mac,
      ctr_host_ip = ip_string (cr_host_ip c), ctr_network_id = cc_network_id config,
      ctr_sandbox_name = sandbox_name (cc_vni config), ctr_app = cc_app config\<rparr>"

text \<open>What happens under the mutex of the sandbox.\<close>

definition setup_in_sandbox ::
  "'k creator \<Rightarrow> creator_config \<Rightarrow> ip_config \<Rightarrow> go_file \<Rightarrow> sandbox_ref \<Rightarrow> (('k, 'z) exec_world_scheme, container) prog" where
  "setup_in_sandbox c config ip4 container_ns r =
     (let vxlan = vxlan_name (cc_vni config);
          sandbox = sandbox_name (cc_vni config);
          bridge = bridge_name (cc_vni config);
          link = name_sandbox_link (cc_container_id config);
          interface = cc_interface_name config
      in bind_err (sandbox_namespace r) (\<lambda>sandbox_ns.
         bind_err (exec (cr_env c)
           (All [idempotently_create_vxlan (cr_host_namespace c) vxlan sandbox sandbox_ns,
                 setup_veth container_ns link interface (cfg_ip ip4) sandbox (add_routes interface ip4),
                 idempotently_setup_bridge vxlan link bridge sandbox_ns ip4])) (\<lambda>_.
         bind_err (modify (\<lambda>s. s\<lparr>hw_result := []\<rparr>)) (\<lambda>_.
         bind_err (exec (cr_env c) (InNamespace container_ns (GetHardwareAddress interface))) (\<lambda>_.
         gets (\<lambda>s. container_record c config ip4 (hw_result s)))))))"

definition creator_setup :: "'k creator \<Rightarrow> creator_config \<Rightarrow> (('k, 'z) exec_world_scheme, container) prog" where
  "creator_setup c config =
     (let vxlan = vxlan_name (cc_vni config);
          sandbox = sandbox_name (cc_vni config)
      in bind_wrap ''open container netns'' (open_path (env_os (cr_env c)) (cc_container_ns_path config)) (\<lambda>container_ns.
         case res_ip4 (cc_ipam_result config) of
           None \<Rightarrow> panic ''nil pointer dereference''
         | Some ip4 \<Rightarrow>
             bind_wrap ''executing command: create sandbox''
               (exec (cr_env c) (idempotently_create_sandbox sandbox vxlan (cc_vni config) (cr_dns_address c))) (\<lambda>_.
             bind_wrap ''get sandbox'' (sandboxes_get sandbox) (\<lambda>r.
             with_sandbox_lock r (setup_in_sandbox c config ip4 container_ns r)))))"

section \<open>The deletor\<close>

definition deletor_delete ::
  "'k env \<Rightarrow> string \<Rightarrow> string \<Rightarrow> string \<Rightarrow> string \<Rightarrow> (('k, 'z) exec_world_scheme, unit) prog" where
  "deletor_delete env interface container_ns_path sandbox vxlan =
     bind_wrap ''open container netns'' (open_path (env_os env) container_ns_path) (\<lambda>container_ns.
     bind_err (exec env
       (All [InNamespace container_ns (DeleteLink interface),
             CleanupSandbox sandbox vxlan])) (\<lambda>_. ret ()))"

section \<open>Locks\<close>

lemma no_sandbox_locks:
  "\<not> locks_sandbox (idempotently_create_vxlan h v s n)"
  "\<not> locks_sandbox (add_routes i cfg)"
  "\<not> locks_sandbox route \<Longrightarrow> \<not> locks_sandbox (setup_veth n l i a s route)"
  "\<not> locks_sandbox (idempotently_setup_bridge v l b n cfg)"
  by (simp_all add: idempotently_create_vxlan_def add_routes_def setup_veth_def
      idempotently_setup_bridge_def All_def add_route_command_def list_ex_iff)

lemma lock_safe_setup_in_sandbox: "lock_safe repo_free (setup_in_sandbox c config ip4 ns r)"
  unfolding setup_in_sandbox_def Let_def
  by (intro lock_safe_bind lock_safe_exec [OF refl] lock_safe_store_hw lock_safe_basic lock_stables lock_safe_sandbox)
     (simp_all add: All_def no_sandbox_locks)

lemma lock_safe_found_setup:
  "lock_safe all_free (bind_wrap ''get sandbox'' (sandboxes_get name)
     (\<lambda>r. with_sandbox_lock r (setup_in_sandbox c config ip4 ns r)))"
  unfolding bind_wrap_def
  by (intro lock_safe_with_found_sandbox lock_safe_setup_in_sandbox lock_safe_basic)

lemma lock_safe_creator_setup: "lock_safe all_free (creator_setup c config)"
  unfolding creator_setup_def Let_def
  by (cases "res_ip4 (cc_ipam_result config)")
     (simp_all add: lock_intros lock_stables lock_safe_exec_free [OF refl] lock_safe_found_setup)

lemma lock_safe_deletor_delete: "lock_safe all_free (deletor_delete env i p s v)"
  by (simp add: deletor_delete_def lock_intros lock_stables lock_safe_exec_free [OF refl])

end
