(* ===== verification/Ipam_Store.thy ===== *)
theory Ipam_Store
  imports Ipam
begin

text \<open>
  The contract of an \<open>AllocatorStore\<close> as the allocator uses it (the locale \<open>reservations\<close>), the
  search for a free address proved against that contract alone, and the proof that the memory
  store satisfies the contract.
\<close>

section \<open>The addresses the loop tries\<close>

text \<open>
  The successors of an address, in order, as long as they stay in the network, without the
  gateway: a reference definition that knows nothing of reservations.
\<close>

function candidates :: "ip_config \<Rightarrow> ip \<Rightarrow> ip list" where
  "candidates cfg a =
     (if \<not> net_contains (cfg_ip cfg) (next_ip a) then []
      else (if ip_equal (cfg_gateway cfg) (next_ip a) then [] else [next_ip a]) @
           candidates cfg (next_ip a))"
  by pat_completeness auto
termination
  by (relation "measure (\<lambda>(cfg, a). 2 ^ 32 - set_bytes (to4 a))")
     (auto dest!: contains_next_ip_bound intro!: diff_less_mono2)

declare candidates.simps [simp del]

lemma candidates_stop: "\<not> net_contains (cfg_ip cfg) (next_ip a) \<Longrightarrow> candidates cfg a = []"
  by (simp add: candidates.simps [of cfg a])

lemma candidates_step:
  "net_contains (cfg_ip cfg) (next_ip a) \<Longrightarrow>
   candidates cfg a =
     (if ip_equal (cfg_gateway cfg) (next_ip a) then [] else [next_ip a]) @ candidates cfg (next_ip a)"
  by (simp add: candidates.simps [of cfg a])

lemma candidates_sound:
  "x \<in> set (candidates cfg a) \<Longrightarrow>
   length x = 4 \<and> net_contains (cfg_ip cfg) x \<and> \<not> ip_equal (cfg_gateway cfg) x \<and>
   set_bytes (to4 a) < set_bytes x"
proof (induction cfg a rule: candidates.induct)
  case (1 cfg a)
  show ?case
  proof (cases "net_contains (cfg_ip cfg) (next_ip a)")
    case True
    note len = contains_next_ip [OF True]
    from "1.prems" consider "x = next_ip a" "\<not> ip_equal (cfg_gateway cfg) (next_ip a)"
      | "x \<in> set (candidates cfg (next_ip a))"
      by (auto simp: candidates_step [OF True] split: if_splits)
    then show ?thesis
    proof cases
      case 1
      with True len show ?thesis by simp
    next
      case 2
      from "1.IH" [OF _ 2] True len show ?thesis by simp
    qed
  next
    case False
    with "1.prems" show ?thesis by (simp add: candidates_stop)
  qed
qed

lemma candidates_sorted: "sorted_wrt (\<lambda>x y. set_bytes x < set_bytes y) (candidates cfg a)"
proof (induction cfg a rule: candidates.induct)
  case (1 cfg a)
  show ?case
  proof (cases "net_contains (cfg_ip cfg) (next_ip a)")
    case True
    note len = contains_next_ip [OF True]
    have "\<forall>y \<in> set (candidates cfg (next_ip a)). set_bytes (next_ip a) < set_bytes y"
      using candidates_sound [of _ cfg "next_ip a"] len by simp
    with "1.IH" True show ?thesis
      by (simp add: candidates_step [OF True])
  next
    case False
    then show ?thesis by (simp add: candidates_stop)
  qed
qed

text \<open>
  In a network given by a prefix mask nothing is left out: every address of the network above
  the start is a candidate, but for the gateway.  The start must be an address of the network
  whose successor has four bytes without a leading zero byte.
\<close>

lemma length_next_ip_4:
  assumes "2 ^ 24 \<le> set_bytes (to4 a) + 1" "set_bytes (to4 a) + 1 < 2 ^ 32"
  shows "length (next_ip a) = 4"
proof -
  have "length (next_ip a) \<le> 4" "\<not> length (next_ip a) \<le> 3"
    using assms by (simp_all add: next_ip_def length_nat_bytes)
  then show ?thesis by simp
qed

lemma candidates_complete:
  assumes "length (to4 (net_ip (cfg_ip cfg))) = 4" "net_mask (cfg_ip cfg) = cidr_mask ones 32"
    and "ones \<le> 32"
    and "length x = 4" "net_contains (cfg_ip cfg) x" "\<not> ip_equal (cfg_gateway cfg) x"
    and "length (to4 a) = 4" "net_contains (cfg_ip cfg) (to4 a)" "2 ^ 24 \<le> set_bytes (to4 a) + 1"
    and "set_bytes (to4 a) < set_bytes x"
  shows "x \<in> set (candidates cfg a)"
  using assms
proof (induction cfg a rule: candidates.induct)
  case (1 cfg a)
  let ?v = "set_bytes (to4 a)" and ?b = "next_ip a"
  have v: "?v + 1 < 2 ^ 32"
    using "1.prems"(4,10) set_bytes_bound [of x] by simp
  have b: "length ?b = 4" "set_bytes ?b = ?v + 1"
    using length_next_ip_4 [OF "1.prems"(9) v] by (simp_all add: next_ip_def)
  have contains: "net_contains (cfg_ip cfg) ?b"
    using net_contains_between [OF "1.prems"(1-3,7) b(1) "1.prems"(4,8,5)] "1.prems"(10) b(2) by simp
  show ?case
  proof (cases "x = ?b")
    case True
    with "1.prems"(6) show ?thesis by (simp add: candidates_step [OF contains])
  next
    case False
    then have "set_bytes ?b \<noteq> set_bytes x"
      using set_bytes_inj [of ?b x] b(1) "1.prems"(4) by metis
    then have "set_bytes (to4 ?b) < set_bytes x"
      using b "1.prems"(10) by simp
    moreover have "\<not> \<not> net_contains (cfg_ip cfg) ?b"
      using contains by simp
    ultimately have "x \<in> set (candidates cfg ?b)"
      using "1.IH" "1.prems" b contains by simp
    then show ?thesis by (simp add: candidates_step [OF contains])
  qed
qed

section \<open>The contract\<close>

text \<open>
  \<open>holder s a\<close> is the container that holds the four-byte address \<open>a\<close>.  Reserving gives a free
  address to the container and says whether it was free; releasing frees all addresses of a
  container; a container is contained when it holds an address.
\<close>

locale reservations =
  fixes ops :: "'s allocator_store"
    and ok :: "'s \<Rightarrow> bool"
    and holder :: "'s \<Rightarrow> ip \<Rightarrow> string option"
  assumes reserve_free: "ok s \<Longrightarrow> length a = 4 \<Longrightarrow> holder s a = None \<Longrightarrow>
      \<exists>t. as_reserve ops i a s = (Ok True, t) \<and> ok t \<and> holder t = (holder s)(a \<mapsto> i)"
    and reserve_held: "ok s \<Longrightarrow> length a = 4 \<Longrightarrow> holder s a \<noteq> None \<Longrightarrow>
      \<exists>t. as_reserve ops i a s = (Ok False, t) \<and> ok t \<and> holder t = holder s"
    and release: "ok s \<Longrightarrow>
      \<exists>t. as_release_by_id ops i s = (Ok (), t) \<and> ok t \<and>
        holder t = (\<lambda>a. if holder s a = Some i then None else holder s a)"
    and contains: "ok s \<Longrightarrow> as_contains ops i s \<longleftrightarrow> i \<in> ran (holder s)"
begin

text \<open>The loop returns the first candidate that is free, and reserves that one only.\<close>

lemma reserve_loop_first_free:
  "ok s \<Longrightarrow>
   \<exists>t. ok t \<and>
     (case find (\<lambda>b. holder s b = None) (candidates cfg a) of
        None \<Rightarrow> reserve_loop ops cfg i a s = (Err (Sentinel NoMoreAddressesError), t) \<and> holder t = holder s
      | Some b \<Rightarrow> reserve_loop ops cfg i a s = (Ok b, t) \<and> holder t = (holder s)(b \<mapsto> i))"
proof (induction cfg a arbitrary: s rule: candidates.induct)
  case (1 cfg a)
  let ?b = "next_ip a"
  show ?case
  proof (cases "net_contains (cfg_ip cfg) ?b")
    case False
    then show ?thesis
      using "1.prems" by (auto simp: candidates_stop reserve_loop.simps [of ops cfg i a])
  next
    case contains: True
    note len = contains_next_ip(1) [OF contains]
    show ?thesis
    proof (cases "ip_equal (cfg_gateway cfg) ?b")
      case True
      then have step: "reserve_loop ops cfg i a s = reserve_loop ops cfg i ?b s"
        using contains by (simp add: reserve_loop.simps [of ops cfg i a])
      show ?thesis
        using "1.IH" [of s] "1.prems" contains True
        unfolding step by (simp add: candidates_step)
    next
      case no_gateway: False
      show ?thesis
      proof (cases "holder s ?b")
        case None
        then show ?thesis
          using reserve_free [OF "1.prems" len, of i] contains no_gateway
          by (auto simp: candidates_step reserve_loop.simps [of ops cfg i a])
      next
        case (Some j)
        then obtain t where t: "as_reserve ops i ?b s = (Ok False, t)" "ok t" "holder t = holder s"
          using reserve_held [OF "1.prems" len, of i] by auto
        then have step: "reserve_loop ops cfg i a s = reserve_loop ops cfg i ?b t"
          using contains no_gateway by (simp add: reserve_loop.simps [of ops cfg i a])
        show ?thesis
          using "1.IH" [OF _ t(2)] contains no_gateway Some
          unfolding step t(3) [symmetric] by (simp add: candidates_step)
      qed
    qed
  qed
qed

end

section \<open>The memory store satisfies the contract\<close>

definition mem_ok :: "memory_store \<Rightarrow> bool" where
  "mem_ok s \<longleftrightarrow> distinct (map fst (allocated s)) \<and>
     (\<forall>k \<in> fst ` set (allocated s). \<exists>a. length a = 4 \<and> k = ip_string a)"

definition mem_holder :: "memory_store \<Rightarrow> ip \<Rightarrow> string option" where
  "mem_holder s a = (if length a = 4 then map_of (allocated s) (ip_string a) else None)"

lemma mem_ok_new [simp]: "mem_ok new_store"
  by (simp add: mem_ok_def new_store_def)

lemma mem_holder_new [simp]: "mem_holder new_store = (\<lambda>_. None)"
  by (simp add: mem_holder_def new_store_def fun_eq_iff)

lemma ip_string_inj_4: "length a = 4 \<Longrightarrow> length b = 4 \<Longrightarrow> ip_string a = ip_string b \<longleftrightarrow> a = b"
  by (simp add: ip_string_4 dotted_inj)

lemma map_of_filter_value:
  "distinct (map fst xs) \<Longrightarrow>
   map_of (filter (\<lambda>(k, v). v \<noteq> i) xs) k = (if map_of xs k = Some i then None else map_of xs k)"
  by (induction xs) (auto simp: map_of_eq_None_iff split: if_splits)

lemma mem_holder_map_of:
  "mem_ok s \<Longrightarrow> map_of (allocated s) k = Some i \<Longrightarrow> \<exists>a. k = ip_string a \<and> mem_holder s a = Some i"
  by (force simp: mem_ok_def mem_holder_def dest: map_of_SomeD)

lemma mem_contains_iff: "mem_ok s \<Longrightarrow> mem_contains i s \<longleftrightarrow> i \<in> ran (mem_holder s)"
proof
  assume s: "mem_ok s" "mem_contains i s"
  then obtain k where "(k, i) \<in> set (allocated s)"
    by (auto simp: mem_contains_def list_ex_iff)
  then have "map_of (allocated s) k = Some i"
    using s by (simp add: mem_ok_def)
  with s show "i \<in> ran (mem_holder s)"
    by (auto simp: ran_def dest: mem_holder_map_of)
next
  assume "mem_ok s" "i \<in> ran (mem_holder s)"
  then show "mem_contains i s"
    by (force simp: mem_contains_def list_ex_iff ran_def mem_holder_def
        dest: map_of_SomeD split: if_splits)
qed

interpretation mem: reservations mem_ops mem_ok mem_holder
proof unfold_locales
  fix s i and a :: ip
  assume s: "mem_ok s" "length a = 4"
  show "\<exists>t. as_reserve mem_ops i a s = (Ok True, t) \<and> mem_ok t \<and> mem_holder t = (mem_holder s)(a \<mapsto> i)"
    if "mem_holder s a = None"
    using s that ip_string_inj_4 [OF _ s(2)]
    by (auto simp: mem_ops_def mem_reserve_def mem_ok_def mem_holder_def fun_eq_iff map_of_eq_None_iff)
  show "\<exists>t. as_reserve mem_ops i a s = (Ok False, t) \<and> mem_ok t \<and> mem_holder t = mem_holder s"
    if "mem_holder s a \<noteq> None"
    using s that by (auto simp: mem_ops_def mem_reserve_def mem_holder_def)
next
  fix s i
  assume s: "mem_ok s"
  show "\<exists>t. as_release_by_id mem_ops i s = (Ok (), t) \<and> mem_ok t \<and>
      mem_holder t = (\<lambda>a. if mem_holder s a = Some i then None else mem_holder s a)"
    using s by (auto simp: mem_ops_def mem_release_by_id_def mem_ok_def mem_holder_def fun_eq_iff
        map_of_filter_value distinct_map_filter)
  show "as_contains mem_ops i s \<longleftrightarrow> i \<in> ran (mem_holder s)"
    using mem_contains_iff [OF s] by (simp add: mem_ops_def)
qed

end
