(* ===== verification/Ipam_Refine.thy ===== *)
theory Ipam_Refine
  imports Ipam_Store
begin

text \<open>
  What the allocator promises, as an abstract machine over "who holds which address of which
  network", and the proof that \<open>AllocateIP\<close> and \<open>ReleaseIP\<close> implement it.
\<close>

section \<open>The abstract machine\<close>

record ipam_spec =
  sp_config :: "string \<Rightarrow> ip_config"
  sp_holder :: "string \<Rightarrow> ip \<Rightarrow> string option"

text \<open>A network whose configuration names no gateway gets its first address as gateway.\<close>

definition set_gateway :: "ip_config \<Rightarrow> ip_config" where
  "set_gateway c =
     (if cfg_gateway c = [] then c\<lparr>cfg_gateway := next_ip (net_ip (cfg_ip c))\<rparr> else c)"

definition first_ip :: "ip_config \<Rightarrow> ip" where
  "first_ip c = (if cfg_gateway c = [] then next_ip (net_ip (cfg_ip c)) else net_ip (cfg_ip c))"

definition lease_of :: "ip_config \<Rightarrow> ip \<Rightarrow> cni_result" where
  "lease_of c a =
     \<lparr>res_ip4 = Some \<lparr>cfg_ip = \<lparr>net_ip = a, net_mask = net_mask (cfg_ip c)\<rparr>,
                      cfg_gateway = cfg_gateway c, cfg_routes = cfg_routes c\<rparr>\<rparr>"

text \<open>The addresses that may be leased in a network, in the order in which they are tried.\<close>

definition pool :: "ip_config \<Rightarrow> ip list" where
  "pool c = candidates (set_gateway c) (first_ip c)"

definition spec_allocate :: "string \<Rightarrow> string \<Rightarrow> (ipam_spec, cni_result) prog" where
  "spec_allocate n c S =
     (let cfg = sp_config S n; H = sp_holder S n
      in if c \<in> ran H then (Err (Sentinel AlreadyOnNetworkError), S)
         else
           (let S' = S\<lparr>sp_config := (sp_config S)(n := set_gateway cfg)\<rparr>
            in (case find (\<lambda>b. H b = None) (pool cfg) of
                  None \<Rightarrow> (Err (Sentinel NoMoreAddressesError), S')
                | Some b \<Rightarrow> (Ok (lease_of (set_gateway cfg) b),
                             S'\<lparr>sp_holder := (sp_holder S)(n := H(b \<mapsto> c))\<rparr>))))"

definition spec_release :: "string \<Rightarrow> string \<Rightarrow> (ipam_spec, unit) prog" where
  "spec_release n c S =
     (Ok (), S\<lparr>sp_holder := (sp_holder S)
        (n := (\<lambda>a. if sp_holder S n a = Some c then None else sp_holder S n a))\<rparr>)"

section \<open>Refinement, for any store that satisfies the contract\<close>

text \<open>A store factory makes empty stores; every network starts from the configuration \<open>base\<close>.\<close>

locale ip_allocation = reservations ops ok holder
  for ops :: "'s allocator_store" and ok :: "'s \<Rightarrow> bool" and holder :: "'s \<Rightarrow> ip \<Rightarrow> string option" +
  fixes sf :: "string \<Rightarrow> goerror + 's"
  assumes fresh_store: "\<exists>s. sf n = Inr s \<and> ok s \<and> holder s = (\<lambda>_. None)"
begin

definition abs_alloc :: "ip_config \<Rightarrow> 's allocator \<Rightarrow> ipam_spec" where
  "abs_alloc base a =
     \<lparr>sp_config = (\<lambda>n. case al_configs a n of None \<Rightarrow> base | Some c \<Rightarrow> c),
      sp_holder = (\<lambda>n. case al_stores a n of None \<Rightarrow> (\<lambda>_. None) | Some s \<Rightarrow> holder s)\<rparr>"

definition alloc_ok :: "'s allocator \<Rightarrow> bool" where
  "alloc_ok a \<longleftrightarrow> (\<forall>n s. al_stores a n = Some s \<longrightarrow> ok s)"

lemma get_config_refines:
  "\<exists>b. get_config (config_factory_create base) n a = (Ok (sp_config (abs_alloc base a) n), b) \<and>
     abs_alloc base b = abs_alloc base a \<and> al_stores b = al_stores a"
  by (auto simp: get_config_def config_factory_create_def abs_alloc_def fun_eq_iff split: option.splits)

lemma get_store_refines:
  assumes "alloc_ok a"
  shows "\<exists>s b. get_store sf n a = (Ok s, b) \<and> ok s \<and> holder s = sp_holder (abs_alloc base a) n \<and>
     abs_alloc base b = abs_alloc base a \<and> alloc_ok b \<and> al_configs b = al_configs a"
proof (cases "al_stores a n")
  case None
  then show ?thesis
    using fresh_store [of n] assms
    by (auto simp: get_store_def abs_alloc_def alloc_ok_def fun_eq_iff)
next
  case (Some s)
  then show ?thesis
    using assms by (auto simp: get_store_def abs_alloc_def alloc_ok_def)
qed

lemma abs_alloc_write:
  "abs_alloc base (a\<lparr>al_configs := (al_configs a)(n \<mapsto> c), al_stores := (al_stores a)(n \<mapsto> s)\<rparr>) =
   (abs_alloc base a)\<lparr>sp_config := (sp_config (abs_alloc base a))(n := c),
     sp_holder := (sp_holder (abs_alloc base a))(n := holder s)\<rparr>"
  by (simp add: abs_alloc_def fun_eq_iff)

lemma alloc_ok_write:
  "alloc_ok a \<Longrightarrow> ok s \<Longrightarrow>
   alloc_ok (a\<lparr>al_configs := cs, al_stores := (al_stores a)(n \<mapsto> s)\<rparr>)"
  by (auto simp: alloc_ok_def)

lemma allocate_ip_refines:
  assumes "alloc_ok a"
  shows "\<exists>r a'. allocate_ip ops sf (config_factory_create base) n c a = (r, a') \<and> alloc_ok a' \<and>
     spec_allocate n c (abs_alloc base a) = (r, abs_alloc base a')"
proof -
  let ?S = "abs_alloc base a" and ?cfg = "sp_config (abs_alloc base a) n"
  obtain b where b: "get_config (config_factory_create base) n a = (Ok ?cfg, b)"
      "abs_alloc base b = ?S" "al_stores b = al_stores a"
    using get_config_refines by blast
  then have "alloc_ok b" using assms by (simp add: alloc_ok_def)
  then obtain s d where d: "get_store sf n b = (Ok s, d)" "ok s" "holder s = sp_holder ?S n"
      "abs_alloc base d = ?S" "alloc_ok d"
    using get_store_refines [of b n base] b(2) by auto
  show ?thesis
  proof (cases "c \<in> ran (sp_holder ?S n)")
    case True
    then show ?thesis
      using b d contains [OF d(2), of c]
      by (simp add: allocate_ip_def bind_err_eval spec_allocate_def)
  next
    case False
    obtain r t where loop: "reserve_loop ops (set_gateway ?cfg) c (first_ip ?cfg) s = (r, t)"
      by (cases "reserve_loop ops (set_gateway ?cfg) c (first_ip ?cfg) s") auto
    let ?cs = "(al_configs d)(n \<mapsto> set_gateway ?cfg)" and ?ss = "(al_stores d)(n \<mapsto> t)"
    let ?a = "d\<lparr>al_configs := ?cs, al_stores := ?ss\<rparr>"
    have run: "allocate_ip ops sf (config_factory_create base) n c a =
        (case r of Ok x \<Rightarrow> Ok (lease_of (set_gateway ?cfg) x) | Err e \<Rightarrow> Err e | Abort x \<Rightarrow> Abort x, ?a)"
      using b d(1) contains [OF d(2), of c] False d(3) loop
      by (cases "cfg_gateway ?cfg = []")
         (simp_all add: allocate_ip_def bind_err_eval set_gateway_def first_ip_def lease_of_def Let_def
          split: outcome.split)
    obtain t' where "ok t'" and spec:
      "case find (\<lambda>b. holder s b = None) (pool ?cfg) of
         None \<Rightarrow> (r, t) = (Err (Sentinel NoMoreAddressesError), t') \<and> holder t' = holder s
       | Some b \<Rightarrow> (r, t) = (Ok b, t') \<and> holder t' = (holder s)(b \<mapsto> c)"
      using reserve_loop_first_free [OF d(2), where cfg = "set_gateway ?cfg" and a = "first_ip ?cfg" and i = c]
      unfolding loop pool_def by blast
    then have "ok t" by (auto split: option.splits)
    then have "alloc_ok ?a" using d(5) by (simp add: alloc_ok_write)
    moreover have "abs_alloc base ?a =
        ?S\<lparr>sp_config := (sp_config ?S)(n := set_gateway ?cfg), sp_holder := (sp_holder ?S)(n := holder t)\<rparr>"
      using abs_alloc_write [of base d n] d(4) by simp
    ultimately show ?thesis
      using spec False d(3) run
      by (auto simp: spec_allocate_def Let_def split: option.splits)
  qed
qed

lemma release_ip_refines:
  assumes "alloc_ok a"
  shows "\<exists>a'. release_ip ops sf n c a = (Ok (), a') \<and> alloc_ok a' \<and>
     spec_release n c (abs_alloc base a) = (Ok (), abs_alloc base a')"
proof -
  obtain s d where d: "get_store sf n a = (Ok s, d)" "ok s" "holder s = sp_holder (abs_alloc base a) n"
      "abs_alloc base d = abs_alloc base a" "alloc_ok d"
    using get_store_refines [OF assms] by blast
  obtain t where t: "as_release_by_id ops c s = (Ok (), t)" "ok t"
      "holder t = (\<lambda>b. if sp_holder (abs_alloc base a) n b = Some c then None
        else sp_holder (abs_alloc base a) n b)"
    using release [OF d(2)] unfolding d(3) by blast
  let ?a = "d\<lparr>al_stores := (al_stores d)(n \<mapsto> t)\<rparr>"
  have "alloc_ok ?a"
    using alloc_ok_write [OF d(5) t(2), where cs = "al_configs d" and n = n] by simp
  moreover have "abs_alloc base ?a =
      (abs_alloc base a)\<lparr>sp_holder := (sp_holder (abs_alloc base a))(n := holder t)\<rparr>"
    unfolding d(4) [symmetric] by (simp add: abs_alloc_def fun_eq_iff)
  ultimately show ?thesis
    using d(1,3) t(1,3) by (simp add: release_ip_def bind_err_eval spec_release_def)
qed

end

text \<open>The allocator of the daemon: memory stores made by \<open>StoreFactory\<close>.\<close>

interpretation mem_alloc: ip_allocation mem_ops mem_ok mem_holder store_factory_create
  by unfold_locales (simp add: store_factory_create_def)

end
