(* ===== verification/Ipam_Runs.thy ===== *)
theory Ipam_Runs
  imports Ipam_Refine
begin

text \<open>
  Sequences of calls of the daemon's allocator, as \<open>cmd/ducatid/main.go\<close> builds it, and what its
  clients can rely on over any such sequence.
\<close>

section \<open>The daemon's allocator and its calls\<close>

text \<open>
  \<open>ipam.New(&ipam.StoreFactory{}, ..., &ipam.ConfigFactory{Config: base}, ...)\<close>: every network
  starts from the same configuration.
\<close>

definition ducati_allocate :: "ip_config \<Rightarrow> string \<Rightarrow> string \<Rightarrow> (memory_store allocator, cni_result) prog" where
  "ducati_allocate base = allocate_ip mem_ops store_factory_create (config_factory_create base)"

definition ducati_release :: "string \<Rightarrow> string \<Rightarrow> (memory_store allocator, unit) prog" where
  "ducati_release = release_ip mem_ops store_factory_create"

datatype ipam_call =
    AllocateIP string string
  | ReleaseIP string string

datatype ipam_answer =
    Allocated "cni_result outcome"
  | Released "unit outcome"

fun ipam_step :: "ip_config \<Rightarrow> ipam_call \<Rightarrow> memory_store allocator \<Rightarrow> ipam_answer \<times> memory_store allocator" where
  "ipam_step base (AllocateIP n c) a = (case ducati_allocate base n c a of (r, b) \<Rightarrow> (Allocated r, b))"
| "ipam_step base (ReleaseIP n c) a = (case ducati_release n c a of (r, b) \<Rightarrow> (Released r, b))"

fun ipam_run :: "ip_config \<Rightarrow> ipam_call list \<Rightarrow> memory_store allocator \<Rightarrow> ipam_answer list \<times> memory_store allocator" where
  "ipam_run base [] a = ([], a)"
| "ipam_run base (x # xs) a =
     (case ipam_step base x a of (r, b) \<Rightarrow>
        (case ipam_run base xs b of (rs, d) \<Rightarrow> (r # rs, d)))"

text \<open>The same calls on the abstract machine.\<close>

definition spec_init :: "ip_config \<Rightarrow> ipam_spec" where
  "spec_init base = \<lparr>sp_config = (\<lambda>_. base), sp_holder = (\<lambda>_ _. None)\<rparr>"

fun spec_step :: "ipam_call \<Rightarrow> ipam_spec \<Rightarrow> ipam_answer \<times> ipam_spec" where
  "spec_step (AllocateIP n c) S = (case spec_allocate n c S of (r, T) \<Rightarrow> (Allocated r, T))"
| "spec_step (ReleaseIP n c) S = (case spec_release n c S of (r, T) \<Rightarrow> (Released r, T))"

fun spec_run :: "ipam_call list \<Rightarrow> ipam_spec \<Rightarrow> ipam_answer list \<times> ipam_spec" where
  "spec_run [] S = ([], S)"
| "spec_run (x # xs) S =
     (case spec_step x S of (r, T) \<Rightarrow> (case spec_run xs T of (rs, U) \<Rightarrow> (r # rs, U)))"

text \<open>Who holds an address of a network, as recorded in the allocator.\<close>

definition holds :: "memory_store allocator \<Rightarrow> string \<Rightarrow> ip \<Rightarrow> string option" where
  "holds a n = (case al_stores a n of None \<Rightarrow> (\<lambda>_. None) | Some s \<Rightarrow> mem_holder s)"

lemma holds_abs: "sp_holder (mem_alloc.abs_alloc base a) = holds a"
  by (simp add: mem_alloc.abs_alloc_def holds_def fun_eq_iff)

lemma holds_new [simp]: "holds new_allocator = (\<lambda>_ _. None)"
  by (simp add: holds_def new_allocator_def fun_eq_iff)

lemma abs_new: "mem_alloc.abs_alloc base new_allocator = spec_init base"
  by (simp add: mem_alloc.abs_alloc_def new_allocator_def spec_init_def)

lemma alloc_ok_new: "mem_alloc.alloc_ok new_allocator"
  by (simp add: mem_alloc.alloc_ok_def new_allocator_def)

section \<open>Runs refine\<close>

lemma ipam_step_refines:
  assumes "mem_alloc.alloc_ok a"
  shows "\<exists>r b. ipam_step base x a = (r, b) \<and> mem_alloc.alloc_ok b \<and>
    spec_step x (mem_alloc.abs_alloc base a) = (r, mem_alloc.abs_alloc base b)"
proof (cases x)
  case (AllocateIP n c)
  then show ?thesis
    using mem_alloc.allocate_ip_refines [OF assms, of base n c] by (auto simp: ducati_allocate_def)
next
  case (ReleaseIP n c)
  then show ?thesis
    using mem_alloc.release_ip_refines [OF assms, of n c base] by (auto simp: ducati_release_def)
qed

lemma ipam_run_refines:
  assumes "mem_alloc.alloc_ok a"
  shows "\<exists>rs b. ipam_run base xs a = (rs, b) \<and> mem_alloc.alloc_ok b \<and>
    spec_run xs (mem_alloc.abs_alloc base a) = (rs, mem_alloc.abs_alloc base b)"
  using assms
proof (induction xs arbitrary: a)
  case (Cons x xs)
  obtain r b where b: "ipam_step base x a = (r, b)" "mem_alloc.alloc_ok b"
    "spec_step x (mem_alloc.abs_alloc base a) = (r, mem_alloc.abs_alloc base b)"
    using ipam_step_refines [OF Cons.prems] by blast
  from Cons.IH [OF b(2)] show ?case
    using b by auto
qed simp

lemma reached_ok: "ipam_run base xs new_allocator = (rs, a) \<Longrightarrow> mem_alloc.alloc_ok a"
  using ipam_run_refines [OF alloc_ok_new, of base xs] by auto

lemma reached_spec:
  "ipam_run base xs new_allocator = (rs, a) \<Longrightarrow>
   spec_run xs (spec_init base) = (rs, mem_alloc.abs_alloc base a)"
  using ipam_run_refines [OF alloc_ok_new, of base xs] by (auto simp: abs_new)

text \<open>
  C3: Whatever sequence of \<open>AllocateIP\<close> and \<open>ReleaseIP\<close> calls is made of a new allocator, over any
  networks and containers, every answer (results and errors) is the one of the abstract machine
  that leases the first free address of the pool, and the addresses recorded in the stores are
  those of the machine.
\<close>

theorem ipam_implements_spec:
  "fst (ipam_run base calls new_allocator) = fst (spec_run calls (spec_init base)) \<and>
   holds (snd (ipam_run base calls new_allocator)) = sp_holder (snd (spec_run calls (spec_init base)))"
  using ipam_run_refines [OF alloc_ok_new, of base calls] by (auto simp: abs_new holds_abs)

section \<open>Invariants of the abstract machine\<close>

text \<open>
  A network's configuration is the base one, until the first allocation fixes the gateway; no
  container holds two addresses of a network; every held address is in the pool.
\<close>

definition spec_inv :: "ip_config \<Rightarrow> ipam_spec \<Rightarrow> bool" where
  "spec_inv base S \<longleftrightarrow>
     (\<forall>n. sp_config S n \<in> {base, set_gateway base}) \<and>
     (\<forall>n a b c. sp_holder S n a = Some c \<and> sp_holder S n b = Some c \<longrightarrow> a = b) \<and>
     (\<forall>n a. sp_holder S n a \<noteq> None \<longrightarrow> a \<in> set (pool base) \<union> set (pool (set_gateway base)))"

lemma set_gateway_idem [simp]: "set_gateway (set_gateway c) = set_gateway c"
  using length_next_ip [of "net_ip (cfg_ip c)"] by (simp add: set_gateway_def)

lemma spec_inv_init: "spec_inv base (spec_init base)"
  by (simp add: spec_inv_def spec_init_def)

lemma find_SomeD: "find P xs = Some x \<Longrightarrow> x \<in> set xs \<and> P x"
  by (induction xs) (auto split: if_splits)

lemma spec_step_inv:
  assumes "spec_inv base S" "spec_step x S = (r, T)"
  shows "spec_inv base T"
proof (cases x)
  case (AllocateIP n c)
  show ?thesis
  proof (cases "c \<in> ran (sp_holder S n)")
    case True
    then show ?thesis
      using assms AllocateIP by (simp add: spec_allocate_def)
  next
    case False
    let ?T = "S\<lparr>sp_config := (sp_config S)(n := set_gateway (sp_config S n))\<rparr>"
    have config: "\<forall>m. sp_config ?T m \<in> {base, set_gateway base}"
      using assms(1) by (auto simp: spec_inv_def)
    show ?thesis
    proof (cases "find (\<lambda>b. sp_holder S n b = None) (pool (sp_config S n))")
      case None
      then have "T = ?T" using assms(2) AllocateIP False by (simp add: spec_allocate_def Let_def)
      with config assms(1) show ?thesis by (simp add: spec_inv_def)
    next
      case (Some b)
      then have T: "T = ?T\<lparr>sp_holder := (sp_holder S)(n := (sp_holder S n)(b \<mapsto> c))\<rparr>"
        using assms(2) AllocateIP False by (simp add: spec_allocate_def Let_def)
      have "b \<in> set (pool base) \<union> set (pool (set_gateway base))"
        using find_SomeD [OF Some] assms(1) by (auto simp: spec_inv_def)
      with config assms(1) False show ?thesis
        by (auto simp: T spec_inv_def ran_def split: if_splits)
    qed
  qed
next
  case (ReleaseIP n c)
  then have "T = snd (spec_release n c S)" using assms(2) by (auto split: prod.splits)
  with assms(1) show ?thesis
    by (auto simp: spec_release_def spec_inv_def split: if_splits)
qed

lemma spec_run_inv: "spec_inv base S \<Longrightarrow> spec_run xs S = (rs, T) \<Longrightarrow> spec_inv base T"
proof (induction xs arbitrary: S rs)
  case (Cons x xs)
  then show ?case
    by (auto split: prod.splits dest: spec_step_inv)
qed simp

lemma reached_inv:
  "ipam_run base xs new_allocator = (rs, a) \<Longrightarrow> spec_inv base (mem_alloc.abs_alloc base a)"
  using spec_run_inv [OF spec_inv_init] reached_spec by blast

end
