(* ===== verification/Ipam_Props.thy ===== *)
theory Ipam_Props
  imports Ipam_Runs
begin

text \<open>
  What clients of the allocator can rely on: the leases they were told of never clash, an
  allocation succeeds as long as the subnet has a free address, the gateway is never leased,
  and a release makes room again.  Also where the code falls short: subnets whose addresses do
  not survive \<open>nextIP\<close>.
\<close>

section \<open>The ledger of leases\<close>

text \<open>
  What the clients know from the answers alone: a granted address is a lease of the container,
  a release ends the leases of the container.
\<close>

fun ledger_step ::
  "ipam_call \<Rightarrow> ipam_answer \<Rightarrow> (string \<times> ip \<times> string) list \<Rightarrow> (string \<times> ip \<times> string) list" where
  "ledger_step (AllocateIP n c) (Allocated (Ok res)) L =
     (case res_ip4 res of None \<Rightarrow> L | Some cfg \<Rightarrow> (n, net_ip (cfg_ip cfg), c) # L)"
| "ledger_step (ReleaseIP n c) (Released (Ok u)) L = filter (\<lambda>(m, a, d). \<not> (m = n \<and> d = c)) L"
| "ledger_step _ _ L = L"

fun ledger ::
  "ipam_call list \<Rightarrow> ipam_answer list \<Rightarrow> (string \<times> ip \<times> string) list \<Rightarrow> (string \<times> ip \<times> string) list" where
  "ledger (x # xs) (r # rs) L = ledger xs rs (ledger_step x r L)"
| "ledger _ _ L = L"

definition ledger_matches :: "(string \<times> ip \<times> string) list \<Rightarrow> (string \<Rightarrow> ip \<Rightarrow> string option) \<Rightarrow> bool" where
  "ledger_matches L H \<longleftrightarrow>
     distinct (map (\<lambda>(n, a, c). (n, a)) L) \<and> distinct (map (\<lambda>(n, a, c). (n, c)) L) \<and>
     (\<forall>n a c. (n, a, c) \<in> set L \<longleftrightarrow> H n a = Some c)"

lemma distinct_map_filter_leases:
  "distinct (map f L) \<Longrightarrow> distinct (map f (filter P L))"
  by (rule distinct_map_filter)

lemma ledger_step_matches:
  assumes "ledger_matches L (sp_holder S)" "spec_step x S = (r, T)"
  shows "ledger_matches (ledger_step x r L) (sp_holder T)"
proof (cases x)
  case (AllocateIP n c)
  show ?thesis
  proof (cases "c \<in> ran (sp_holder S n)")
    case True
    then show ?thesis
      using assms AllocateIP by (auto simp: spec_allocate_def)
  next
    case False
    then have none: "(n, a, c) \<notin> set L" for a
      using assms(1) by (auto simp: ledger_matches_def ran_def)
    show ?thesis
    proof (cases "find (\<lambda>b. sp_holder S n b = None) (pool (sp_config S n))")
      case None
      then show ?thesis
        using assms AllocateIP False by (auto simp: spec_allocate_def Let_def)
    next
      case (Some b)
      have "sp_holder S n b = None" using find_SomeD [OF Some] by simp
      then have free: "(n, b, d) \<notin> set L" for d
        using assms(1) by (auto simp: ledger_matches_def)
      have "ledger_step x r L = (n, b, c) # L" "sp_holder T = (sp_holder S)(n := (sp_holder S n)(b \<mapsto> c))"
        using assms(2) AllocateIP False Some by (auto simp: spec_allocate_def lease_of_def Let_def)
      with assms(1) none free show ?thesis
        by (auto simp: ledger_matches_def)
    qed
  qed
next
  case (ReleaseIP n c)
  then have "ledger_step x r L = filter (\<lambda>(m, a, d). \<not> (m = n \<and> d = c)) L" "T = snd (spec_release n c S)"
    using assms(2) by (auto simp: spec_release_def)
  with assms(1) show ?thesis
    by (auto simp: ledger_matches_def spec_release_def distinct_map_filter_leases)
qed

lemma ledger_matches_run:
  "ledger_matches L (sp_holder S) \<Longrightarrow> spec_run xs S = (rs, T) \<Longrightarrow>
   ledger_matches (ledger xs rs L) (sp_holder T)"
proof (induction xs arbitrary: S L rs)
  case (Cons x xs)
  obtain r U where U: "spec_step x S = (r, U)" by fastforce
  obtain qs where qs: "rs = r # qs" "spec_run xs U = (qs, T)"
    using Cons.prems(2) U by (auto split: prod.splits)
  from Cons.IH [OF ledger_step_matches [OF Cons.prems(1) U] qs(2)] qs(1) show ?case by simp
qed simp

text \<open>
  C6: The leases that clients were told of, in any sequence of calls, never clash: no address of a
  network is leased twice, no container has two addresses in a network, and the leases are
  exactly the addresses recorded in the allocator's stores.
\<close>

theorem leases_never_clash:
  "case ipam_run base calls new_allocator of
     (answers, a) \<Rightarrow>
       (let L = ledger calls answers []
        in distinct (map (\<lambda>(n, x, c). (n, x)) L) \<and> distinct (map (\<lambda>(n, x, c). (n, c)) L) \<and>
           (\<forall>n x c. (n, x, c) \<in> set L \<longleftrightarrow> holds a n x = Some c))"
proof -
  obtain rs a where run: "ipam_run base calls new_allocator = (rs, a)" by fastforce
  have "ledger_matches [] (sp_holder (spec_init base))"
    by (simp add: ledger_matches_def spec_init_def)
  from ledger_matches_run [OF this reached_spec [OF run]] run show ?thesis
    by (simp add: ledger_matches_def holds_abs)
qed

section \<open>Allocation\<close>

text \<open>The gateway of every network that has allocated an address.\<close>

definition gateway_of :: "ip_config \<Rightarrow> ip" where
  "gateway_of base = cfg_gateway (set_gateway base)"

lemma pool_sound:
  assumes "x \<in> set (pool c)" "c \<in> {base, set_gateway base}"
  shows "length x = 4" "net_contains (cfg_ip base) x" "\<not> ip_equal (gateway_of base) x"
proof -
  have "cfg_ip (set_gateway c) = cfg_ip base" "cfg_gateway (set_gateway c) = gateway_of base"
    using assms(2) by (auto simp: set_gateway_def gateway_of_def)
  then show "length x = 4" "net_contains (cfg_ip base) x" "\<not> ip_equal (gateway_of base) x"
    using candidates_sound [of x "set_gateway c" "first_ip c"] assms(1) by (simp_all add: pool_def)
qed

lemma allocate_from_reached:
  assumes run: "ipam_run base calls new_allocator = (answers, a)"
    and alloc: "ducati_allocate base n c a = (r, b)"
  shows "spec_allocate n c (mem_alloc.abs_alloc base a) = (r, mem_alloc.abs_alloc base b)"
    "sp_config (mem_alloc.abs_alloc base a) n \<in> {base, set_gateway base}"
    "sp_holder (mem_alloc.abs_alloc base a) = holds a" "sp_holder (mem_alloc.abs_alloc base b) = holds b"
proof -
  show "spec_allocate n c (mem_alloc.abs_alloc base a) = (r, mem_alloc.abs_alloc base b)"
    using mem_alloc.allocate_ip_refines [OF reached_ok [OF run], of base n c] alloc
    by (simp add: ducati_allocate_def)
  show "sp_config (mem_alloc.abs_alloc base a) n \<in> {base, set_gateway base}"
    using reached_inv [OF run] by (simp add: spec_inv_def)
qed (rule holds_abs)+

lemma allocate_facts:
  assumes run: "ipam_run base calls new_allocator = (answers, a)"
    and alloc: "ducati_allocate base n c a = (Ok res, b)"
  shows "\<exists>x. res = \<lparr>res_ip4 = Some \<lparr>cfg_ip = \<lparr>net_ip = x, net_mask = net_mask (cfg_ip base)\<rparr>,
                                   cfg_gateway = gateway_of base, cfg_routes = cfg_routes base\<rparr>\<rparr> \<and>
    length x = 4 \<and> net_contains (cfg_ip base) x \<and> \<not> ip_equal (gateway_of base) x \<and>
    holds a n x = None \<and> c \<notin> ran (holds a n) \<and> holds b = (holds a)(n := (holds a n)(x \<mapsto> c))"
proof -
  note facts = allocate_from_reached [OF run alloc]
  let ?cfg = "sp_config (mem_alloc.abs_alloc base a) n"
  have free: "c \<notin> ran (holds a n)"
    using facts(1,3) by (auto simp: spec_allocate_def)
  then obtain x where x: "find (\<lambda>y. holds a n y = None) (pool ?cfg) = Some x"
    using facts(1,3) by (cases "find (\<lambda>y. holds a n y = None) (pool ?cfg)")
      (auto simp: spec_allocate_def Let_def)
  from facts(1) have "(Ok res, mem_alloc.abs_alloc base b) = spec_allocate n c (mem_alloc.abs_alloc base a)"
    by simp
  also have "\<dots> = (Ok (lease_of (set_gateway ?cfg) x),
      (mem_alloc.abs_alloc base a)\<lparr>sp_config := (sp_config (mem_alloc.abs_alloc base a))(n := set_gateway ?cfg),
        sp_holder := (holds a)(n := (holds a n)(x \<mapsto> c))\<rparr>)"
    using x facts(3) free by (simp add: spec_allocate_def Let_def)
  finally have res: "res = lease_of (set_gateway ?cfg) x"
      "sp_holder (mem_alloc.abs_alloc base b) = (holds a)(n := (holds a n)(x \<mapsto> c))"
    by simp_all
  have "lease_of (set_gateway ?cfg) x = lease_of (set_gateway base) x"
    using facts(2) by auto
  then have "res = \<lparr>res_ip4 = Some \<lparr>cfg_ip = \<lparr>net_ip = x, net_mask = net_mask (cfg_ip base)\<rparr>,
      cfg_gateway = gateway_of base, cfg_routes = cfg_routes base\<rparr>\<rparr>"
    using res(1) by (simp add: lease_of_def gateway_of_def set_gateway_def)
  moreover have "x \<in> set (pool ?cfg)" "holds a n x = None"
    using find_SomeD [OF x] by simp_all
  moreover note pool_sound [OF this(1) facts(2)]
  ultimately show ?thesis
    using res(2) facts(4) free by simp
qed

text \<open>
  C10: A successful \<open>AllocateIP\<close>, after any calls, leases an address of the network's subnet that is
  not the gateway and that nobody held, to a container that held none; the answer carries it with
  the subnet's mask and the gateway, and no other reservation, in this network or another, changes.
\<close>

theorem allocate_success:
  assumes run: "ipam_run base calls new_allocator = (answers, a)"
    and alloc: "ducati_allocate base n c a = (Ok res, b)"
  shows "\<exists>x. res = \<lparr>res_ip4 = Some \<lparr>cfg_ip = \<lparr>net_ip = x, net_mask = net_mask (cfg_ip base)\<rparr>,
                                   cfg_gateway = gateway_of base, cfg_routes = cfg_routes base\<rparr>\<rparr> \<and>
    length x = 4 \<and> net_contains (cfg_ip base) x \<and> \<not> ip_equal (gateway_of base) x \<and>
    holds a n x = None \<and> c \<notin> ran (holds a n) \<and> holds b = (holds a)(n := (holds a n)(x \<mapsto> c))"
  by (rule allocate_facts [OF assms])

text \<open>An example: the subnet 192.168.1.0/29, whose first address becomes the gateway.\<close>

definition lan :: ip_config where
  "lan = \<lparr>cfg_ip = \<lparr>net_ip = ipv4_16 [192, 168, 1, 0], net_mask = cidr_mask 29 32\<rparr>, cfg_gateway = [], cfg_routes = []\<rparr>"

lemma allocate_success_witness:
  "\<exists>x. length x = 4 \<and> net_contains (cfg_ip lan) x \<and>
     holds (snd (ducati_allocate lan ''n'' ''c'' (snd (ipam_run lan [AllocateIP ''n'' ''b''] new_allocator)))) ''n'' x = Some ''c''"
proof -
  obtain answers a where run: "ipam_run lan [AllocateIP ''n'' ''b''] new_allocator = (answers, a)"
    by fastforce
  obtain r b where alloc: "ducati_allocate lan ''n'' ''c'' a = (r, b)"
    by fastforce
  have "fst (ducati_allocate lan ''n'' ''c'' (snd (ipam_run lan [AllocateIP ''n'' ''b''] new_allocator))) =
    Ok \<lparr>res_ip4 = Some \<lparr>cfg_ip = \<lparr>net_ip = [192, 168, 1, 3], net_mask = [255, 255, 255, 248]\<rparr>,
       cfg_gateway = [192, 168, 1, 1], cfg_routes = []\<rparr>\<rparr>"
    by code_simp
  then obtain res where "r = Ok res"
    using run alloc by simp
  from allocate_success [OF run alloc [unfolded this]] show ?thesis
    using run alloc by auto
qed

section \<open>An allocation succeeds while the subnet has a free address\<close>

lemma pool_complete:
  assumes net: "length (to4 (net_ip (cfg_ip base))) = 4" "net_mask (cfg_ip base) = cidr_mask ones 32" "ones \<le> 32"
    and start: "2 ^ 24 \<le> set_bytes (to4 (net_ip (cfg_ip base))) + 1"
    and x: "length x = 4" "net_contains (cfg_ip base) x" "\<not> ip_equal (gateway_of base) x"
      "set_bytes (to4 (net_ip (cfg_ip base))) < set_bytes x"
    and c: "c \<in> {base, set_gateway base}"
  shows "x \<in> set (pool c)"
proof -
  let ?start = "net_ip (cfg_ip base)"
  let ?v = "set_bytes (to4 ?start)"
  have same: "cfg_ip (set_gateway c) = cfg_ip base" "cfg_gateway (set_gateway c) = gateway_of base"
    using c by (auto simp: set_gateway_def gateway_of_def)
  have self: "net_contains (cfg_ip base) (to4 ?start)"
    using net_contains_prefix [OF net net(1)] by simp
  have from_start: "x \<in> set (candidates (set_gateway c) ?start)"
    using candidates_complete [of "set_gateway c" ones x ?start] net x start self same by simp
  show ?thesis
  proof (cases "cfg_gateway c = []")
    case False
    then show ?thesis
      using from_start c by (auto simp: pool_def first_ip_def set_gateway_def split: if_splits)
  next
    case True
    then have cb: "c = base"
      using c length_next_ip(2) [of ?start] by (auto simp: set_gateway_def split: if_splits)
    with True have g: "gateway_of base = next_ip ?start"
      by (simp add: gateway_of_def set_gateway_def)
    have contains: "net_contains (cfg_ip (set_gateway c)) (next_ip ?start)"
      using from_start candidates_stop [of "set_gateway c" ?start] by fastforce
    have "ip_equal (cfg_gateway (set_gateway c)) (next_ip ?start)"
      using same(2) g by (simp add: ip_equal_def)
    then have "candidates (set_gateway c) ?start = candidates (set_gateway c) (next_ip ?start)"
      by (simp add: candidates_step [OF contains])
    then show ?thesis
      using from_start True by (simp add: pool_def first_ip_def cb)
  qed
qed

lemma find_in_order:
  assumes "x \<in> set xs" "P x" "sorted_wrt (\<lambda>a b. f a < (f b :: nat)) xs"
  shows "\<exists>y. find P xs = Some y \<and> f y \<le> f x"
  using assms by (induction xs) (auto intro: less_imp_le)

text \<open>
  C11: After any calls: if some address of an IPv4 subnet beyond its network address is neither held
  nor the gateway, \<open>AllocateIP\<close> for a container that is not yet on the network succeeds, with an
  address not above that one.  (The network address must be at least 0.255.255.255; see below.)
\<close>

theorem allocate_live:
  assumes run: "ipam_run base calls new_allocator = (answers, a)"
    and net: "length (to4 (net_ip (cfg_ip base))) = 4" "net_mask (cfg_ip base) = cidr_mask ones 32" "ones \<le> 32"
    and start: "2 ^ 24 \<le> set_bytes (to4 (net_ip (cfg_ip base))) + 1"
    and x: "length x = 4" "net_contains (cfg_ip base) x" "\<not> ip_equal (gateway_of base) x"
      "set_bytes (to4 (net_ip (cfg_ip base))) < set_bytes x"
    and free: "holds a n x = None" "c \<notin> ran (holds a n)"
  shows "\<exists>res cfg. fst (ducati_allocate base n c a) = Ok res \<and> res_ip4 res = Some cfg \<and>
    set_bytes (net_ip (cfg_ip cfg)) \<le> set_bytes x"
proof -
  obtain r b where alloc: "ducati_allocate base n c a = (r, b)" by fastforce
  note facts = allocate_from_reached [OF run alloc]
  let ?cfg = "sp_config (mem_alloc.abs_alloc base a) n"
  obtain y where y: "find (\<lambda>y. holds a n y = None) (pool ?cfg) = Some y" "set_bytes y \<le> set_bytes x"
    using find_in_order [of x "pool ?cfg" "\<lambda>y. holds a n y = None" set_bytes]
      pool_complete [OF net start x facts(2)] free(1) candidates_sorted
    by (auto simp: pool_def)
  then have "r = Ok (lease_of (set_gateway ?cfg) y)"
    using facts(1,3) free(2) by (simp add: spec_allocate_def Let_def)
  with y(2) show ?thesis by (simp add: alloc lease_of_def)
qed

lemma allocate_live_witness:
  "\<exists>res cfg. fst (ducati_allocate lan ''n'' ''c'' (snd (ipam_run lan [AllocateIP ''n'' ''b''] new_allocator))) = Ok res \<and>
     res_ip4 res = Some cfg \<and> set_bytes (net_ip (cfg_ip cfg)) \<le> 3232235782"
proof -
  obtain answers a where run: "ipam_run lan [AllocateIP ''n'' ''b''] new_allocator = (answers, a)"
    by fastforce
  have a: "a = snd (ipam_run lan [AllocateIP ''n'' ''b''] new_allocator)"
    using run by simp
  have stores: "al_stores a ''n'' = Some \<lparr>allocated = [(''192.168.1.2'', ''b'')]\<rparr>"
    unfolding a by code_simp
  then have holds: "holds a ''n'' = mem_holder \<lparr>allocated = [(''192.168.1.2'', ''b'')]\<rparr>"
    by (simp add: holds_def)
  have free: "holds a ''n'' [192, 168, 1, 6] = None"
    unfolding holds by code_simp
  have new: "''c'' \<notin> ran (holds a ''n'')"
    unfolding holds by (auto simp: mem_holder_def ran_def split: if_splits)
  have n1: "length (to4 (net_ip (cfg_ip lan))) = 4" by code_simp
  have n2: "net_mask (cfg_ip lan) = cidr_mask 29 32" by code_simp
  have n3: "2 ^ 24 \<le> set_bytes (to4 (net_ip (cfg_ip lan))) + 1" by code_simp
  have n4: "net_contains (cfg_ip lan) [192, 168, 1, 6]" by code_simp
  have n5: "\<not> ip_equal (gateway_of lan) [192, 168, 1, 6]" by code_simp
  have n6: "set_bytes (to4 (net_ip (cfg_ip lan))) < set_bytes [192, 168, 1, 6]" by code_simp
  have n7: "set_bytes [192, 168, 1, 6] = 3232235782" by code_simp
  show ?thesis
    using allocate_live [OF run n1 n2 _ n3 _ n4 n5 n6 free new] unfolding n7 a by simp
qed

section \<open>Errors and releases\<close>

lemma release_from_reached:
  assumes run: "ipam_run base calls new_allocator = (answers, a)"
    and release: "ducati_release n c a = (r, b)"
  shows "r = Ok ()" "holds b = (holds a)(n := (\<lambda>x. if holds a n x = Some c then None else holds a n x))"
proof -
  have eq: "spec_release n c (mem_alloc.abs_alloc base a) = (r, mem_alloc.abs_alloc base b) \<and> r = Ok ()"
    using mem_alloc.release_ip_refines [OF reached_ok [OF run], of n c base] release
    by (auto simp: ducati_release_def)
  then have "sp_holder (mem_alloc.abs_alloc base b) = sp_holder (snd (spec_release n c (mem_alloc.abs_alloc base a)))"
    by simp
  then show "holds b = (holds a)(n := (\<lambda>x. if holds a n x = Some c then None else holds a n x))"
    unfolding holds_abs [of base, symmetric] by (simp add: spec_release_def)
  show "r = Ok ()" using eq by simp
qed

lemma allocate_error_facts:
  assumes run: "ipam_run base calls new_allocator = (answers, a)"
    and alloc: "ducati_allocate base n c a = (r, b)"
  shows "(r = Err (Sentinel AlreadyOnNetworkError) \<longleftrightarrow> c \<in> ran (holds a n)) \<and>
    (is_ok r \<or> r = Err (Sentinel AlreadyOnNetworkError) \<or> r = Err (Sentinel NoMoreAddressesError)) \<and>
    (\<not> is_ok r \<longrightarrow> holds b = holds a)"
proof -
  note facts = allocate_from_reached [OF run alloc]
  show ?thesis
  proof (cases "c \<in> ran (holds a n)")
    case True
    then show ?thesis
      using facts by (auto simp: spec_allocate_def)
  next
    case False
    show ?thesis
    proof (cases "find (\<lambda>y. holds a n y = None) (pool (sp_config (mem_alloc.abs_alloc base a) n))")
      case None
      then have "r = Err (Sentinel NoMoreAddressesError)"
        "mem_alloc.abs_alloc base b = (mem_alloc.abs_alloc base a)\<lparr>sp_config := (sp_config (mem_alloc.abs_alloc base a))
           (n := set_gateway (sp_config (mem_alloc.abs_alloc base a) n))\<rparr>"
        using facts(1,3) False by (simp_all add: spec_allocate_def Let_def)
      with facts(3,4) False show ?thesis by simp
    next
      case (Some x)
      then have "is_ok r"
        using facts(1,3) False by (auto simp: spec_allocate_def Let_def)
      with False show ?thesis by auto
    qed
  qed
qed

text \<open>
  C32: \<open>AllocateIP\<close> fails, after any calls, in two ways only: with \<open>AlreadyOnNetworkError\<close> exactly
  when the container holds an address of the network, and else with \<open>NoMoreAddressesError\<close>; a
  failed call changes no reservation.
\<close>

theorem allocate_errors:
  assumes run: "ipam_run base calls new_allocator = (answers, a)"
    and alloc: "ducati_allocate base n c a = (r, b)"
  shows "(r = Err (Sentinel AlreadyOnNetworkError) \<longleftrightarrow> c \<in> ran (holds a n)) \<and>
    (is_ok r \<or> r = Err (Sentinel AlreadyOnNetworkError) \<or> r = Err (Sentinel NoMoreAddressesError)) \<and>
    (\<not> is_ok r \<longrightarrow> holds b = holds a)"
  by (rule allocate_error_facts [OF assms])

lemma allocate_errors_witness:
  "fst (ducati_allocate lan ''n'' ''b'' (snd (ipam_run lan [AllocateIP ''n'' ''b''] new_allocator))) =
   Err (Sentinel AlreadyOnNetworkError)"
proof -
  obtain answers a where run: "ipam_run lan [AllocateIP ''n'' ''b''] new_allocator = (answers, a)"
    by fastforce
  obtain r b where alloc: "ducati_allocate lan ''n'' ''b'' a = (r, b)"
    by fastforce
  have "al_stores (snd (ipam_run lan [AllocateIP ''n'' ''b''] new_allocator)) ''n'' =
      Some \<lparr>allocated = [(''192.168.1.2'', ''b'')]\<rparr>"
    by code_simp
  then have holds: "holds a ''n'' = mem_holder \<lparr>allocated = [(''192.168.1.2'', ''b'')]\<rparr>"
    using run by (simp add: holds_def)
  have "mem_holder \<lparr>allocated = [(''192.168.1.2'', ''b'')]\<rparr> [192, 168, 1, 2] = Some ''b''"
    by code_simp
  then have "''b'' \<in> ran (holds a ''n'')"
    unfolding holds by (auto intro: ranI)
  with allocate_errors [OF run alloc] show ?thesis
    using run alloc by simp
qed

text \<open>
  C33: \<open>ReleaseIP\<close> always succeeds, after any calls; it frees exactly the addresses the container
  held in that network, and a following \<open>AllocateIP\<close> of the container is not refused as being on
  the network already.
\<close>

theorem release_frees:
  assumes run: "ipam_run base calls new_allocator = (answers, a)"
    and release: "ducati_release n c a = (r, b)"
  shows "r = Ok () \<and>
    (\<forall>m x. holds b m x = (if m = n \<and> holds a m x = Some c then None else holds a m x)) \<and>
    fst (ducati_allocate base n c b) \<noteq> Err (Sentinel AlreadyOnNetworkError)"
proof -
  note rel = release_from_reached [OF run release]
  have ok: "mem_alloc.alloc_ok b"
    using mem_alloc.release_ip_refines [OF reached_ok [OF run], of n c] release
    by (auto simp: ducati_release_def)
  have "c \<notin> ran (holds b n)"
    by (auto simp: rel(2) ran_def)
  then have "fst (spec_allocate n c (mem_alloc.abs_alloc base b)) \<noteq> Err (Sentinel AlreadyOnNetworkError)"
    by (auto simp: spec_allocate_def holds_abs Let_def split: option.split)
  then have "fst (ducati_allocate base n c b) \<noteq> Err (Sentinel AlreadyOnNetworkError)"
    using mem_alloc.allocate_ip_refines [OF ok, of base n c] by (auto simp: ducati_allocate_def)
  then show ?thesis
    using rel by auto
qed

lemma release_frees_witness:
  "fst (ducati_allocate lan ''n'' ''b''
     (snd (ducati_release ''n'' ''b'' (snd (ipam_run lan [AllocateIP ''n'' ''b''] new_allocator))))) \<noteq>
   Err (Sentinel AlreadyOnNetworkError)"
proof -
  obtain answers a where run: "ipam_run lan [AllocateIP ''n'' ''b''] new_allocator = (answers, a)"
    by fastforce
  obtain r b where release: "ducati_release ''n'' ''b'' a = (r, b)"
    by fastforce
  from release_frees [OF run release] show ?thesis
    using run release by simp
qed

section \<open>Subnets that can never allocate\<close>

text \<open>
  \<open>nextIP\<close> goes through a number and drops leading zero bytes, and \<open>To4\<close> of an IPv6 address is
  \<open>nil\<close>, which counts as 0.  So in an IPv6 subnet, and in an IPv4 subnet below 0.255.255.255,
  the first address tried is malformed and the search ends at once.
\<close>

lemma pool_low:
  assumes "set_bytes (to4 (net_ip (cfg_ip base))) + 1 < 2 ^ 24" "c \<in> {base, set_gateway base}"
  shows "pool c = []"
proof -
  let ?start = "net_ip (cfg_ip base)"
  have ip: "cfg_ip c = cfg_ip base" "cfg_ip (set_gateway c) = cfg_ip base"
    using assms(2) by (auto simp: set_gateway_def)
  have short: "length (next_ip ?start) \<le> 3"
    using assms(1) by (simp add: next_ip_def length_nat_bytes)
  then have "to4 (next_ip ?start) = []"
    by (simp add: to4_def)
  then have "next_ip (next_ip ?start) = nat_bytes 1"
    by (simp add: next_ip_def)
  moreover have "length (nat_bytes 1) \<le> 1"
    by (simp only: length_nat_bytes) simp
  ultimately have "length (next_ip a) \<noteq> 4" if "a = ?start \<or> a = next_ip ?start" for a
    using short that by auto
  then have "length (next_ip (first_ip c)) \<noteq> 4"
    using ip(1) by (auto simp: first_ip_def)
  then show ?thesis
    using contains_next_ip(1) by (auto simp: pool_def intro!: candidates_stop)
qed

text \<open>
  C12: In an IPv6 subnet (which the daemon's configuration accepts), and in an IPv4 subnet whose
  network address is below 0.255.255.255, no call of \<open>AllocateIP\<close> ever succeeds: every container
  is told that no addresses are available.
\<close>

theorem low_subnets_never_allocate:
  assumes run: "ipam_run base calls new_allocator = (answers, a)"
    and low: "set_bytes (to4 (net_ip (cfg_ip base))) + 1 < 2 ^ 24"
  shows "fst (ducati_allocate base n c a) = Err (Sentinel NoMoreAddressesError)"
proof -
  obtain r b where alloc: "ducati_allocate base n c a = (r, b)" by fastforce
  note facts = allocate_from_reached [OF run alloc]
  have none: "holds a m x = None" for m x
    using reached_inv [OF run] pool_low [OF low]
    by (auto simp: spec_inv_def holds_abs)
  then have "c \<notin> ran (holds a n)" by (simp add: ran_def)
  then show ?thesis
    using facts(1,3) pool_low [OF low facts(2)] alloc by (simp add: spec_allocate_def Let_def)
qed

lemma low_subnets_never_allocate_witness:
  "fst (ducati_allocate
     \<lparr>cfg_ip = \<lparr>net_ip = parse_ip ''2001:db8::'', net_mask = cidr_mask 64 128\<rparr>, cfg_gateway = [], cfg_routes = []\<rparr>
     ''n'' ''c'' new_allocator) = Err (Sentinel NoMoreAddressesError)"
proof -
  have "set_bytes (to4 (parse_ip ''2001:db8::'')) + 1 < 2 ^ 24"
    by code_simp
  then show ?thesis
    using low_subnets_never_allocate
      [where calls = "[]" and answers = "[]" and a = new_allocator
        and base = "\<lparr>cfg_ip = \<lparr>net_ip = parse_ip ''2001:db8::'', net_mask = cidr_mask 64 128\<rparr>,
          cfg_gateway = [], cfg_routes = []\<rparr>"]
    by simp
qed

end
