(* ===== verification/Cni.thy ===== *)
theory Cni
  imports Container Ipam_Props
begin

text \<open>
  The controllers of CNI requests (\<open>cni/cni_add.go\<close>, \<open>cni/cni_del.go\<close>) over all components, and
  the state of the whole daemon.
\<close>

section \<open>The daemon\<close>

record 'k daemon = "'k exec_world" +
  ipam_state :: "memory_store allocator"

text \<open>What \<open>main.go\<close> configures: the base configuration of the networks and the creator.\<close>

record 'k wiring =
  su_base :: ip_config
  su_default_network :: string
  su_creator :: "'k creator"

definition su_os :: "'k wiring \<Rightarrow> 'k os" where
  "su_os S = env_os (cr_env (su_creator S))"

definition on_ipam :: "(memory_store allocator, 'a) prog \<Rightarrow> (('k, 'z) daemon_scheme, 'a) prog" where
  "on_ipam m s = (case m (ipam_state s) of (r, a) \<Rightarrow> (r, s\<lparr>ipam_state := a\<rparr>))"

section \<open>The controllers\<close>

text \<open>\<open>models.CNIAddPayload\<close> and \<open>models.CNIDelPayload\<close>\<close>

record cni_add_payload =
  ap_args :: string
  ap_container_namespace :: string
  ap_interface_name :: string
  ap_ipam :: cni_result
  ap_network :: network_payload
  ap_container_id :: string

record cni_del_payload =
  dp_interface_name :: string
  dp_container_namespace :: string
  dp_container_id :: string

definition creator_config_of :: "cni_add_payload \<Rightarrow> string \<Rightarrow> int \<Rightarrow> cni_result \<Rightarrow> creator_config" where
  "creator_config_of p network vni result =
     \<lparr>cc_network_id = network, cc_app = np_app_id (ap_network p), cc_container_ns_path = ap_container_namespace p,
      cc_container_id = ap_container_id p, cc_interface_name = ap_interface_name p, cc_vni = vni,
      cc_ipam_result = result\<rparr>"

definition cni_add :: "'k wiring \<Rightarrow> cni_add_payload \<Rightarrow> (('k, 'z) daemon_scheme, cni_result) prog" where
  "cni_add S p =
     bind_wrap ''get network id'' (pick (get_network_id (su_default_network S) (ap_network p))) (\<lambda>network.
     bind_wrap ''get vni'' (pick (get_vni network)) (\<lambda>vni.
     bind_err (on_ipam (ducati_allocate (su_base S) network (ap_container_id p))) (\<lambda>result.
     bind_wrap ''container setup'' (creator_setup (su_creator S) (creator_config_of p network vni result)) (\<lambda>c.
     bind_wrap ''datastore create'' (store_create (su_os S) c) (\<lambda>_. ret result)))))"

definition cni_del :: "'k wiring \<Rightarrow> cni_del_payload \<Rightarrow> (('k, 'z) daemon_scheme, unit) prog" where
  "cni_del S p =
     bind_wrap ''datastore get'' (store_get (su_os S) (dp_container_id p)) (\<lambda>record.
     bind_wrap ''get vni'' (pick (get_vni (ctr_network_id record))) (\<lambda>vni.
     bind_wrap ''deletor''
       (deletor_delete (cr_env (su_creator S)) (dp_interface_name p) (dp_container_namespace p)
          (sandbox_name vni) (vxlan_name vni)) (\<lambda>_.
     bind_wrap ''datastore delete'' (store_delete (su_os S) (dp_container_id p)) (\<lambda>_.
     bind_wrap ''release ip'' (on_ipam (ducati_release (ctr_network_id record) (dp_container_id p))) (\<lambda>_. ret ())))))"

section \<open>The creator does not touch the allocator\<close>

text \<open>\<open>confined m\<close>: a program on the other components that leaves the allocator alone.\<close>

definition confined :: "(('k, 'z) daemon_scheme, 'a) prog \<Rightarrow> bool" where
  "confined m \<longleftrightarrow> (\<forall>s. ipam_state (snd (m s)) = ipam_state s)"

named_theorems confined_intros \<open>programs that leave the allocator alone\<close>

lemma confinedI: "(\<And>s. ipam_state (snd (m s)) = ipam_state s) \<Longrightarrow> confined m"
  by (simp add: confined_def)

lemma confinedD: "confined m \<Longrightarrow> m s = (r, t) \<Longrightarrow> ipam_state t = ipam_state s"
  unfolding confined_def by (metis snd_conv)

lemma confined_basic [confined_intros]:
  "confined (ret x)" "confined (fail e)" "confined (panic t)" "confined (pick p)" "confined deadlock"
  "confined (gets g)" "confined (sys f)" "confined (sys_do h)"
  by (rule confinedI; simp add: ret_def fail_def panic_def pick_def deadlock_def gets_def sys_def sys_do_def
      split: sum.split prod.split)+

lemma confined_attempt [confined_intros]:
  assumes "confined m" "\<And>e. confined (h e)" "\<And>x. confined (k x)"
  shows "confined (attempt m h k)"
proof (rule confinedI)
  fix s
  obtain r t where mt: "m s = (r, t)" by fastforce
  with assms(1) have "ipam_state t = ipam_state s" by (rule confinedD)
  with mt assms(2,3) show "ipam_state (snd (attempt m h k s)) = ipam_state s"
    by (cases r) (simp_all add: attempt_eval confined_def)
qed

lemma confined_bind [confined_intros]:
  "confined m \<Longrightarrow> (\<And>x. confined (k x)) \<Longrightarrow> confined (bind_wrap p m k)"
  "confined m \<Longrightarrow> (\<And>x. confined (k x)) \<Longrightarrow> confined (bind_err m k)"
  by (simp_all add: bind_wrap_def bind_err_def confined_intros)

lemma confined_if [confined_intros]:
  "(b \<Longrightarrow> confined m) \<Longrightarrow> (\<not> b \<Longrightarrow> confined n) \<Longrightarrow> confined (if b then m else n)"
  by simp

lemma confined_modify: "(\<And>s. ipam_state (f s) = ipam_state s) \<Longrightarrow> confined (modify f)"
  by (simp add: confined_def modify_def)

lemma confined_deferring:
  "confined m \<Longrightarrow> (\<And>s. ipam_state (d s) = ipam_state s) \<Longrightarrow> confined (deferring d m)"
  by (simp add: confined_def deferring_def split: prod.split) (metis snd_conv)

lemma confined_system: "system_only m \<Longrightarrow> confined m"
proof (rule confinedI)
  fix s assume "system_only m"
  then have "(snd (m s))\<lparr>kernel := kernel s\<rparr> = s\<lparr>kernel := kernel s\<rparr>"
    by (simp add: system_only_def)
  then have "ipam_state ((snd (m s))\<lparr>kernel := kernel s\<rparr>) = ipam_state (s\<lparr>kernel := kernel s\<rparr>)"
    by simp
  then show "ipam_state (snd (m s)) = ipam_state s" by simp
qed

lemmas confined_systems [confined_intros] =
  system_only_links [THEN confined_system] system_only_store [THEN confined_system]
  system_only_watcher [THEN confined_system] system_only_namespace(2-) [THEN confined_system]

lemma confined_restoring:
  assumes "confined m" "confined d"
  shows "confined (restoring d m)"
proof (rule confinedI)
  fix s
  obtain r t where mt: "m s = (r, t)" by fastforce
  obtain q u where du: "d t = (q, u)" by fastforce
  from confinedD [OF assms(1) mt] confinedD [OF assms(2) du]
  show "ipam_state (snd (restoring d m s)) = ipam_state s"
    using mt du by (simp add: restoring_def split: outcome.split)
qed

lemma confined_ns_execute [confined_intros]:
  assumes "\<And>f. confined (callback f)"
  shows "confined (ns_execute os ns callback)"
proof -
  have "confined (\<lambda>s. sys (os_open os (task_namespace_path os (kernel s))) s)"
    using confined_basic(7) by (fastforce simp: confined_def)
  then show ?thesis
    unfolding ns_execute_def using assms
    by (intro confined_bind confined_deferring confined_restoring confined_basic)
       (auto simp: close_file_def)
qed

lemma confined_monitor_steps [confined_intros]:
  "confined (new_done_chan ns)" "confined (modify (\<lambda>s. s\<lparr>inserters := f s\<rparr>))"
  "confined (modify (\<lambda>s. s\<lparr>subscriptions := g s\<rparr>))"
  by (simp_all add: confined_def new_done_chan_def modify_def)

lemma confined_start_monitor [confined_intros]: "confined (start_monitor os ns vxlan)"
  by (simp add: start_monitor_def start_arp_inserter_def confined_intros)

lemma confined_stop_monitor [confined_intros]: "confined (stop_monitor ns)"
  by (rule confinedI) (auto simp: stop_monitor_def close_chan_def split: option.split)

lemma confined_locks [confined_intros]:
  assumes "confined m"
  shows "confined (with_repo_lock m)" "confined (with_sandbox_lock r m)"
proof -
  have "ipam_state (snd (deferring d m s)) = ipam_state s" if "\<And>s. ipam_state (d s) = ipam_state s" for d s
    using confined_deferring [OF assms that] by (simp add: confined_def)
  then show "confined (with_repo_lock m)" "confined (with_sandbox_lock r m)"
    by (auto simp: confined_def with_repo_lock_def with_sandbox_lock_def deadlock_def update_sandbox_def)
qed

lemma confined_sandbox_steps [confined_intros]:
  "confined (sandbox_namespace r)" "confined (sandbox_new ns)" "confined (get_unlocked name)"
  "confined (modify (update_sandbox r f))" "confined (modify (\<lambda>s. s\<lparr>sandboxes := g s\<rparr>))"
  by (simp_all add: confined_def sandbox_namespace_def sandbox_new_def get_unlocked_def gets_def modify_def
      update_sandbox_def split: option.split)

lemma confined_sandbox [confined_intros]:
  "confined (sandbox_setup os r)" "confined (launch_dns os r runner)"
  "confined (sandbox_veth_count os r)" "confined (teardown os r)"
  by (auto simp: sandbox_setup_def launch_dns_def sandbox_veth_count_def teardown_def
      intro!: confined_intros split: option.split)

lemma confined_sandboxes [confined_intros]:
  "confined (sandboxes_get name)" "confined (sandboxes_create os root name)"
  "confined (sandboxes_destroy os root name)"
  by (simp_all add: sandboxes_get_def sandboxes_create_def sandboxes_destroy_def confined_intros)

lemma confined_commands [confined_intros]:
  "confined (satisfied env b)" "confined (move_link os n s)" "confined (start_dns_server env a s)"
  "confined (cleanup_sandbox env s v)" "confined (monitor_command env h s v)"
  by (cases b)
     (simp_all add: satisfied_defs move_link_def start_dns_server_def cleanup_sandbox_def monitor_command_def
       Let_def confined_intros)

lemma confined_labelled [confined_intros]: "confined m \<Longrightarrow> confined (labelled p m)"
  by (simp add: labelled_def confined_intros)

lemma confined_store_hw [confined_intros]: "confined (modify (\<lambda>s. s\<lparr>hw_result := a\<rparr>))"
  by (rule confined_modify) simp

lemma confined_exec:
  fixes Q :: "(('k, 'z) daemon_scheme, unit) prog \<Rightarrow> bool"
  assumes Q: "Q = confined"
  shows "Q (exec env c)" and "Q (exec_group env g i cs)"
  unfolding Q
  by (induction env c and env g i cs rule: exec_exec_group.induct)
     (simp_all add: execute_defs confined_intros)

lemma confined_setup_in_sandbox [confined_intros]: "confined (setup_in_sandbox c config ip4 ns r)"
  unfolding setup_in_sandbox_def Let_def
  by (intro confined_intros confined_exec [OF refl])

lemma confined_container [confined_intros]:
  "confined (creator_setup c config)" "confined (deletor_delete env i p s v)"
  unfolding creator_setup_def deletor_delete_def Let_def
  by (cases "res_ip4 (cc_ipam_result config)")
     (simp_all add: confined_intros confined_exec [OF refl])

section \<open>Locks\<close>

lemma settled_ipam: "settled s (s\<lparr>ipam_state := a\<rparr>)"
  by (simp add: settled_same)

end
