(* ===== verification/Network_Props.thy ===== *)
theory Network_Props
  imports Network
begin

text \<open>
  Facts about the network mapper that are computed: two networks with one VNI, and the VNI of the
  default network.
\<close>

text \<open>
  Different networks can have the same VNI, and then share a sandbox, a VXLAN device and a
  bridge: the mapper keeps 24 bits of a hash and nothing checks for a collision.
\<close>

theorem networks_collide:
  "get_vni ''space-1824'' = get_vni ''space-3068'' \<and> ''space-1824'' \<noteq> ''space-3068''"
proof -
  have "take 3 (sha1_sum (bytes_of_string ''space-1824'')) = [85, 151, 234]"
    by code_simp
  moreover have "take 3 (sha1_sum (bytes_of_string ''space-3068'')) = [85, 151, 234]"
    by code_simp
  moreover have "take 4 (ds[3 := 0]) = take 3 ds @ [0]" if "length ds = 20" for ds :: "byte list"
    using that take_Suc_conv_app_nth [of 3 "ds[3 := 0]"] by (simp add: numeral_eq_Suc)
  ultimately show ?thesis
    by (simp add: get_vni_def Let_def)
qed

lemma vni_default: "get_vni ''default'' = Inr 14026101"
proof -
  have "take 3 (sha1_sum (bytes_of_string ''default'')) = [117, 5, 214]"
    by code_simp
  moreover have "take 4 (ds[3 := 0]) = take 3 ds @ [0]" if "length ds = 20" for ds :: "byte list"
    using that take_Suc_conv_app_nth [of 3 "ds[3 := 0]"] by (simp add: numeral_eq_Suc)
  ultimately show ?thesis
    by (simp add: get_vni_def Let_def little_endian_def set_bytes_def)
qed

end
