(* ===== verification/Cni_Props.thy ===== *)
theory Cni_Props
  imports Cni Network_Props
begin

text \<open>
  Properties of whole requests: addresses across failures, the locks, the names that the
  components must agree on, and the way of a container's address from its record to a resolved miss.
\<close>

section \<open>Requests and the allocator\<close>

text \<open>The states of the allocator that requests can bring about.\<close>

definition ipam_reached :: "ip_config \<Rightarrow> memory_store allocator \<Rightarrow> bool" where
  "ipam_reached base a \<longleftrightarrow> (\<exists>calls answers. ipam_run base calls new_allocator = (answers, a))"

lemma ipam_run_append:
  "ipam_run base (xs @ ys) a =
   (case ipam_run base xs a of (rs, b) \<Rightarrow> (case ipam_run base ys b of (qs, d) \<Rightarrow> (rs @ qs, d)))"
  by (induction xs arbitrary: a) (auto split: prod.split)

lemma ipam_reached_new: "ipam_reached base new_allocator"
  unfolding ipam_reached_def by (metis ipam_run.simps(1))

lemma ipam_reached_step:
  assumes "ipam_reached base a" "ipam_step base x a = (r, b)"
  shows "ipam_reached base b"
proof -
  obtain calls answers where "ipam_run base calls new_allocator = (answers, a)"
    using assms(1) by (auto simp: ipam_reached_def)
  then have "ipam_run base (calls @ [x]) new_allocator = (answers @ [r], b)"
    using assms(2) by (simp add: ipam_run_append)
  then show ?thesis unfolding ipam_reached_def by blast
qed

definition network_of :: "'k wiring \<Rightarrow> cni_add_payload \<Rightarrow> string" where
  "network_of S p = (if np_space_id (ap_network p) = [] then su_default_network S else np_space_id (ap_network p))"

definition vni_of :: "string \<Rightarrow> int" where
  "vni_of network = projr (get_vni network)"

lemma get_vni_vni_of: "get_vni n = Inr (vni_of n)"
  by (simp add: vni_of_def get_vni_def Let_def)

lemma get_network_id_network_of: "get_network_id (su_default_network S) (ap_network p) = Inr (network_of S p)"
  by (simp add: get_network_id_def network_of_def)

text \<open>A request after the two lookups that cannot fail.\<close>

lemma cni_add_eval:
  "cni_add S p s =
   (case ducati_allocate (su_base S) (network_of S p) (ap_container_id p) (ipam_state s) of
      (Ok result, a) \<Rightarrow>
        bind_wrap ''container setup''
          (creator_setup (su_creator S) (creator_config_of p (network_of S p) (vni_of (network_of S p)) result))
          (\<lambda>c. bind_wrap ''datastore create'' (store_create (su_os S) c) (\<lambda>_. ret result)) (s\<lparr>ipam_state := a\<rparr>)
    | (Err e, a) \<Rightarrow> (Err e, s\<lparr>ipam_state := a\<rparr>)
    | (Abort x, a) \<Rightarrow> (Abort x, s\<lparr>ipam_state := a\<rparr>))"
  by (auto simp: cni_add_def get_network_id_network_of get_vni_vni_of bind_wrap_def bind_err_def attempt_def
      pick_def on_ipam_def fail_def split: prod.split outcome.split)

lemma setup_keeps_ipam:
  "ipam_state (snd (bind_wrap ''container setup'' (creator_setup c config)
     (\<lambda>x. bind_wrap ''datastore create'' (store_create os x) (\<lambda>_. ret result)) s)) = ipam_state s"
  by (rule confinedD [OF _ prod.collapse [symmetric]]) (simp add: confined_intros)

lemma cni_add_ipam:
  assumes "cni_add S p s = (r, t)"
  shows "ipam_state t = snd (ducati_allocate (su_base S) (network_of S p) (ap_container_id p) (ipam_state s))"
proof -
  obtain q a where q: "ducati_allocate (su_base S) (network_of S p) (ap_container_id p) (ipam_state s) = (q, a)"
    by fastforce
  have "ipam_state (snd (cni_add S p s)) = a"
    unfolding cni_add_eval q by (cases q) (simp_all add: setup_keeps_ipam)
  with assms q show ?thesis by simp
qed

lemma cni_add_reached:
  assumes "ipam_reached (su_base S) (ipam_state s)" "cni_add S p s = (r, t)"
  shows "ipam_reached (su_base S) (ipam_state t)"
proof -
  obtain q a where q: "ducati_allocate (su_base S) (network_of S p) (ap_container_id p) (ipam_state s) = (q, a)"
    by fastforce
  then have "ipam_step (su_base S) (AllocateIP (network_of S p) (ap_container_id p)) (ipam_state s) = (Allocated q, a)"
    by simp
  from ipam_reached_step [OF assms(1) this] cni_add_ipam [OF assms(2)] q show ?thesis by simp
qed

text \<open>
  C9: A successful Add request, in any reachable state of the allocator, returns an address of the
  subnet that nobody held in the container's network, records it for the container, and changes no
  other reservation.
\<close>

theorem add_request_leases_fresh_address:
  assumes "ipam_reached (su_base S) (ipam_state s)" "cni_add S p s = (Ok result, t)"
  shows "\<exists>cfg. res_ip4 result = Some cfg \<and>
    net_contains (cfg_ip (su_base S)) (net_ip (cfg_ip cfg)) \<and>
    holds (ipam_state s) (network_of S p) (net_ip (cfg_ip cfg)) = None \<and>
    holds (ipam_state t) = (holds (ipam_state s))(network_of S p :=
      (holds (ipam_state s) (network_of S p))(net_ip (cfg_ip cfg) \<mapsto> ap_container_id p))"
proof -
  obtain q a where q: "ducati_allocate (su_base S) (network_of S p) (ap_container_id p) (ipam_state s) = (q, a)"
    by fastforce
  have "q = Ok result"
    using assms(2) q
    by (cases q) (auto simp: cni_add_eval ret_def elim!: bind_wrap_OkE)
  moreover obtain calls answers where "ipam_run (su_base S) calls new_allocator = (answers, ipam_state s)"
    using assms(1) by (auto simp: ipam_reached_def)
  moreover have "ipam_state t = a"
    using cni_add_ipam [OF assms(2)] q by simp
  ultimately show ?thesis
    using allocate_facts [where b = a] q by fastforce
qed

text \<open>
  C30: A container whose setup fails keeps its address: the next Add request for it is refused as being
  on the network already, whatever state the rest of the daemon is in.
\<close>

theorem failed_add_leaks_address:
  assumes reached: "ipam_reached (su_base S) (ipam_state s)"
    and failed: "cni_add S p s = (Err (wrapf ''container setup'' e), t)"
    and later: "ipam_state u = ipam_state t"
  shows "ap_container_id p \<in> ran (holds (ipam_state t) (network_of S p)) \<and>
    fst (cni_add S p u) = Err (Sentinel AlreadyOnNetworkError)"
proof -
  let ?n = "network_of S p" and ?c = "ap_container_id p"
  obtain calls answers where run: "ipam_run (su_base S) calls new_allocator = (answers, ipam_state s)"
    using reached by (auto simp: ipam_reached_def)
  obtain q a where q: "ducati_allocate (su_base S) ?n ?c (ipam_state s) = (q, a)"
    by fastforce
  have "is_ok q"
    using allocate_error_facts [OF run q] failed q by (cases q) (auto simp: cni_add_eval)
  then obtain result where result: "q = Ok result" by (cases q) auto
  have a: "ipam_state t = a"
    using cni_add_ipam [OF failed] q by simp
  have held: "?c \<in> ran (holds a ?n)"
    using allocate_facts [OF run q [unfolded result]] by (auto intro: ranI)
  obtain calls' answers' where run': "ipam_run (su_base S) calls' new_allocator = (answers', a)"
    using cni_add_reached [OF reached failed] a by (auto simp: ipam_reached_def)
  obtain q' b where q': "ducati_allocate (su_base S) ?n ?c a = (q', b)"
    by fastforce
  have "q' = Err (Sentinel AlreadyOnNetworkError)"
    using allocate_error_facts [OF run' q'] held by simp
  with q' later a held show ?thesis
    by (simp add: cni_add_eval)
qed

section \<open>Del requests\<close>

text \<open>The part of \<open>Del\<close> before the release.\<close>

definition del_early :: "'k wiring \<Rightarrow> cni_del_payload \<Rightarrow> int \<Rightarrow> (('k, 'z) daemon_scheme, unit) prog" where
  "del_early S p vni = bind_wrap ''deletor''
     (deletor_delete (cr_env (su_creator S)) (dp_interface_name p) (dp_container_namespace p)
       (sandbox_name vni) (vxlan_name vni))
     (\<lambda>_. bind_wrap ''datastore delete'' (store_delete (su_os S) (dp_container_id p)) (\<lambda>_. ret ()))"

lemma confined_del_early: "confined (del_early S p vni)"
  by (simp add: del_early_def confined_intros)

lemma bind_wrap_then:
  "bind_wrap p m (\<lambda>x. bind_wrap q n (\<lambda>_. k)) s =
   (case bind_wrap p m (\<lambda>x. bind_wrap q n (\<lambda>_. ret ())) s of
      (Ok u, t) \<Rightarrow> k t | (Err e, t) \<Rightarrow> (Err e, t) | (Abort a, t) \<Rightarrow> (Abort a, t))"
  by (simp add: bind_wrap_def attempt_def fail_def ret_def split: prod.split outcome.split)

lemma cni_del_found:
  assumes reached: "ipam_reached (su_base S) (ipam_state s)"
    and get: "store_get (su_os S) (dp_container_id p) s = (Ok found, s1)"
    and early: "del_early S p (vni_of (ctr_network_id found)) s1 = (q, s2)"
  shows "cni_del S p s =
    (case q of
       Ok _ \<Rightarrow> (Ok (), s2\<lparr>ipam_state := snd (ducati_release (ctr_network_id found) (dp_container_id p) (ipam_state s))\<rparr>)
     | Err e \<Rightarrow> (Err e, s2) | Abort y \<Rightarrow> (Abort y, s2)) \<and> ipam_state s2 = ipam_state s"
proof -
  obtain calls answers where run: "ipam_run (su_base S) calls new_allocator = (answers, ipam_state s)"
    using reached by (auto simp: ipam_reached_def)
  have "ipam_state s1 = ipam_state s"
    using confinedD [OF confined_system [OF system_only_store(3)] get] .
  then have s2: "ipam_state s2 = ipam_state s" using confinedD [OF confined_del_early early] by simp
  obtain x a where x: "ducati_release (ctr_network_id found) (dp_container_id p) (ipam_state s) = (x, a)" by fastforce
  have "x = Ok ()" by (rule release_from_reached(1) [OF run x])
  have "cni_del S p s =
    (case q of
       Ok _ \<Rightarrow> bind_wrap ''release ip'' (on_ipam (ducati_release (ctr_network_id found) (dp_container_id p))) (\<lambda>_. ret ()) s2
     | Err e \<Rightarrow> (Err e, s2) | Abort y \<Rightarrow> (Abort y, s2))"
  proof -
    have vni: "pick (get_vni n) = ret (vni_of n)" for n
      by (rule ext) (simp add: get_vni_vni_of pick_def ret_def)
    note found_at = bind_wrap_eval(1) [where m = "store_get (su_os S) (dp_container_id p)" and s = s and x = found and t = s1, OF get]
    show ?thesis
      unfolding cni_del_def found_at vni bind_wrap_ret
      by (subst bind_wrap_then) (simp only: early [unfolded del_early_def] prod.case)
  qed
  with x \<open>x = Ok ()\<close> s2 show ?thesis
    by (cases q) (simp_all add: bind_wrap_def attempt_def on_ipam_def ret_def)
qed

lemma cni_del_ipam:
  assumes reached: "ipam_reached (su_base S) (ipam_state s)" and del: "cni_del S p s = (r, t)"
  shows "(r = Ok () \<longrightarrow> (\<exists>found. fst (store_get (su_os S) (dp_container_id p) s) = Ok found \<and>
      ipam_state t = snd (ducati_release (ctr_network_id found) (dp_container_id p) (ipam_state s)))) \<and>
    (r \<noteq> Ok () \<longrightarrow> ipam_state t = ipam_state s)"
proof -
  obtain g s1 where g: "store_get (su_os S) (dp_container_id p) s = (g, s1)" by fastforce
  have s1: "ipam_state s1 = ipam_state s"
    using confinedD [OF confined_system [OF system_only_store(3)] g] .
  show ?thesis
  proof (cases g)
    case (Ok found)
    obtain q s2 where q: "del_early S p (vni_of (ctr_network_id found)) s1 = (q, s2)" by fastforce
    from cni_del_found [OF reached g [unfolded Ok] q] del g Ok show ?thesis
      by (auto split: outcome.splits)
  qed (use g del s1 in \<open>auto simp: cni_del_def bind_wrap_eval\<close>)
qed

text \<open>
  C31: Del releases last: a successful request has freed every address the container held in the
  network of its record, and one that fails at any stage has released nothing, so an address whose
  record is missing or cannot be deleted stays taken.
\<close>

theorem del_request_releases_last:
  assumes "ipam_reached (su_base S) (ipam_state s)" "cni_del S p s = (r, t)"
  shows "(r = Ok () \<longrightarrow> (\<exists>found. fst (store_get (su_os S) (dp_container_id p) s) = Ok found \<and>
      dp_container_id p \<notin> ran (holds (ipam_state t) (ctr_network_id found)))) \<and>
    (r \<noteq> Ok () \<longrightarrow> holds (ipam_state t) = holds (ipam_state s))"
proof -
  obtain calls answers where run: "ipam_run (su_base S) calls new_allocator = (answers, ipam_state s)"
    using assms(1) by (auto simp: ipam_reached_def)
  have freed: "c \<notin> ran (holds (snd (ducati_release n c (ipam_state s))) n)" for n c
    using release_from_reached(2) [OF run prod.collapse [symmetric], of n c] by (auto simp: ran_def)
  show ?thesis
  proof (cases "r = Ok ()")
    case True
    then obtain found where "fst (store_get (su_os S) (dp_container_id p) s) = Ok found"
      "ipam_state t = snd (ducati_release (ctr_network_id found) (dp_container_id p) (ipam_state s))"
      using cni_del_ipam [OF assms] by blast
    with freed True show ?thesis by auto
  next
    case False
    with cni_del_ipam [OF assms] show ?thesis by simp
  qed
qed

section \<open>A run of the daemon\<close>

text \<open>
  A daemon on the simulated system with a subnet of five free addresses, and two requests for a
  container; \<open>demo_finish\<close> is the rest of the Add request once an address is chosen.
\<close>

definition sim_wiring :: "sim wiring" where
  "sim_wiring = \<lparr>su_base = lan, su_default_network = ''default'',
     su_creator = \<lparr>cr_env = sim_env, cr_host_namespace = \<lparr>file_name = ''/proc/self/ns/net'', file_fd = 0\<rparr>,
       cr_dns_address = ''192.168.0.1:53'', cr_host_ip = ipv4_16 [10, 0, 0, 5]\<rparr>\<rparr>"

definition daemon_init :: "'k \<Rightarrow> 'k daemon" where
  "daemon_init k =
     \<lparr>kernel = k, done_chans = Map.empty, next_chan = 0, closed_chans = [], inserters = [], subscriptions = [],
      sandboxes = Map.empty, objects = [], repo_locked = False, hw_result = [], ipam_state = new_allocator\<rparr>"

definition demo_add :: cni_add_payload where
  "demo_add = \<lparr>ap_args = [], ap_container_namespace = ''/c/ns1'', ap_interface_name = ''eth0'', ap_ipam = \<lparr>res_ip4 = None\<rparr>,
     ap_network = \<lparr>np_app_id = ''app'', np_space_id = []\<rparr>, ap_container_id = ''c1''\<rparr>"

definition demo_del :: cni_del_payload where
  "demo_del = \<lparr>dp_interface_name = ''eth0'', dp_container_namespace = ''/c/ns1'', dp_container_id = ''c1''\<rparr>"

definition demo_kernel :: sim where
  "demo_kernel = sim_init [(''/c/ns1'', 11)] []"

definition demo_result :: cni_result where
  "demo_result = \<lparr>res_ip4 = Some \<lparr>cfg_ip = \<lparr>net_ip = [192, 168, 1, 2], net_mask = [255, 255, 255, 248]\<rparr>,
     cfg_gateway = [192, 168, 1, 1], cfg_routes = []\<rparr>\<rparr>"

definition demo_config :: creator_config where
  "demo_config = creator_config_of demo_add ''default'' 14026101 demo_result"
definition demo_finish :: "sim \<Rightarrow> memory_store allocator \<Rightarrow> cni_result outcome \<times> sim daemon" where
  "demo_finish k a = 
   bind_wrap ''container setup'' (creator_setup (su_creator sim_wiring) demo_config)
     (\<lambda>c. bind_wrap ''datastore create'' (store_create (su_os sim_wiring) c) (\<lambda>_. ret demo_result))
     ((daemon_init k)\<lparr>ipam_state := a\<rparr>)"
definition demo_record :: container where
  "demo_record = \<lparr>ctr_id = ''c1'', ctr_ip = ''192.168.1.2'', ctr_mac = ''02:00:00:00:00:01'',
       ctr_host_ip = ''10.0.0.5'', ctr_network_id = ''default'',
       ctr_sandbox_name = ''vni-14026101'', ctr_app = ''app''\<rparr>"

text \<open>The hash in the name of a link is computed once.\<close>

lemma name_c1: "name_sandbox_link ''c1'' = ''F4RHMXIESMNAPCI''"
  by code_simp

lemma name_c2: "name_sandbox_link ''c2'' = ''NMPVGMB2OMWMZDD''"
  by code_simp

lemma demo_link: "name_sandbox_link (cc_container_id demo_config) = ''F4RHMXIESMNAPCI''"
  using name_c1 by (simp add: demo_config_def creator_config_of_def demo_add_def)

lemmas demo_finish_unfold = demo_finish_def creator_setup_def setup_in_sandbox_def demo_link

text \<open>One evaluation for all that is asked of this run.\<close>

lemma demo_finish_evaluates:
  "case demo_finish demo_kernel a of (r, t) \<Rightarrow>
     r = Ok demo_result \<and> sim_table (kernel t) = [demo_record] \<and>
     fst (store_all sim_os t) = Ok [demo_record] \<and>
     (case store_get (su_os sim_wiring) (dp_container_id demo_del) t of (g, u) \<Rightarrow>
        g = Ok demo_record \<and> fst (del_early sim_wiring demo_del 14026101 u) = Ok ())"
  by (unfold demo_finish_unfold) code_simp

lemma demo_finish_runs:
  "fst (demo_finish demo_kernel a) = Ok demo_result"
  "fst (store_get (su_os sim_wiring) (dp_container_id demo_del) (snd (demo_finish demo_kernel a))) = Ok demo_record"
  "fst (del_early sim_wiring demo_del 14026101
     (snd (store_get (su_os sim_wiring) (dp_container_id demo_del) (snd (demo_finish demo_kernel a))))) = Ok ()"
  using demo_finish_evaluates [of a] by (simp_all add: case_prod_beta)

lemma demo_finish_fails:
  "fst (demo_finish (sim_init [] []) a) = Err (wrapf ''container setup'' (wrapf ''open container netns''
     (ExtError ''open /c/ns1: no such file or directory'')))"
  by code_simp

lemma demo_allocates: "fst (ducati_allocate lan ''default'' ''c1'' new_allocator) = Ok demo_result"
  by code_simp

lemma vni_of_default: "vni_of ''default'' = 14026101"
  by (simp add: vni_of_def vni_default)

lemma demo_network: "network_of sim_wiring demo_add = ''default''"
  by (simp add: network_of_def demo_add_def sim_wiring_def)

lemma demo_reached: "ipam_reached (su_base sim_wiring) (ipam_state (daemon_init k))"
  by (simp add: daemon_init_def ipam_reached_new)

lemma demo_add_eq:
  "cni_add sim_wiring demo_add (daemon_init k) = demo_finish k (snd (ducati_allocate lan ''default'' ''c1'' new_allocator))"
proof -
  have "su_base sim_wiring = lan" "ap_container_id demo_add = ''c1''" "ipam_state (daemon_init k) = new_allocator"
    by (simp_all add: sim_wiring_def demo_add_def daemon_init_def)
  moreover obtain a where "ducati_allocate lan ''default'' ''c1'' new_allocator = (Ok demo_result, a)"
    using demo_allocates by (metis prod.collapse)
  ultimately show ?thesis
    unfolding cni_add_eval demo_network vni_of_default demo_finish_def demo_config_def by simp
qed

definition demo_added :: "sim daemon" where
  "demo_added = snd (cni_add sim_wiring demo_add (daemon_init demo_kernel))"

lemma demo_added: "cni_add sim_wiring demo_add (daemon_init demo_kernel) = (Ok demo_result, demo_added)"
  using demo_finish_runs(1) unfolding demo_added_def demo_add_eq by (metis prod.collapse)

lemma demo_added_reached: "ipam_reached (su_base sim_wiring) (ipam_state demo_added)"
  by (rule cni_add_reached [OF demo_reached demo_added])

lemma demo_deleted: "fst (cni_del sim_wiring demo_del demo_added) = Ok ()"
proof -
  let ?g = "store_get (su_os sim_wiring) (dp_container_id demo_del) demo_added"
  have g: "?g = (Ok demo_record, snd ?g)"
    using demo_finish_runs(2) unfolding demo_added_def demo_add_eq by (metis prod.collapse)
  have n: "ctr_network_id demo_record = ''default''" by (simp add: demo_record_def)
  have "fst (del_early sim_wiring demo_del 14026101 (snd ?g)) = Ok ()"
    using demo_finish_runs(3) unfolding demo_added_def demo_add_eq .
  then have "del_early sim_wiring demo_del (vni_of (ctr_network_id demo_record)) (snd ?g) =
      (Ok (), snd (del_early sim_wiring demo_del 14026101 (snd ?g)))"
    unfolding n vni_of_default by (metis prod.collapse)
  from cni_del_found [OF demo_added_reached g this] show ?thesis by simp
qed

lemma add_request_leases_fresh_address_witness:
  "holds (ipam_state demo_added) ''default'' [192, 168, 1, 2] = Some ''c1''"
proof -
  have "ap_container_id demo_add = ''c1''" by (simp add: demo_add_def)
  with add_request_leases_fresh_address [OF demo_reached demo_added] show ?thesis
    by (simp add: demo_network demo_result_def)
qed

lemma failed_add_leaks_address_witness:
  "fst (cni_add sim_wiring demo_add
     ((snd (cni_add sim_wiring demo_add (daemon_init (sim_init [] []))))\<lparr>kernel := demo_kernel\<rparr>)) =
   Err (Sentinel AlreadyOnNetworkError)"
proof -
  let ?t = "snd (cni_add sim_wiring demo_add (daemon_init (sim_init [] [])))"
  have "cni_add sim_wiring demo_add (daemon_init (sim_init [] [])) =
    (Err (wrapf ''container setup'' (wrapf ''open container netns'' (ExtError ''open /c/ns1: no such file or directory''))), ?t)"
    using demo_finish_fails unfolding demo_add_eq by (metis prod.collapse)
  then show ?thesis
    by (rule failed_add_leaks_address [OF demo_reached, THEN conjunct2]) simp
qed

lemma del_request_releases_last_witness:
  "''c1'' \<notin> ran (holds (ipam_state (snd (cni_del sim_wiring demo_del demo_added))) ''default'')"
proof -
  have "cni_del sim_wiring demo_del demo_added = (Ok (), snd (cni_del sim_wiring demo_del demo_added))"
    using demo_deleted by (metis prod.collapse)
  from del_request_releases_last [OF demo_added_reached this]
  have "\<exists>found. fst (store_get (su_os sim_wiring) (dp_container_id demo_del) demo_added) = Ok found \<and>
    dp_container_id demo_del \<notin> ran (holds (ipam_state (snd (cni_del sim_wiring demo_del demo_added))) (ctr_network_id found))"
    by simp
  moreover have "fst (store_get (su_os sim_wiring) (dp_container_id demo_del) demo_added) = Ok demo_record"
    unfolding demo_added_def demo_add_eq by (rule demo_finish_runs(2))
  ultimately show ?thesis by (simp add: demo_record_def demo_del_def)
qed

end
