(* ===== verification/Handlers.thy ===== *)
theory Handlers
  imports Cni_Props
begin

text \<open>
  The HTTP handlers (package \<open>handlers\<close>) over the controllers and the datastore.

  The handlers reach JSON through the interfaces of \<open>lib/marshal\<close>, which is not in the repository:
  the record \<open>codec\<close> holds what they call.  A request is given by its body (or the error of reading
  it) and its path parameter.  The response writer of \<open>net/http\<close> keeps the first status it is
  given, and a body that is written without a status has status 200; that a client may be gone when
  the body is written is only logged by the handlers and has no part in the model.
\<close>

section \<open>Responses\<close>

record response =
  rs_status :: "int option"
  rs_body :: string

definition no_response :: response where
  "no_response = \<lparr>rs_status = None, rs_body = []\<rparr>"

definition write_header :: "int \<Rightarrow> response \<Rightarrow> response" where
  "write_header code resp = (if rs_status resp = None then resp\<lparr>rs_status := Some code\<rparr> else resp)"

definition write_body :: "string \<Rightarrow> response \<Rightarrow> response" where
  "write_body b resp = (let r = write_header 200 resp in r\<lparr>rs_body := rs_body r @ b\<rparr>)"

text \<open>The status the client sees: 200 when the handler has set none.\<close>

definition status_of :: "response \<Rightarrow> int" where
  "status_of resp = (case rs_status resp of None \<Rightarrow> 200 | Some c \<Rightarrow> c)"

definition answer :: "int \<Rightarrow> response" where
  "answer code = write_header code no_response"

lemma response_simps [simp]:
  "rs_status (answer c) = Some c" "rs_body (answer c) = []" "status_of (answer c) = c"
  "write_body b (answer c) = \<lparr>rs_status = Some c, rs_body = b\<rparr>"
  "rs_status (write_body b no_response) = Some 200" "rs_body (write_body b no_response) = b"
  "status_of (write_body b no_response) = 200"
  by (simp_all add: answer_def write_header_def write_body_def no_response_def status_of_def)

lemma status_of_some [simp]: "status_of \<lparr>rs_status = Some c, rs_body = b\<rparr> = c"
  by (simp add: status_of_def)

record codec =
  cd_add :: "string \<Rightarrow> goerror + cni_add_payload"
  cd_del :: "string \<Rightarrow> goerror + cni_del_payload"
  cd_result :: "cni_result \<Rightarrow> goerror + string"
  cd_error :: "string \<Rightarrow> goerror + string"
  cd_container :: "container \<Rightarrow> goerror + string"
  cd_containers :: "container list \<Rightarrow> goerror + string"

text \<open>\<open>marshalError\<close>: its error, if any, is only logged by its callers.\<close>

definition marshal_error :: "codec \<Rightarrow> goerror \<Rightarrow> response \<Rightarrow> goerror option \<times> response" where
  "marshal_error cd err resp =
     (case cd_error cd (error_text err) of
        Inl e \<Rightarrow> (Some (wrapf ''marshal'' e), resp)
      | Inr b \<Rightarrow> (None, write_body b resp))"

section \<open>The handlers\<close>

text \<open>The status for an error of the controller: only the two sentinels of the allocator are told apart.\<close>

definition add_error_status :: "goerror \<Rightarrow> int" where
  "add_error_status err =
     (if err = Sentinel AlreadyOnNetworkError then 400
      else if err = Sentinel NoMoreAddressesError then 409
      else 500)"

definition handle_cni_add ::
  "'k wiring \<Rightarrow> codec \<Rightarrow> goerror + string \<Rightarrow> (('k, 'z) daemon_scheme, response) prog" where
  "handle_cni_add S cd body =
     (case body of
        Inl e \<Rightarrow> ret (answer 400)
      | Inr bytes \<Rightarrow>
          (case cd_add cd bytes of
             Inl e \<Rightarrow> ret (answer 400)
           | Inr payload \<Rightarrow>
               if ap_interface_name payload = [] then ret (answer 400)
               else if ap_container_id payload = [] then ret (answer 400)
               else if ap_container_namespace payload = [] then ret (answer 400)
               else attempt (cni_add S payload)
                 (\<lambda>err. ret (snd (marshal_error cd err (answer (add_error_status err)))))
                 (\<lambda>result. ret
                    (case cd_result cd result of
                       Inl e \<Rightarrow> answer 500
                     | Inr b \<Rightarrow> write_body b (answer 201)))))"

definition handle_cni_del ::
  "'k wiring \<Rightarrow> codec \<Rightarrow> goerror + string \<Rightarrow> (('k, 'z) daemon_scheme, response) prog" where
  "handle_cni_del S cd body =
     (case body of
        Inl e \<Rightarrow> ret (answer 400)
      | Inr bytes \<Rightarrow>
          (case cd_del cd bytes of
             Inl e \<Rightarrow> ret (answer 400)
           | Inr payload \<Rightarrow>
               if dp_interface_name payload = [] then ret (answer 400)
               else if dp_container_id payload = [] then ret (answer 400)
               else if dp_container_namespace payload = [] then ret (answer 400)
               else attempt (cni_del S payload)
                 (\<lambda>err. ret (snd (marshal_error cd err (answer 500))))
                 (\<lambda>_. ret (answer 204))))"

definition handle_get_container ::
  "'k os \<Rightarrow> codec \<Rightarrow> string \<Rightarrow> (('k, 'z) world_scheme, response) prog" where
  "handle_get_container os cd i =
     attempt (store_get os i)
       (\<lambda>err. if err = Sentinel RecordNotFoundError then ret (answer 404) else ret (answer 500))
       (\<lambda>c. ret (case cd_container cd c of
          Inl e \<Rightarrow> answer 500
        | Inr b \<Rightarrow> write_body b (answer 200)))"

text \<open>Here no status is set before the body is written.\<close>

definition handle_list_containers :: "'k os \<Rightarrow> codec \<Rightarrow> (('k, 'z) world_scheme, response) prog" where
  "handle_list_containers os cd =
     attempt (store_all os)
       (\<lambda>err. ret (answer 500))
       (\<lambda>cs. ret (case cd_containers cd cs of
          Inl e \<Rightarrow> answer 500
        | Inr b \<Rightarrow> write_body b no_response))"

fun containers_of_network :: "string \<Rightarrow> container list \<Rightarrow> container list" where
  "containers_of_network i [] = []"
| "containers_of_network i (c # cs) =
     (if ctr_network_id c = i then c # containers_of_network i cs else containers_of_network i cs)"

definition handle_networks_list ::
  "'k os \<Rightarrow> codec \<Rightarrow> string \<Rightarrow> (('k, 'z) world_scheme, response) prog" where
  "handle_networks_list os cd i =
     attempt (store_all os)
       (\<lambda>err. ret (answer 500))
       (\<lambda>cs. ret (case cd_containers cd (containers_of_network i cs) of
          Inl e \<Rightarrow> answer 500
        | Inr b \<Rightarrow> write_body b (answer 200)))"

end
