(* ===== verification/Client.thy ===== *)
theory Client
  imports Handlers
begin

text \<open>
  The Go client of the daemon (package \<open>client\<close>): the JSON client (\<open>json_client.go\<close>) and the
  calls built on it (\<open>client.go\<close>).

  Parameters, all outside the repository: what \<open>net/url\<close> makes of the base URL, \<open>http.NewRequest\<close>,
  the HTTP client, and the JSON functions.
\<close>

section \<open>The JSON client\<close>

record http_request =
  rq_method :: string
  rq_url :: string
  rq_body :: "string option"
  rq_json :: bool

text \<open>A response: its status, and its body or the error of reading it.\<close>

record http_response =
  hr_status :: int
  hr_body :: "goerror + string"

text \<open>A parsed URL: its path, and \<open>String()\<close> after the path is replaced.\<close>

record base_url =
  bu_path :: string
  bu_show :: "string \<Rightarrow> string"

record 's json_client =
  jc_base :: "goerror + base_url"
  jc_new :: "string \<Rightarrow> string \<Rightarrow> goerror option"
  jc_do :: "http_request \<Rightarrow> ('s, http_response) prog"

text \<open>
  \<open>ClientConfig\<close>: the payload is given by what the marshaler makes of it, the result by how it is
  unmarshaled; \<open>None\<close> is \<open>nil\<close>.
\<close>

record 'r client_config =
  cl_action :: string
  cl_method :: string
  cl_url :: string
  cl_payload :: "(goerror + string) option"
  cl_result :: "(string \<Rightarrow> goerror + 'r) option"
  cl_success :: int
  cl_errors :: "int \<rightharpoonup> goerror"

text \<open>
  \<open>New\<close>: \<open>parse_url\<close> is \<open>url.Parse\<close>, \<open>new_request\<close> the error of \<open>http.NewRequest\<close> and \<open>perform\<close> the
  method \<open>Do\<close> of the HTTP client.
\<close>

definition client_new ::
  "(string \<Rightarrow> goerror + base_url) \<Rightarrow> (string \<Rightarrow> string \<Rightarrow> goerror option) \<Rightarrow>
   (http_request \<Rightarrow> ('s, http_response) prog) \<Rightarrow> string \<Rightarrow> 's json_client" where
  "client_new parse_url new_request perform base_url =
     \<lparr>jc_base = parse_url base_url, jc_new = new_request, jc_do = perform\<rparr>"

definition build_url :: "'s json_client \<Rightarrow> string list \<Rightarrow> goerror + string" where
  "build_url d elements =
     (case jc_base d of
        Inl e \<Rightarrow> Inl e
      | Inr u \<Rightarrow> Inr (bu_show u (path_join (bu_path u # elements))))"

definition check_status :: "string \<Rightarrow> int \<Rightarrow> int \<Rightarrow> goerror option" where
  "check_status m received expected =
     (if received \<noteq> expected
      then Some (Errorf (''unexpected status code on '' @ m @ '': expected '' @ show_int expected @
             '' but got '' @ show_int received))
      else None)"

definition unmarshal_response :: "goerror + string \<Rightarrow> (string \<Rightarrow> goerror + 'r) \<Rightarrow> goerror + 'r" where
  "unmarshal_response body parse =
     (case body of
        Inl e \<Rightarrow> Inl (wrapf ''failed to read response body'' e)
      | Inr bytes \<Rightarrow>
          (case parse bytes of
             Inl e \<Rightarrow> Inl (wrapf ''failed to unmarshal result'' e)
           | Inr x \<Rightarrow> Inr x))"

text \<open>What \<open>BuildAndDo\<close> makes of the response.\<close>

definition read_response :: "'r client_config \<Rightarrow> http_response \<Rightarrow> goerror + 'r option" where
  "read_response config resp =
     (case (if hr_status resp \<noteq> cl_success config then
              (case cl_errors config (hr_status resp) of
                 Some meaningful \<Rightarrow> Some meaningful
               | None \<Rightarrow> check_status (cl_action config) (hr_status resp) (cl_success config))
            else None) of
        Some e \<Rightarrow> Inl e
      | None \<Rightarrow>
          (case cl_result config of
             None \<Rightarrow> Inr None
           | Some parse \<Rightarrow> map_sum id Some (unmarshal_response (hr_body resp) parse)))"

definition build_and_do :: "'s json_client \<Rightarrow> 'r client_config \<Rightarrow> ('s, 'r option) prog" where
  "build_and_do d config =
     bind_wrap ''build url'' (pick (build_url d [cl_url config])) (\<lambda>url.
     bind_wrap ''failed to marshal request''
       (case cl_payload config of None \<Rightarrow> ret None | Some data \<Rightarrow> pick (map_sum id Some data)) (\<lambda>body.
     bind_wrap ''build request''
       (case jc_new d (cl_method config) url of Some e \<Rightarrow> fail e | None \<Rightarrow> ret ()) (\<lambda>_.
     bind_wrap ''failed to perform request''
       (jc_do d \<lparr>rq_method = cl_method config, rq_url = url, rq_body = body,
                 rq_json = (cl_payload config \<noteq> None)\<rparr>) (\<lambda>resp.
     pick (read_response config resp)))))"

section \<open>The calls\<close>

text \<open>The JSON functions on the client's side, and the network section of a CNI specification.\<close>

record client_codec =
  ck_add :: "cni_add_payload \<Rightarrow> goerror + string"
  ck_del :: "cni_del_payload \<Rightarrow> goerror + string"
  ck_result :: "string \<Rightarrow> goerror + cni_result"
  ck_container :: "string \<Rightarrow> goerror + container"
  ck_containers :: "string \<Rightarrow> goerror + container list"
  ck_stdin :: "string \<Rightarrow> goerror + network_payload"

text \<open>\<open>skel.CmdArgs\<close>\<close>

record cmd_args =
  arg_container_id :: string
  arg_netns :: string
  arg_if_name :: string
  arg_args :: string
  arg_stdin :: string

text \<open>\<open>var result T; err := BuildAndDo(... &result ...); return result, err\<close>\<close>

definition result_of :: "('s, 'r option) prog \<Rightarrow> ('s, 'r) prog" where
  "result_of m = bind_err m (\<lambda>r. case r of Some x \<Rightarrow> ret x | None \<Rightarrow> panic ''no result'')"

definition up_config :: "client_codec \<Rightarrow> cni_add_payload \<Rightarrow> cni_result client_config" where
  "up_config ck payload =
     \<lparr>cl_action = ''ContainerUp'', cl_method = ''POST'', cl_url = ''/cni/add'',
      cl_payload = Some (ck_add ck payload), cl_result = Some (ck_result ck), cl_success = 201,
      cl_errors = [400 \<mapsto> Sentinel AlreadyOnNetworkError, 409 \<mapsto> Sentinel NoMoreAddressesError]\<rparr>"

definition container_up :: "'s json_client \<Rightarrow> client_codec \<Rightarrow> cni_add_payload \<Rightarrow> ('s, cni_result) prog" where
  "container_up d ck payload = result_of (build_and_do d (up_config ck payload))"

definition container_down :: "'s json_client \<Rightarrow> client_codec \<Rightarrow> cni_del_payload \<Rightarrow> ('s, unit) prog" where
  "container_down d ck payload =
     bind_err (build_and_do d
       \<lparr>cl_action = ''ContainerDown'', cl_method = ''POST'', cl_url = ''/cni/del'',
        cl_payload = Some (ck_del ck payload), cl_result = None, cl_success = 204, cl_errors = Map.empty\<rparr>)
       (\<lambda>r :: unit option. ret ())"

definition client_cni_add :: "'s json_client \<Rightarrow> client_codec \<Rightarrow> cmd_args \<Rightarrow> ('s, cni_result) prog" where
  "client_cni_add d ck input =
     bind_wrap ''invalid network spec'' (pick (ck_stdin ck (arg_stdin input))) (\<lambda>network.
     container_up d ck
       \<lparr>ap_args = arg_args input, ap_container_namespace = arg_netns input, ap_interface_name = arg_if_name input,
        ap_ipam = \<lparr>res_ip4 = None\<rparr>, ap_network = network, ap_container_id = arg_container_id input\<rparr>)"

definition client_cni_del :: "'s json_client \<Rightarrow> client_codec \<Rightarrow> cmd_args \<Rightarrow> ('s, unit) prog" where
  "client_cni_del d ck input =
     container_down d ck
       \<lparr>dp_interface_name = arg_if_name input, dp_container_namespace = arg_netns input,
        dp_container_id = arg_container_id input\<rparr>"

definition get_config_of :: "client_codec \<Rightarrow> string \<Rightarrow> container client_config" where
  "get_config_of ck container_id =
     \<lparr>cl_action = ''GetContainer'', cl_method = ''GET'', cl_url = path_join [''containers'', container_id],
      cl_payload = None, cl_result = Some (ck_container ck), cl_success = 200,
      cl_errors = [404 \<mapsto> Sentinel ClientRecordNotFoundError]\<rparr>"

definition client_get_container :: "'s json_client \<Rightarrow> client_codec \<Rightarrow> string \<Rightarrow> ('s, container) prog" where
  "client_get_container d ck container_id = result_of (build_and_do d (get_config_of ck container_id))"

definition client_list_network :: "'s json_client \<Rightarrow> client_codec \<Rightarrow> string \<Rightarrow> ('s, container list) prog" where
  "client_list_network d ck network_id =
     result_of (build_and_do d
       \<lparr>cl_action = ''ListNetworkContainers'', cl_method = ''GET'', cl_url = path_join [''networks'', network_id],
        cl_payload = None, cl_result = Some (ck_containers ck), cl_success = 200, cl_errors = Map.empty\<rparr>)"

definition client_list_containers :: "'s json_client \<Rightarrow> client_codec \<Rightarrow> ('s, container list) prog" where
  "client_list_containers d ck =
     result_of (build_and_do d
       \<lparr>cl_action = ''ListContainers'', cl_method = ''GET'', cl_url = ''containers'',
        cl_payload = None, cl_result = Some (ck_containers ck), cl_success = 200, cl_errors = Map.empty\<rparr>)"

end
