(* ===== verification/Config.thy ===== *)
theory Config
  imports Go_Net
begin

text \<open>
  The configuration of the daemon (\<open>config/daemon.go\<close>): its checks, and the parsing of networks in
  CIDR notation that they use.  Parameters: the JSON decoder and encoder, and \<open>PostgresURL\<close> of
  \<open>lib/db\<close>, which is not in the repository.
\<close>

section \<open>net.ParseCIDR\<close>

text \<open>\<open>IP.Mask\<close>\<close>

definition ip_apply_mask :: "ip \<Rightarrow> ip_mask \<Rightarrow> ip" where
  "ip_apply_mask a m =
     (let m' = (if length m = 16 \<and> length a = 4 \<and> take 12 m = replicate 12 255 then drop 12 m else m);
          a' = (if length m' = 4 \<and> length a = 16 \<and> take 12 a = v4_in_v6_prefix then drop 12 a else a)
      in if length a' \<noteq> length m' then [] else mask_bytes a' m')"

text \<open>The address as written, and the network it is in.\<close>

definition parse_cidr :: "string \<Rightarrow> goerror + ip \<times> ip_net" where
  "parse_cidr s =
     (let addr = takeWhile (\<lambda>c. c \<noteq> CHR ''/'') s;
          rest = drop (length addr) s;
          bad = Inl (ExtError (''invalid CIDR address: '' @ s))
      in if rest = [] then bad
         else
           (let v4 = parse_ipv4 addr;
                bits = (if v4 \<noteq> [] then 32 else 128);
                a = (if v4 \<noteq> [] then v4 else parse_ipv6 addr)
            in case dtoi (tl rest) of
                 Some (n, []) \<Rightarrow>
                   if a = [] \<or> bits < n then bad
                   else Inr (a, \<lparr>net_ip = ip_apply_mask a (cidr_mask n bits), net_mask = cidr_mask n bits\<rparr>)
               | _ \<Rightarrow> bad))"

section \<open>The configuration file\<close>

text \<open>\<open>Daemon\<close>; the database section is of a type of \<open>lib/db\<close>.\<close>

record 'd daemon_config =
  dc_listen_host :: string
  dc_listen_port :: int
  dc_local_subnet :: string
  dc_overlay_network :: string
  dc_sandbox_dir :: string
  dc_database :: 'd
  dc_index :: int
  dc_host_address :: string
  dc_overlay_dns_address :: string
  dc_external_dns_server :: string
  dc_suffix :: string
  dc_debug_address :: string

record validated_config =
  vc_listen_address :: string
  vc_overlay_network :: ip_net
  vc_local_subnet :: ip_net
  vc_database_url :: string
  vc_sandbox_dir :: string
  vc_host_address :: ip
  vc_overlay_dns_address :: ip
  vc_external_dns_server :: ip
  vc_suffix :: string
  vc_debug_address :: string

definition config_unmarshal :: "(string \<Rightarrow> goerror + 'd daemon_config) \<Rightarrow> string \<Rightarrow> goerror + 'd daemon_config" where
  "config_unmarshal decode input =
     (case decode input of Inl e \<Rightarrow> Inl (wrapf ''json decode'' e) | Inr c \<Rightarrow> Inr c)"

definition config_marshal :: "('d daemon_config \<Rightarrow> goerror + string) \<Rightarrow> 'd daemon_config \<Rightarrow> goerror + string" where
  "config_marshal encode d =
     (case encode d of Inl e \<Rightarrow> Inl (wrapf ''json encode'' e) | Inr out \<Rightarrow> Inr out)"

definition quoted :: "string \<Rightarrow> string" where
  "quoted s = [CHR 0x22] @ s @ [CHR 0x22]"

definition missing_config :: "string \<Rightarrow> goerror" where
  "missing_config name = Errorf (''missing required config: '' @ quoted name)"

definition bad_config :: "string \<Rightarrow> string \<Rightarrow> goerror" where
  "bad_config name reason = Errorf (''bad config '' @ quoted name @ '': '' @ reason)"

text \<open>The fields that may not be empty, in the order in which they are checked.\<close>

definition missing_field :: "'d daemon_config \<Rightarrow> string option" where
  "missing_field d =
     (if dc_listen_host d = [] then Some ''listen_host''
      else if dc_listen_port d = 0 then Some ''listen_port''
      else if dc_local_subnet d = [] then Some ''local_subnet''
      else if dc_overlay_network d = [] then Some ''overlay_network''
      else if dc_sandbox_dir d = [] then Some ''sandbox_dir''
      else if dc_external_dns_server d = [] then Some ''dns_server''
      else if dc_overlay_dns_address d = [] then Some ''overlay_dns_address''
      else if dc_host_address d = [] then Some ''host_address''
      else if dc_suffix d = [] then Some ''suffix''
      else None)"

text \<open>\<open>local_subnet\<close> with the index of the daemon put in.\<close>

definition interpolated_subnet :: "'d daemon_config \<Rightarrow> string" where
  "interpolated_subnet d = replace_all (dc_local_subnet d) ''${index}'' (show_int (dc_index d))"

definition parse_and_validate ::
  "('d \<Rightarrow> goerror + string) \<Rightarrow> 'd daemon_config \<Rightarrow> goerror + validated_config" where
  "parse_and_validate postgres_url d =
     (case postgres_url (dc_database d) of
        Inl e \<Rightarrow> Inl (wrapf ''database configuration'' e)
      | Inr db_url \<Rightarrow>
     (case missing_field d of
        Some name \<Rightarrow> Inl (missing_config name)
      | None \<Rightarrow>
     (case parse_cidr (interpolated_subnet d) of
        Inl e \<Rightarrow> Inl (bad_config ''local_subnet'' (error_text e))
      | Inr (start_ip, subnet) \<Rightarrow>
     (case parse_cidr (dc_overlay_network d) of
        Inl e \<Rightarrow> Inl (bad_config ''overlay_network'' (error_text e))
      | Inr (_, overlay) \<Rightarrow>
     (let dns = parse_ip (dc_overlay_dns_address d);
          external = parse_ip (dc_external_dns_server d);
          host = parse_ip (dc_host_address d)
      in if dns = [] then Inl (bad_config ''overlay_dns_address'' (dc_overlay_dns_address d @ '' is not an IP address''))
         else if \<not> net_contains overlay dns then Inl (bad_config ''overlay_dns_address'' ''not in overlay network'')
         else if external = [] then Inl (bad_config ''dns_server'' (dc_external_dns_server d @ '' is not an IP address''))
         else if host = [] then Inl (bad_config ''host_address'' (dc_host_address d @ '' is not an IP address''))
         else if is_unspecified host then Inl (bad_config ''host_address'' ''must be nonzero'')
         else Inr
           \<lparr>vc_listen_address = dc_listen_host d @ '':'' @ show_int (dc_listen_port d),
            vc_overlay_network = overlay,
            vc_local_subnet = \<lparr>net_ip = start_ip, net_mask = net_mask subnet\<rparr>,
            vc_database_url = db_url,
            vc_sandbox_dir = dc_sandbox_dir d,
            vc_host_address = host,
            vc_overlay_dns_address = dns,
            vc_external_dns_server = external,
            vc_suffix = dc_suffix d,
            vc_debug_address = dc_debug_address d\<rparr>)))))"

text \<open>\<open>files\<close>: what \<open>os.Open\<close> and reading give for a path.\<close>

definition parse_config_file ::
  "(string \<Rightarrow> goerror + string) \<Rightarrow> (string \<Rightarrow> goerror + 'd daemon_config) \<Rightarrow> ('d \<Rightarrow> goerror + string) \<Rightarrow>
   string \<Rightarrow> goerror + validated_config" where
  "parse_config_file files decode postgres_url path =
     (if path = [] then Inl (Errorf ''missing config file path'')
      else
        (case files path of
           Inl e \<Rightarrow> Inl e
         | Inr contents \<Rightarrow>
             (case config_unmarshal decode contents of
                Inl e \<Rightarrow> Inl (wrapf ''parsing config'' e)
              | Inr d \<Rightarrow> parse_and_validate postgres_url d)))"

end
