(* ===== verification/Startup.thy ===== *)
theory Startup
  imports Client Config
begin

text \<open>
  The main program (\<open>cmd/ducatid/main.go\<close>): it reads the configuration, builds the components,
  restarts the monitors of the sandboxes it finds on disk, and routes requests to the handlers.

  Outside the repository, and parameters here: the connection to the database (\<open>lib/db\<close>), the
  router (\<open>github.com/tedsuo/rata\<close>) and the order in which Go visits a map.  The process groups of
  \<open>ifrit\<close>, the HTTP listener and the debug server only run what is built here: of them the model has
  the list of the members and the message at the end.  \<open>log.Fatalf\<close> ends the program with a message;
  such an end is the error of the model's \<open>main\<close>.
\<close>

section \<open>Building the components\<close>

text \<open>\<open>ipam.ConfigFactory{Config: types.IPConfig{IP: *subnet}}\<close>: no gateway and no routes.\<close>

definition base_config :: "validated_config \<Rightarrow> ip_config" where
  "base_config conf = \<lparr>cfg_ip = vc_local_subnet conf, cfg_gateway = [], cfg_routes = []\<rparr>"

text \<open>\<open>fmt.Sprintf("%s:%d", address, 53)\<close>\<close>

definition dns_port_of :: "ip \<Rightarrow> string" where
  "dns_port_of a = ip_string a @ '':53''"

definition main_env :: "'k os \<Rightarrow> validated_config \<Rightarrow> 'k env" where
  "main_env os conf =
     executor_new os (vc_sandbox_dir conf)
       \<lparr>df_external = dns_port_of (vc_external_dns_server conf), df_api = ''http://'' @ vc_listen_address conf,
        df_suffix = vc_suffix conf\<rparr>"

definition main_wiring :: "'k os \<Rightarrow> validated_config \<Rightarrow> go_file \<Rightarrow> 'k wiring" where
  "main_wiring os conf host_namespace =
     \<lparr>su_base = base_config conf, su_default_network = ''default'',
      su_creator =
        \<lparr>cr_env = main_env os conf, cr_host_namespace = host_namespace,
         cr_dns_address = dns_port_of (vc_overlay_dns_address conf), cr_host_ip = vc_host_address conf\<rparr>\<rparr>"

section \<open>Starting\<close>

definition overlay_check :: "validated_config \<Rightarrow> ('s, unit) prog" where
  "overlay_check conf =
     (if net_contains (vc_overlay_network conf) (net_ip (vc_local_subnet conf)) then ret ()
      else fail (Errorf ''overlay network does not contain local subnet''))"

text \<open>
  \<open>sandboxRepo.Load\<close> and \<open>sandboxRepo.ForEach(reloader)\<close>; \<open>order\<close> lists the keys of the loaded map in
  the order in which Go visits them.
\<close>

definition restart_monitors ::
  "'k os \<Rightarrow> string list \<Rightarrow> string \<Rightarrow> (('k, 'z) sandbox_world_scheme, unit) prog" where
  "restart_monitors os order dir =
     bind_wrap ''unable to load sandboxRepo'' (sandboxes_load os dir dir) (\<lambda>_.
     bind_wrap ''unable to restart monitors'' (sandboxes_for_each (reloader_callback os) order) (\<lambda>_. ret ()))"

definition main ::
  "'k os \<Rightarrow> (string \<Rightarrow> ('k, unit) sysop) \<Rightarrow> string list \<Rightarrow> goerror + validated_config \<Rightarrow>
   (('k, 'z) daemon_scheme, 'k wiring) prog" where
  "main os connect order config =
     bind_wrap ''parsing config'' (pick config) (\<lambda>conf.
     bind_err (overlay_check conf) (\<lambda>_.
     bind_wrap ''db connect'' (sys (connect (vc_database_url conf))) (\<lambda>_.
     bind_wrap ''failed to construct datastore'' (store_new os) (\<lambda>_.
     bind_wrap ''unable to make repo'' (new_repository os (vc_sandbox_dir conf)) (\<lambda>_.
     bind_wrap ''unable to open host namespace'' (open_path os ''/proc/self/ns/net'') (\<lambda>host_namespace.
     bind_err (restart_monitors os order (vc_sandbox_dir conf)) (\<lambda>_.
     ret (main_wiring os conf host_namespace))))))))"

text \<open>The members of the process group, in the order in which they start: name and address.\<close>

definition main_members :: "validated_config \<Rightarrow> (string \<times> string) list" where
  "main_members conf =
     (let members = [(''http_server'', vc_listen_address conf)]
      in if vc_debug_address conf \<noteq> [] then (''debug-server'', vc_debug_address conf) # members else members)"

text \<open>What the group ends with.\<close>

definition main_end :: "goerror option \<Rightarrow> goerror option" where
  "main_end waited = map_option (wrapf ''daemon terminated'') waited"

section \<open>Routing\<close>

text \<open>\<open>rata.Routes\<close>: name, method and path of every route.\<close>

definition daemon_routes :: "(string \<times> string \<times> string) list" where
  "daemon_routes =
     [(''get_container'', ''GET'', ''/containers/:container_id''),
      (''networks_list_containers'', ''GET'', ''/networks/:network_id''),
      (''list_containers'', ''GET'', ''/containers''),
      (''cni_add'', ''POST'', ''/cni/add''),
      (''cni_del'', ''POST'', ''/cni/del'')]"

text \<open>
  \<open>rataHandlers\<close>: the handler of a route, with the value of its path parameter.  A name without a
  handler does not pass \<open>rata.NewRouter\<close>.
\<close>

definition rata_handler ::
  "'k wiring \<Rightarrow> codec \<Rightarrow> string \<Rightarrow> string \<Rightarrow> goerror + string \<Rightarrow> (('k, 'z) daemon_scheme, response) prog" where
  "rata_handler S cd name param body =
     (if name = ''get_container'' then handle_get_container (su_os S) cd param
      else if name = ''networks_list_containers'' then handle_networks_list (su_os S) cd param
      else if name = ''list_containers'' then handle_list_containers (su_os S) cd
      else if name = ''cni_add'' then handle_cni_add S cd body
      else if name = ''cni_del'' then handle_cni_del S cd body
      else ret (answer 404))"

text \<open>A request: \<open>router\<close> finds the route of a method and a path and the parameter, or none.\<close>

definition serve ::
  "'k wiring \<Rightarrow> codec \<Rightarrow> (string \<Rightarrow> string \<Rightarrow> (string \<times> string) option) \<Rightarrow>
   string \<Rightarrow> string \<Rightarrow> goerror + string \<Rightarrow> (('k, 'z) daemon_scheme, response) prog" where
  "serve S cd router req_method req_path body =
     (case router req_method req_path of
        None \<Rightarrow> ret (answer 404)
      | Some (name, param) \<Rightarrow> rata_handler S cd name param body)"

end
