(* ===== verification/Handlers_Props.thy ===== *)
theory Handlers_Props
  imports Handlers
begin

text \<open>
  What clients of the HTTP interface can rely on: what a status says about the state of the daemon,
  and what they read after they have written.
\<close>

section \<open>Add requests and the state\<close>

lemma cni_add_sentinel:
  assumes "cni_add S p s = (Err (Sentinel e), t)"
  shows "fst (ducati_allocate (su_base S) (network_of S p) (ap_container_id p) (ipam_state s)) = Err (Sentinel e)"
proof -
  obtain q a where q: "ducati_allocate (su_base S) (network_of S p) (ap_container_id p) (ipam_state s) = (q, a)"
    by fastforce
  show ?thesis
  proof (cases q)
    case (Ok result)
    with assms q show ?thesis
      by (auto simp: cni_add_eval bind_wrap_def attempt_def fail_def ret_def split: prod.splits outcome.splits)
  qed (use assms q in \<open>simp_all add: cni_add_eval\<close>)
qed

lemma setup_in_sandbox_record:
  assumes "setup_in_sandbox c config ip4 ns r s = (Ok x, t)"
  shows "\<exists>mac. x = container_record c config ip4 mac"
  using assms by (auto simp: setup_in_sandbox_def Let_def gets_def elim!: bind_err_OkE)

lemma with_sandbox_lock_OkE:
  assumes "with_sandbox_lock r m s = (Ok x, t)"
  obtains u v where "m u = (Ok x, v)"
  using assms by (auto simp: with_sandbox_lock_def deferring_def deadlock_def split: if_splits prod.splits)

lemma creator_setup_record:
  assumes "creator_setup c config s = (Ok x, t)"
  shows "\<exists>ip4 mac. res_ip4 (cc_ipam_result config) = Some ip4 \<and> x = container_record c config ip4 mac"
proof -
  obtain ip4 r u v where "res_ip4 (cc_ipam_result config) = Some ip4"
    "with_sandbox_lock r (setup_in_sandbox c config ip4 u r) v = (Ok x, t)"
    using assms
    by (auto simp: creator_setup_def Let_def panic_def elim!: bind_wrap_OkE split: option.splits)
  then show ?thesis
    by (metis with_sandbox_lock_OkE setup_in_sandbox_record)
qed

text \<open>A successful request: the address, the setup and the new row.\<close>

lemma cni_add_ok:
  assumes "cni_add S p s = (Ok result, t)"
  obtains ip4 mac u where
    "res_ip4 result = Some ip4"
    "store_create (su_os S) (container_record (su_creator S)
       (creator_config_of p (network_of S p) (vni_of (network_of S p)) result) ip4 mac) u = (Ok (), t)"
proof -
  obtain q a where q: "ducati_allocate (su_base S) (network_of S p) (ap_container_id p) (ipam_state s) = (q, a)"
    by fastforce
  obtain c u where c: "creator_setup (su_creator S) (creator_config_of p (network_of S p) (vni_of (network_of S p)) result)
      (s\<lparr>ipam_state := a\<rparr>) = (Ok c, u)" and st: "store_create (su_os S) c u = (Ok (), t)"
    using assms q by (cases q) (auto simp: cni_add_eval ret_def elim!: bind_wrap_OkE)
  from creator_setup_record [OF c] st that show ?thesis
    by (auto simp: creator_config_of_def)
qed

lemma cni_add_ok_allocated:
  assumes "cni_add S p s = (Ok result, t)"
  shows "ducati_allocate (su_base S) (network_of S p) (ap_container_id p) (ipam_state s) = (Ok result, ipam_state t)"
proof -
  obtain q a where q: "ducati_allocate (su_base S) (network_of S p) (ap_container_id p) (ipam_state s) = (q, a)"
    by fastforce
  have "q = Ok result"
    using assms q by (cases q) (auto simp: cni_add_eval ret_def elim!: bind_wrap_OkE)
  with q cni_add_ipam [OF assms] show ?thesis by simp
qed

section \<open>What the status of an Add request says\<close>

definition well_formed_add :: "cni_add_payload \<Rightarrow> bool" where
  "well_formed_add p \<longleftrightarrow> ap_interface_name p \<noteq> [] \<and> ap_container_id p \<noteq> [] \<and> ap_container_namespace p \<noteq> []"

lemma marshal_error_status [simp]:
  "rs_status (snd (marshal_error cd e (answer c))) = Some c"
  "status_of (snd (marshal_error cd e (answer c))) = c"
  by (simp_all add: marshal_error_def split: sum.split)

lemma handle_cni_add_cases:
  assumes "cd_add cd bytes = Inr p" "handle_cni_add S cd (Inr bytes) s = (Ok resp, t)"
  obtains (malformed) "\<not> well_formed_add p" "resp = answer 400" "t = s"
  | (added) result where "well_formed_add p" "cni_add S p s = (Ok result, t)" "status_of resp \<in> {201, 500}"
  | (failed) e where "well_formed_add p" "cni_add S p s = (Err e, t)" "status_of resp = add_error_status e"
proof (cases "well_formed_add p")
  case False
  with assms have "resp = answer 400" "t = s"
    by (auto simp: handle_cni_add_def well_formed_add_def ret_def split: if_splits)
  with False malformed show ?thesis by blast
next
  case True
  obtain r u where r: "cni_add S p s = (r, u)" by fastforce
  from True assms r show ?thesis
    by (cases r)
       (auto simp: handle_cni_add_def well_formed_add_def attempt_def ret_def split: sum.splits
         intro: added failed)
qed

text \<open>
  C16: The status of an Add request tells the truth about the allocator: 400 is sent exactly for a
  request with an empty field and for a container that holds an address of the network already; 201
  is sent only if the container held none and holds one now; 400 and 409 mean that no reservation
  has changed.
\<close>

theorem add_status_is_truthful:
  assumes reached: "ipam_reached (su_base S) (ipam_state s)"
    and payload: "cd_add cd bytes = Inr p"
    and handled: "handle_cni_add S cd (Inr bytes) s = (Ok resp, t)"
  shows "(status_of resp = 400 \<longleftrightarrow>
      \<not> well_formed_add p \<or> ap_container_id p \<in> ran (holds (ipam_state s) (network_of S p))) \<and>
    (status_of resp = 201 \<longrightarrow> ap_container_id p \<notin> ran (holds (ipam_state s) (network_of S p)) \<and>
      ap_container_id p \<in> ran (holds (ipam_state t) (network_of S p))) \<and>
    (status_of resp \<in> {400, 409} \<longrightarrow> holds (ipam_state t) = holds (ipam_state s)) \<and>
    status_of resp \<in> {201, 400, 409, 500}"
proof -
  let ?n = "network_of S p" and ?c = "ap_container_id p"
  obtain calls answers where run: "ipam_run (su_base S) calls new_allocator = (answers, ipam_state s)"
    using reached by (auto simp: ipam_reached_def)
  obtain q a where q: "ducati_allocate (su_base S) ?n ?c (ipam_state s) = (q, a)" by fastforce
  note errors = allocate_error_facts [OF run q]
  from payload handled show ?thesis
  proof (cases rule: handle_cni_add_cases)
    case (added result)
    from cni_add_ok_allocated [OF added(2)] q have r: "q = Ok result" "a = ipam_state t" by simp_all
    with allocate_facts [OF run, of ?n ?c result a] q
    have "?c \<notin> ran (holds (ipam_state s) ?n)" "?c \<in> ran (holds (ipam_state t) ?n)"
      by (auto intro: ranI)
    with added show ?thesis by auto
  next
    case (failed e)
    have t: "ipam_state t = a" using cni_add_ipam [OF failed(2)] q by simp
    have q_err: "q = Err e" if "e = Sentinel x" for x
      using cni_add_sentinel failed(2) q that by force
    have e_err: "e = x" if "q = Err x" for x
      using failed(2) q that by (simp add: cni_add_eval)
    have "e = Sentinel AlreadyOnNetworkError \<longleftrightarrow> ?c \<in> ran (holds (ipam_state s) ?n)"
      using errors q_err e_err by blast
    moreover have "holds (ipam_state t) = holds (ipam_state s)" if "e = Sentinel x" for x
      using errors q_err [OF that] t by simp
    ultimately show ?thesis
      using failed by (auto simp: add_error_status_def)
  qed simp
qed

definition rejected_add :: "codec \<Rightarrow> goerror + string \<Rightarrow> bool" where
  "rejected_add cd body =
     (case body of Inl e \<Rightarrow> True | Inr b \<Rightarrow> (case cd_add cd b of Inl e \<Rightarrow> True | Inr p \<Rightarrow> \<not> well_formed_add p))"

definition rejected_del :: "codec \<Rightarrow> goerror + string \<Rightarrow> bool" where
  "rejected_del cd body =
     (case body of Inl e \<Rightarrow> True
      | Inr b \<Rightarrow> (case cd_del cd b of Inl e \<Rightarrow> True
          | Inr p \<Rightarrow> dp_interface_name p = [] \<or> dp_container_id p = [] \<or> dp_container_namespace p = []))"

text \<open>
  A request that cannot be read or parsed, or that lacks a field, is answered with an empty 400
  and changes nothing in the daemon, for Add and for Del.
\<close>

theorem malformed_requests_change_nothing:
  "(rejected_add cd body \<longrightarrow> handle_cni_add S cd body s = (Ok (answer 400), s)) \<and>
   (rejected_del cd body \<longrightarrow> handle_cni_del S cd body s = (Ok (answer 400), s))"
  by (auto simp: rejected_add_def rejected_del_def well_formed_add_def handle_cni_add_def handle_cni_del_def ret_def
      split: sum.splits)

section \<open>Reading what was written\<close>

text \<open>
  C19: Read your writes, over any database whose table obeys SQL: after an Add request was answered
  with 201, a GET of the container is answered with 200 and the encoding of its record, unless the
  read of the datastore fails with an error of the database, or the record cannot be encoded, and
  then with 500.  The record has the container's id, application and network, the leased address
  that the 201 carried, and the sandbox of the network's VNI.
\<close>

theorem added_container_is_served:
  assumes table: "sql_table (su_os S) rows"
    and add: "cd_add cd bytes = Inr p" "handle_cni_add S cd (Inr bytes) s = (Ok resp, t)" "status_of resp = 201"
    and get: "handle_get_container (su_os S) cd (ap_container_id p) t = (Ok resp', u)"
  shows "\<exists>result ip4 c. cni_add S p s = (Ok result, t) \<and> cd_result cd result = Inr (rs_body resp) \<and>
    res_ip4 result = Some ip4 \<and>
    ctr_id c = ap_container_id p \<and> ctr_app c = np_app_id (ap_network p) \<and>
    ctr_network_id c = network_of S p \<and> ctr_ip c = ip_string (net_ip (cfg_ip ip4)) \<and>
    ctr_sandbox_name c = sandbox_name (vni_of (network_of S p)) \<and>
    (case fst (store_get (su_os S) (ap_container_id p) t) of
       Ok d \<Rightarrow> d = c \<and>
         (case cd_container cd c of
            Inr b \<Rightarrow> resp' = \<lparr>rs_status = Some 200, rs_body = b\<rparr>
          | Inl e \<Rightarrow> status_of resp' = 500)
     | Err e \<Rightarrow> e \<noteq> Sentinel RecordNotFoundError \<and> status_of resp' = 500
     | Abort x \<Rightarrow> False)"
  using add(1,2)
proof (cases rule: handle_cni_add_cases)
  case (added result)
  obtain ip4 mac v where ip4: "res_ip4 result = Some ip4" and
    created: "store_create (su_os S) (container_record (su_creator S)
       (creator_config_of p (network_of S p) (vni_of (network_of S p)) result) ip4 mac) v = (Ok (), t)"
    by (rule cni_add_ok [OF added(2)])
  let ?c = "container_record (su_creator S) (creator_config_of p (network_of S p) (vni_of (network_of S p)) result) ip4 mac"
  have id: "ctr_id ?c = ap_container_id p" by (simp add: container_record_def creator_config_of_def)
  from sql_table.store_create_cases [OF table created] id
  have row: "rows (kernel t) (ap_container_id p) = Some ?c" by simp
  have body: "cd_result cd result = Inr (rs_body resp)"
    using added add by (auto simp: handle_cni_add_def well_formed_add_def attempt_def ret_def split: sum.splits)
  obtain g w where g: "store_get (su_os S) (ap_container_id p) t = (g, w)" by fastforce
  note found = sql_table.store_get_cases [OF table g]
  have served: "case g of
       Ok d \<Rightarrow> d = ?c \<and>
         (case cd_container cd ?c of
            Inr b \<Rightarrow> resp' = \<lparr>rs_status = Some 200, rs_body = b\<rparr>
          | Inl e \<Rightarrow> status_of resp' = 500)
     | Err e \<Rightarrow> e \<noteq> Sentinel RecordNotFoundError \<and> status_of resp' = 500
     | Abort x \<Rightarrow> False"
    using get g found row
    by (cases g) (auto simp: handle_get_container_def attempt_def ret_def split: sum.splits)
  show ?thesis
    using added(2) body ip4 served
    by (intro exI [of _ result] exI [of _ ip4] exI [of _ ?c])
       (simp add: g container_record_def creator_config_of_def)
next
  case malformed
  with add(3) show ?thesis by simp
next
  case (failed e)
  with add(3) show ?thesis by (simp add: add_error_status_def split: if_splits)
qed

lemma containers_of_network_filter: "containers_of_network i cs = filter (\<lambda>c. ctr_network_id c = i) cs"
  by (induction cs) simp_all

text \<open>
  C34: A listing of a network that is answered with 200 is complete and sound: its body encodes
  exactly the recorded containers of that network.
\<close>

theorem network_listing_is_complete:
  assumes table: "sql_table os rows"
    and list: "handle_networks_list os cd i s = (Ok resp, t)" "status_of resp = 200"
  shows "\<exists>cs. cd_containers cd cs = Inr (rs_body resp) \<and>
    set cs = {c \<in> ran (rows (kernel s)). ctr_network_id c = i}"
proof -
  obtain r u where r: "store_all os s = (r, u)" by fastforce
  obtain cs where cs: "r = Ok cs" "cd_containers cd (containers_of_network i cs) = Inr (rs_body resp)"
    using list r by (cases r) (auto simp: handle_networks_list_def attempt_def ret_def split: sum.splits)
  obtain k where "os_db_select os (kernel s) = (Inr cs, k)"
    using r cs(1) by (auto simp: store_all_def ret_def sys_def split: prod.splits sum.splits elim!: bind_wrap_OkE)
  then have "set cs = ran (rows (kernel s))" by (rule sql_table.select_all [OF table])
  with cs(2) show ?thesis by (auto simp: containers_of_network_filter)
qed

section \<open>Del requests\<close>

lemma on_ipam_kernel: "on_ipam m s = (r, t) \<Longrightarrow> kernel t = kernel s"
  by (auto simp: on_ipam_def split: prod.splits)

lemma cni_del_ok:
  fixes s t :: "('k, 'z) daemon_scheme"
  assumes "cni_del S p s = (Ok (), t)"
  obtains u v :: "('k, 'z) daemon_scheme" where "store_delete (su_os S) (dp_container_id p) u = (Ok (), v)" "kernel t = kernel v"
  using assms
  by (auto simp: cni_del_def ret_def [of "()"] elim!: bind_wrap_OkE dest!: on_ipam_kernel)

text \<open>
  C18: What a Del request that is answered with 204 has taken away, over any database whose table
  obeys SQL: the container had a record, it has none now, a GET of it is not answered with 200, and
  it holds no address in the network of its record.  (An address that it holds in another network,
  after an Add request that failed late, stays.)
\<close>

theorem deleted_container_is_gone:
  fixes s t u :: "('k, 'z) daemon_scheme"
  assumes table: "sql_table (su_os S) rows"
    and reached: "ipam_reached (su_base S) (ipam_state s)"
    and del: "cd_del cd bytes = Inr p" "handle_cni_del S cd (Inr bytes) s = (Ok resp, t)" "status_of resp = 204"
    and get: "handle_get_container (su_os S) cd (dp_container_id p) t = (Ok resp', u)"
  shows "\<exists>found. rows (kernel s) (dp_container_id p) = Some found \<and>
    dp_container_id p \<notin> ran (holds (ipam_state t) (ctr_network_id found)) \<and>
    rows (kernel t) (dp_container_id p) = None \<and> status_of resp' \<noteq> 200"
proof -
  let ?c = "dp_container_id p"
  obtain r v where "cni_del S p s = (r, v)" by fastforce
  with del have ok: "cni_del S p s = (Ok (), t)"
    by (cases r) (auto simp: handle_cni_del_def attempt_def ret_def split: if_splits)
  obtain g w where g: "store_get (su_os S) ?c s = (g, w)" by fastforce
  obtain found where found: "g = Ok found"
    "ipam_state t = snd (ducati_release (ctr_network_id found) ?c (ipam_state s))"
    using cni_del_ipam [OF reached ok] g by auto
  obtain calls answers where run: "ipam_run (su_base S) calls new_allocator = (answers, ipam_state s)"
    using reached by (auto simp: ipam_reached_def)
  have "?c \<notin> ran (holds (ipam_state t) (ctr_network_id found))"
    using release_from_reached(2) [OF run prod.collapse [symmetric]] found(2) by (auto simp: ran_def)
  moreover have "rows (kernel s) ?c = Some found"
    using sql_table.store_get_cases [OF table g] found(1) by simp
  moreover obtain x y :: "('k, 'z) daemon_scheme" where "store_delete (su_os S) ?c x = (Ok (), y)" "kernel t = kernel y"
    by (rule cni_del_ok [OF ok])
  then have none: "rows (kernel t) ?c = None"
    using sql_table.store_delete_cases [OF table] by fastforce
  moreover obtain h z where h: "store_get (su_os S) ?c t = (h, z)" by fastforce
  then have "\<not> is_ok h"
    using sql_table.store_get_cases [OF table h] none by (cases h) auto
  then have "status_of resp' \<noteq> 200"
    using get h by (cases h) (auto simp: handle_get_container_def attempt_def ret_def split: if_splits)
  ultimately show ?thesis by blast
qed

section \<open>Requests and mutexes\<close>

lemma reserve_loop_never_aborts: "fst (reserve_loop mem_ops cfg c x s) \<noteq> Abort y"
proof (induction "mem_ops" cfg c x s rule: reserve_loop.induct)
  case (1 cfg c x s)
  then show ?case
    by (subst reserve_loop.simps) (auto simp: mem_ops_def mem_reserve_def Let_def)
qed

lemma ducati_never_aborts: "fst (ducati_allocate base n c a) \<noteq> Abort y" "fst (ducati_release n c a) \<noteq> Abort y"
proof -
  have loop: "reserve_loop mem_ops cfg c x s \<noteq> (Abort y, t)" for cfg x s t
    using reserve_loop_never_aborts [of cfg c x s y] by auto
  obtain cfg a' where cfg: "get_config (config_factory_create base) n a = (Ok cfg, a')"
    by (cases "al_configs a n") (auto simp: get_config_def config_factory_create_def)
  obtain st a'' where st: "get_store store_factory_create n a' = (Ok st, a'')"
    by (cases "al_stores a' n") (auto simp: get_store_def store_factory_create_def)
  show "fst (ducati_allocate base n c a) \<noteq> Abort y"
    using cfg st
    by (auto simp: ducati_allocate_def allocate_ip_def bind_err_eval(1) Let_def loop split: prod.split outcome.split)
  show "fst (ducati_release n c a) \<noteq> Abort y"
    by (simp add: ducati_release_def release_ip_def bind_err_def attempt_def get_store_def fail_def store_factory_create_def
        mem_ops_def mem_release_by_id_def Let_def split: option.split)
qed

lemma lock_safe_on_allocator: "(\<And>a. fst (m a) \<noteq> Abort Deadlock) \<Longrightarrow> lock_safe P (on_ipam m)"
  by (rule lock_safeI) (simp add: on_ipam_def settled_ipam split: prod.split, metis fst_conv)

lemma lock_safe_on_ipam [lock_intros]:
  "lock_safe P (on_ipam (ducati_allocate base n c))" "lock_safe P (on_ipam (ducati_release n c))"
  by (simp_all add: lock_safe_on_allocator ducati_never_aborts)

lemma lock_safe_controllers: "lock_safe all_free (cni_add S p)" "lock_safe all_free (cni_del S d)"
  unfolding cni_add_def cni_del_def
  by (intro lock_intros stable_all_free lock_safe_creator_setup lock_safe_deletor_delete)+

lemma lock_safe_handlers: "lock_safe all_free (handle_cni_add S cd body)" "lock_safe all_free (handle_cni_del S cd body)"
  unfolding handle_cni_add_def handle_cni_del_def
  by (auto intro!: lock_intros stable_all_free lock_safe_controllers split: sum.split)

text \<open>
  No request blocks for ever on a mutex of the daemon: started with no mutex held, the Add and
  the Del handler end without a deadlock, on any system, for any body, and leave no mutex held.
\<close>

theorem requests_never_deadlock:
  assumes "all_free s"
  shows "fst (handle_cni_add S cd body s) \<noteq> Abort Deadlock \<and> all_free (snd (handle_cni_add S cd body s)) \<and>
    fst (handle_cni_del S cd body s) \<noteq> Abort Deadlock \<and> all_free (snd (handle_cni_del S cd body s))"
  using lock_safe_handlers [of S cd body] assms stable_all_free
  unfolding lock_safe_def lock_stable_def by blast

section \<open>A run of the handlers\<close>

definition demo_codec :: codec where
  "demo_codec = \<lparr>cd_add = (\<lambda>_. Inr demo_add), cd_del = (\<lambda>_. Inr demo_del), cd_result = (\<lambda>_. Inr ''result''),
     cd_error = Inr, cd_container = (\<lambda>c. Inr (ctr_ip c)), cd_containers = (\<lambda>cs. Inr (concat (map ctr_id cs)))\<rparr>"

lemma demo_codec_simps [simp]:
  "cd_add demo_codec b = Inr demo_add" "cd_del demo_codec b = Inr demo_del" "cd_result demo_codec r = Inr ''result''"
  "cd_container demo_codec c = Inr (ctr_ip c)" "cd_containers demo_codec cs = Inr (concat (map ctr_id cs))"
  by (simp_all add: demo_codec_def)

lemma demo_request_simps:
  "ap_container_id demo_add = ''c1''" "dp_container_id demo_del = ''c1''"
  "dp_interface_name demo_del = ''eth0''" "dp_container_namespace demo_del = ''/c/ns1''"
  by (simp_all add: demo_add_def demo_del_def)

lemma demo_os: "su_os sim_wiring = sim_os"
  by (simp add: su_os_def sim_wiring_def sim_env_def)

lemma demo_table: "sql_table (su_os sim_wiring) sim_rows"
  unfolding demo_os by (rule sim_db.sql_table_axioms)

lemma demo_well_formed: "well_formed_add demo_add"
  by (simp add: well_formed_add_def demo_add_def)

lemma demo_handle_add:
  "handle_cni_add sim_wiring demo_codec (Inr b) (daemon_init demo_kernel) =
   (Ok \<lparr>rs_status = Some 201, rs_body = ''result''\<rparr>, demo_added)"
  using demo_well_formed
  by (simp add: handle_cni_add_def well_formed_add_def attempt_def demo_added ret_def)

lemma demo_handle_del:
  "handle_cni_del sim_wiring demo_codec (Inr b) demo_added =
   (Ok (answer 204), snd (cni_del sim_wiring demo_del demo_added))"
  using demo_deleted
  by (cases "cni_del sim_wiring demo_del demo_added")
     (simp add: handle_cni_del_def demo_request_simps attempt_def ret_def)

lemma demo_handle_get:
  "\<exists>u. handle_get_container (su_os sim_wiring) demo_codec ''c1'' demo_added =
     (Ok \<lparr>rs_status = Some 200, rs_body = ''192.168.1.2''\<rparr>, u)"
proof -
  have "fst (store_get (su_os sim_wiring) ''c1'' demo_added) = Ok demo_record"
    using demo_finish_runs(2) unfolding demo_added_def demo_add_eq demo_request_simps .
  then show ?thesis
    by (cases "store_get (su_os sim_wiring) ''c1'' demo_added")
       (simp add: handle_get_container_def attempt_def demo_record_def ret_def)
qed

lemma get_container_answers: "\<exists>resp t. handle_get_container os cd i s = (Ok resp, t)"
  by (auto simp: handle_get_container_def store_get_def sys_def attempt_def fail_def ret_def split: prod.splits sum.splits)

lemma add_status_is_truthful_witness:
  "''c1'' \<in> ran (holds (ipam_state demo_added) ''default'')"
  using add_status_is_truthful [OF demo_reached _ demo_handle_add [of "[]"]]
  by (simp add: demo_network demo_request_simps)

lemma malformed_requests_change_nothing_witness:
  "handle_cni_add sim_wiring demo_codec (Inl (ExtError ''EOF'')) (daemon_init demo_kernel) =
   (Ok (answer 400), daemon_init demo_kernel)"
  by (rule malformed_requests_change_nothing [THEN conjunct1, rule_format]) (simp add: rejected_add_def)

lemma added_container_is_served_witness:
  "\<exists>u. handle_get_container (su_os sim_wiring) demo_codec ''c1'' demo_added =
     (Ok \<lparr>rs_status = Some 200, rs_body = ''192.168.1.2''\<rparr>, u)"
proof -
  obtain resp' u where get: "handle_get_container (su_os sim_wiring) demo_codec (ap_container_id demo_add) demo_added = (Ok resp', u)"
    using get_container_answers by blast
  have read: "fst (store_get (su_os sim_wiring) (ap_container_id demo_add) demo_added) = Ok demo_record"
    using demo_finish_runs(2) unfolding demo_added_def demo_add_eq demo_request_simps .
  have "ip_string [192, 168, 1, 2] = ''192.168.1.2''" by code_simp
  then have "resp' = \<lparr>rs_status = Some 200, rs_body = ''192.168.1.2''\<rparr>"
    using added_container_is_served [OF demo_table _ demo_handle_add [of "[]"] _ get, unfolded read]
    by (auto simp: demo_added demo_result_def)
  with get show ?thesis unfolding demo_request_simps by blast
qed

lemma network_listing_is_complete_witness:
  "let c = \<lambda>i n. \<lparr>ctr_id = i, ctr_ip = [], ctr_mac = [], ctr_host_ip = [], ctr_network_id = n, ctr_sandbox_name = [], ctr_app = []\<rparr>
   in \<exists>cs. concat (map ctr_id cs) = ''a'' \<and>
        set cs = {d \<in> ran (sim_row [c ''a'' ''n'', c ''b'' ''m'']). ctr_network_id d = ''n''}"
proof -
  let ?c = "\<lambda>i n. \<lparr>ctr_id = i, ctr_ip = [], ctr_mac = [], ctr_host_ip = [], ctr_network_id = n, ctr_sandbox_name = [], ctr_app = []\<rparr>"
  let ?s = "\<lparr>kernel = (sim_init [] [])\<lparr>sim_table := [?c ''a'' ''n'', ?c ''b'' ''m'']\<rparr>\<rparr>"
  have "handle_networks_list sim_os demo_codec ''n'' ?s = (Ok \<lparr>rs_status = Some 200, rs_body = ''a''\<rparr>, ?s)"
    by code_simp
  from network_listing_is_complete [OF sim_db.sql_table_axioms this] show ?thesis
    by (simp add: sim_rows_def Let_def)
qed

lemma deleted_container_is_gone_witness:
  "sim_rows (kernel (snd (cni_del sim_wiring demo_del demo_added))) ''c1'' = None"
proof -
  obtain resp u where "handle_get_container (su_os sim_wiring) demo_codec (dp_container_id demo_del)
      (snd (cni_del sim_wiring demo_del demo_added)) = (Ok resp, u)"
    using get_container_answers by blast
  from deleted_container_is_gone [OF demo_table demo_added_reached _ demo_handle_del [of "[]"] _ this]
  show ?thesis by (auto simp: demo_request_simps)
qed

lemma all_free_daemon_init: "all_free (daemon_init k)"
  by (simp add: all_free_def repo_free_def registered_def daemon_init_def)

lemma requests_never_deadlock_witness:
  "fst (handle_cni_del sim_wiring demo_codec (Inr []) (daemon_init demo_kernel)) \<noteq> Abort Deadlock"
  by (rule requests_never_deadlock [OF all_free_daemon_init, THEN conjunct2, THEN conjunct2, THEN conjunct1])

end
