(* ===== verification/Config_Props.thy ===== *)
theory Config_Props
  imports Config
begin

text \<open>
  What a validated configuration guarantees to the components that are built from it, and which
  subnets the index of a daemon selects.
\<close>

section \<open>Networks in CIDR notation\<close>

lemma length_parse_octets: "parse_octets n first s = Some bs \<Longrightarrow> length bs = n"
  by (induction n first s arbitrary: bs rule: parse_octets.induct) (auto split: if_splits option.splits)

lemma parse_ipv4_16: "parse_ipv4 s = [] \<or> (\<exists>bs. length bs = 4 \<and> parse_ipv4 s = ipv4_16 bs)"
  by (auto simp: parse_ipv4_def dest: length_parse_octets split: option.split)

lemma parse_cidr_mask:
  assumes "parse_cidr s = Inr (a, n)"
  shows "\<exists>ones bits. net_mask n = cidr_mask ones bits \<and> ones \<le> bits \<and>
    (bits = 32 \<and> length (to4 a) = 4 \<or> bits = 128 \<and> parse_ipv4 (takeWhile (\<lambda>c. c \<noteq> CHR ''/'') s) = [])"
proof -
  let ?v4 = "parse_ipv4 (takeWhile (\<lambda>c. c \<noteq> CHR ''/'') s)"
  let ?bits = "if ?v4 \<noteq> [] then 32 else 128 :: nat"
  obtain ones where ones: "ones \<le> ?bits" "net_mask n = cidr_mask ones ?bits" "?v4 \<noteq> [] \<Longrightarrow> a = ?v4"
    using assms
    by (auto simp: parse_cidr_def Let_def not_less split: if_splits option.splits list.splits prod.splits)
  from parse_ipv4_16 [of "takeWhile (\<lambda>c. c \<noteq> CHR ''/'') s"]
  have "length (to4 a) = 4" if "?v4 \<noteq> []"
    using that ones(3) by auto
  with ones show ?thesis by (cases "?v4 = []") auto
qed

text \<open>A dotted address with a prefix length parses to that address.\<close>

lemma set_join_with: "set (join_with c xs) \<subseteq> insert c (\<Union> (set ` set xs))"
  by (induction c xs rule: join_with.induct) auto

lemma dotted_no_slash: "CHR ''/'' \<notin> set (dotted bs)"
proof -
  have "CHR ''/'' \<notin> set (show_nat k)" for k
    by (rule not_in_show_nat) (simp add: is_digit_def)
  then show ?thesis
    using set_join_with [of "CHR ''.''" "map (\<lambda>b. show_nat (unat b)) bs"] by (auto simp: dotted_def)
qed

lemma takeWhile_before: "c \<notin> set s \<Longrightarrow> takeWhile (\<lambda>x. x \<noteq> c) (s @ c # t) = s"
  by (induction s) auto

lemma parse_cidr_dotted:
  assumes "length bs = 4" "ones \<le> 32"
  shows "parse_cidr (dotted bs @ CHR ''/'' # show_nat ones) =
    Inr (ipv4_16 bs, \<lparr>net_ip = ip_apply_mask (ipv4_16 bs) (cidr_mask ones 32), net_mask = cidr_mask ones 32\<rparr>)"
proof -
  have v4: "parse_ipv4 (dotted bs) = ipv4_16 bs"
  proof -
    have "bs \<noteq> []" using assms(1) by auto
    from parse_octets_dotted [OF this] show ?thesis by (simp add: parse_ipv4_def assms(1))
  qed
  have "ipv4_16 bs \<noteq> []" by (simp add: ipv4_16_def v4_in_v6_prefix_def)
  moreover have "dtoi (show_nat ones) = Some (ones, [])"
    using dtoi_show_nat [of "[]" ones] assms(2) by (simp add: parse_big_def)
  ultimately show ?thesis
    using assms(2) by (simp add: parse_cidr_def takeWhile_before [OF dotted_no_slash] v4 Let_def)
qed

section \<open>Interpolation\<close>

lemma replace_all_skip:
  "old \<noteq> [] \<Longrightarrow> hd old \<notin> set s \<Longrightarrow> replace_all (s @ t) old new = s @ replace_all t old new"
proof (induction s)
  case (Cons c s)
  then have "\<not> prefix old ((c # s) @ t)" by (cases old) auto
  with Cons show ?case by (subst replace_all.simps) simp
qed simp

lemma replace_all_hit: "old \<noteq> [] \<Longrightarrow> replace_all (old @ t) old new = new @ replace_all t old new"
  by (subst replace_all.simps) simp

lemma replace_all_none: "old \<noteq> [] \<Longrightarrow> hd old \<notin> set s \<Longrightarrow> replace_all s old new = s"
  using replace_all_skip [of old s "[]" new] by (simp add: replace_all.simps [of "[]"])

lemma dollar_not_shown: "CHR ''$'' \<notin> set (show_nat k)"
  by (rule not_in_show_nat) (simp add: is_digit_def)

text \<open>The subnets \<open>a.b.${index}.0/n\<close>.\<close>

definition index_template :: "byte \<Rightarrow> byte \<Rightarrow> nat \<Rightarrow> string" where
  "index_template a b n = show_nat (unat a) @ ''.'' @ show_nat (unat b) @ ''.${index}.0/'' @ show_nat n"

lemma replace_index_template:
  "replace_all (index_template a b n) ''${index}'' (show_nat i) =
   show_nat (unat a) @ ''.'' @ show_nat (unat b) @ ''.'' @ show_nat i @ ''.0/'' @ show_nat n"
proof -
  let ?pre = "show_nat (unat a) @ ''.'' @ show_nat (unat b) @ ''.''"
  have "replace_all (index_template a b n) ''${index}'' (show_nat i) =
      replace_all (?pre @ ''${index}'' @ ''.0/'' @ show_nat n) ''${index}'' (show_nat i)"
    by (simp add: index_template_def)
  also have "\<dots> = ?pre @ show_nat i @ ''.0/'' @ show_nat n"
  proof -
    have "replace_all (''.0/'' @ show_nat n) ''${index}'' (show_nat i) = ''.0/'' @ show_nat n"
      using dollar_not_shown by (intro replace_all_none) auto
    moreover have "CHR ''$'' \<notin> set ?pre"
      using dollar_not_shown by auto
    ultimately show ?thesis
      using replace_all_skip [of "''${index}''" ?pre] replace_all_hit [of "''${index}''"] by simp
  qed
  finally show ?thesis by simp
qed

lemma index_template_dotted:
  "i < 256 \<Longrightarrow>
   show_nat (unat a) @ ''.'' @ show_nat (unat b) @ ''.'' @ show_nat i @ ''.0/'' @ show_nat n =
   dotted [a, b, word_of_nat i, 0] @ CHR ''/'' # show_nat n"
proof -
  have "show_nat 0 = ''0''" by code_simp
  then show "i < 256 \<Longrightarrow> ?thesis" by (simp add: dotted_def unat_of_nat)
qed

lemma index_subnet:
  assumes template: "dc_local_subnet d = index_template a b n" "n \<le> 32" "dc_index d = int i" "i < 256"
    and valid: "parse_and_validate pg d = Inr v"
  shows "vc_local_subnet v = \<lparr>net_ip = ipv4_16 [a, b, word_of_nat i, 0], net_mask = cidr_mask n 32\<rparr>"
proof -
  have "interpolated_subnet d = dotted [a, b, word_of_nat i, 0] @ CHR ''/'' # show_nat n"
    unfolding index_template_dotted [OF template(4), symmetric]
    using template replace_index_template [of a b n i] by (simp add: interpolated_subnet_def show_int_nonneg)
  then have "parse_cidr (interpolated_subnet d) =
      Inr (ipv4_16 [a, b, word_of_nat i, 0],
        \<lparr>net_ip = ip_apply_mask (ipv4_16 [a, b, word_of_nat i, 0]) (cidr_mask n 32), net_mask = cidr_mask n 32\<rparr>)"
    using parse_cidr_dotted [of "[a, b, word_of_nat i, 0]" n] template(2) by simp
  with valid show ?thesis
    by (auto simp: parse_and_validate_def Let_def split: sum.splits option.splits if_splits prod.splits)
qed

lemma index_subnet_contains:
  assumes "n \<le> 32" "length x = 4" "i < 256"
  shows "net_contains \<lparr>net_ip = ipv4_16 [a, b, word_of_nat i, 0], net_mask = cidr_mask n 32\<rparr> x \<longleftrightarrow>
    set_bytes x div 2 ^ (32 - n) = ((unat a * 256 + unat b) * 256 + i) * 256 div 2 ^ (32 - n)"
proof -
  have "set_bytes [a, b, word_of_nat i, 0] = ((unat a * 256 + unat b) * 256 + i) * 256"
    using assms(3) by (simp add: set_bytes_def unat_of_nat)
  with assms show ?thesis
    by (simp add: net_contains_prefix)
qed

text \<open>
  C36: Daemons whose configurations differ in the index only, with a subnet \<open>a.b.${index}.0/n\<close>, lease
  from disjoint subnets if the prefix is of 24 bits or more, and from the same subnet if it is of 16
  or less.
\<close>

theorem index_selects_subnet:
  assumes "dc_local_subnet d = index_template a b n" "n \<le> 32" "i < 256" "j < 256" "i \<noteq> j" "length x = 4"
    and "parse_and_validate pg (d\<lparr>dc_index := int i\<rparr>) = Inr v" "parse_and_validate pg (d\<lparr>dc_index := int j\<rparr>) = Inr w"
  shows "(24 \<le> n \<longrightarrow> \<not> (net_contains (vc_local_subnet v) x \<and> net_contains (vc_local_subnet w) x)) \<and>
    (n \<le> 16 \<longrightarrow> net_contains (vc_local_subnet v) x = net_contains (vc_local_subnet w) x)"
proof -
  let ?p = "(unat a * 256 + unat b) * 256"
  have sub: "vc_local_subnet v = \<lparr>net_ip = ipv4_16 [a, b, word_of_nat i, 0], net_mask = cidr_mask n 32\<rparr>"
    "vc_local_subnet w = \<lparr>net_ip = ipv4_16 [a, b, word_of_nat j, 0], net_mask = cidr_mask n 32\<rparr>"
    using assms index_subnet [of "d\<lparr>dc_index := int i\<rparr>" a b n i pg v]
      index_subnet [of "d\<lparr>dc_index := int j\<rparr>" a b n j pg w] by simp_all
  have "(?p + i) * 256 div 2 ^ (32 - n) \<noteq> (?p + j) * 256 div 2 ^ (32 - n)" if "24 \<le> n"
  proof -
    have "(256 :: nat) = 2 ^ (n - 24) * 2 ^ (32 - n)"
      using that assms(2) by (simp flip: power_add)
    then have "(?p + k) * 256 = (?p + k) * 2 ^ (n - 24) * 2 ^ (32 - n)" for k
      by (simp only: mult.assoc)
    then have "(?p + k) * 256 div 2 ^ (32 - n) = (?p + k) * 2 ^ (n - 24)" for k
      by (simp only: nonzero_mult_div_cancel_right [OF power_not_zero [OF zero_neq_numeral [symmetric]]])
    with assms(5) show ?thesis by simp
  qed
  moreover have "(?p + i) * 256 div 2 ^ (32 - n) = (?p + j) * 256 div 2 ^ (32 - n)" if "n \<le> 16"
  proof -
    have split: "32 - n = 16 + (16 - n)" using that by arith
    have "(2 :: nat) ^ (32 - n) = 65536 * 2 ^ (16 - n)" unfolding split power_add by simp
    moreover have "(?p + k) * 256 div 65536 = unat a * 256 + unat b" if "k < 256" for k
      using that by simp
    ultimately show ?thesis using assms(3,4) by (simp add: div_mult2_eq)
  qed
  ultimately show ?thesis
    using assms(2-6) by (auto simp: sub index_subnet_contains)
qed

definition demo_daemon_config :: "unit daemon_config" where
  "demo_daemon_config =
     \<lparr>dc_listen_host = ''0.0.0.0'', dc_listen_port = 4001, dc_local_subnet = ''10.255.${index}.0/24'',
      dc_overlay_network = ''10.255.0.0/16'', dc_sandbox_dir = ''/sb'', dc_database = (), dc_index = 0,
      dc_host_address = ''10.0.0.5'', dc_overlay_dns_address = ''10.255.255.254'',
      dc_external_dns_server = ''8.8.8.8'', dc_suffix = ''potato'', dc_debug_address = []\<rparr>"

definition demo_database_url :: "unit \<Rightarrow> goerror + string" where
  "demo_database_url d = Inr ''postgres://localhost''"

lemma demo_config_valid:
  "i < 2 \<Longrightarrow> \<exists>v. parse_and_validate demo_database_url (demo_daemon_config\<lparr>dc_index := int i\<rparr>) = Inr v"
proof -
  have "\<not> isl (parse_and_validate demo_database_url (demo_daemon_config\<lparr>dc_index := 0\<rparr>))"
    "\<not> isl (parse_and_validate demo_database_url (demo_daemon_config\<lparr>dc_index := 1\<rparr>))"
    by code_simp+
  moreover assume "i < 2"
  then have "i = 0 \<or> i = 1" by auto
  ultimately show ?thesis by (auto simp: isl_def) (meson sum.exhaust)+
qed

lemma index_selects_subnet_witness:
  "\<exists>v w. parse_and_validate demo_database_url (demo_daemon_config\<lparr>dc_index := int 0\<rparr>) = Inr v \<and>
     parse_and_validate demo_database_url (demo_daemon_config\<lparr>dc_index := int 1\<rparr>) = Inr w \<and>
     \<not> (net_contains (vc_local_subnet v) [10, 255, 1, 7] \<and> net_contains (vc_local_subnet w) [10, 255, 1, 7])"
proof -
  obtain v w where v: "parse_and_validate demo_database_url (demo_daemon_config\<lparr>dc_index := int 0\<rparr>) = Inr v"
    and w: "parse_and_validate demo_database_url (demo_daemon_config\<lparr>dc_index := int 1\<rparr>) = Inr w"
    using demo_config_valid [of 0] demo_config_valid [of 1] by auto
  have "dc_local_subnet demo_daemon_config = index_template 10 255 24" by code_simp
  from index_selects_subnet [OF this _ _ _ _ _ v w, of "[10, 255, 1, 7]"] v w show ?thesis by auto
qed

section \<open>Validated configurations\<close>

text \<open>
  C35: A configuration that is accepted is usable: no required field is empty, the DNS address is in
  the overlay network, the host address is an address and not zero, and the local subnet has the
  mask of a prefix of its address family, as the allocator needs it.
\<close>

theorem validated_config_is_usable:
  assumes valid: "parse_and_validate pg d = Inr v"
  shows "missing_field d = None \<and>
    net_contains (vc_overlay_network v) (vc_overlay_dns_address v) \<and>
    vc_host_address v \<noteq> [] \<and> \<not> is_unspecified (vc_host_address v) \<and> vc_external_dns_server v \<noteq> [] \<and>
    (\<exists>ones bits. net_mask (vc_local_subnet v) = cidr_mask ones bits \<and> ones \<le> bits \<and>
       (bits = 32 \<and> length (to4 (net_ip (vc_local_subnet v))) = 4 \<or> bits = 128))"
proof -
  obtain a n o' overlay where cidr: "parse_cidr (interpolated_subnet d) = Inr (a, n)"
    "vc_local_subnet v = \<lparr>net_ip = a, net_mask = net_mask n\<rparr>"
    and rest: "missing_field d = None" "net_contains (vc_overlay_network v) (vc_overlay_dns_address v)"
      "vc_host_address v \<noteq> []" "\<not> is_unspecified (vc_host_address v)" "vc_external_dns_server v \<noteq> []"
    using valid by (auto simp: parse_and_validate_def Let_def split: sum.splits option.splits if_splits prod.splits)
  from parse_cidr_mask [OF cidr(1)] cidr(2) rest show ?thesis by auto
qed

lemma validated_config_is_usable_witness:
  "\<exists>v. net_contains (vc_overlay_network v) (vc_overlay_dns_address v) \<and>
     parse_and_validate demo_database_url (demo_daemon_config\<lparr>dc_index := int 1\<rparr>) = Inr v"
proof -
  obtain v where "parse_and_validate demo_database_url (demo_daemon_config\<lparr>dc_index := int 1\<rparr>) = Inr v"
    using demo_config_valid [of 1] by auto
  with validated_config_is_usable [OF this] show ?thesis by blast
qed

end
