(* ===== verification/Startup_Props.thy ===== *)
theory Startup_Props
  imports Startup Handlers_Props Config_Props
begin

text \<open>
  Properties of the daemon as \<open>main.go\<close> wires it: the monitors after a restart, the leases after a
  restart, and the client and the daemon put together.
\<close>

section \<open>Names\<close>

text \<open>
  C38: The reloader recovers the device name: for a namespace file of a sandbox directory it derives
  the name of the VXLAN device that the creator has made in that sandbox.  It rejects a bare name
  without the prefix, but never a file in a directory: for any other name there it derives a device
  name as well.
\<close>

theorem reloader_recovers_device_name:
  assumes "name \<noteq> []" "CHR ''/'' \<notin> set name"
  shows "get_vxlan_name (dir @ CHR ''/'' # sandbox_name v) = Inr (vxlan_name v) \<and>
    get_vxlan_name (dir @ CHR ''/'' # name) = Inr (''vxlan'' @ trim_prefix name ''vni-'') \<and>
    (\<not> has_prefix name ''vni-'' \<longrightarrow> get_vxlan_name name = Inl (Errorf ''not a valid sandbox name''))"
proof -
  have general: "get_vxlan_name (dir @ CHR ''/'' # n) = Inr (''vxlan'' @ trim_prefix n ''vni-'')"
    if "n \<noteq> []" "CHR ''/'' \<notin> set n" for n
  proof -
    have "length (trim_prefix n ''vni-'') < length (dir @ CHR ''/'' # n)"
      using length_trim_prefix [of n "''vni-''"] by simp
    then have "trim_prefix n ''vni-'' \<noteq> dir @ CHR ''/'' # n" by auto
    then show ?thesis
      using path_base_dir [OF that, of dir] by (simp add: get_vxlan_name_def Let_def)
  qed
  have "CHR ''/'' \<notin> set (show_int v)"
    by (auto simp: show_int_def is_digit_def dest: not_in_show_nat [THEN notE, rotated])
  then have "sandbox_name v \<noteq> []" "CHR ''/'' \<notin> set (sandbox_name v)"
    by (simp_all add: sandbox_name_def)
  moreover have "trim_prefix (sandbox_name v) ''vni-'' = show_int v"
    using trim_prefix_append [of "''vni-''" "show_int v"] by (simp add: sandbox_name_def)
  ultimately show ?thesis
    using general [of "sandbox_name v"] general [OF assms] path_base_no_slash [OF assms]
    by (simp add: vxlan_name_def get_vxlan_name_def trim_prefix_def [of name])
qed

lemma reloader_recovers_device_name_witness:
  "get_vxlan_name ''/sb/core'' = Inr ''vxlancore'' \<and> get_vxlan_name ''/sb/vni-7'' = Inr ''vxlan7'' \<and>
   get_vxlan_name ''core'' = Inl (Errorf ''not a valid sandbox name'')"
proof -
  have "vxlan_name 7 = ''vxlan7''" "sandbox_name 7 = ''vni-7''" "trim_prefix ''core'' ''vni-'' = ''core''"
    "\<not> has_prefix ''core'' ''vni-''"
    by code_simp+
  then show ?thesis
    using reloader_recovers_device_name [of "''core''" "''/sb''" 7] by simp
qed

section \<open>Restarting the monitors\<close>

lemma reloader_callback_keeps:
  assumes "\<And>s k. P (s\<lparr>kernel := k\<rparr>) = P s" "\<And>s l. P (s\<lparr>inserters := l\<rparr>) = P s"
    "\<And>s l. P (s\<lparr>subscriptions := l\<rparr>) = P s" "keeps P (new_done_chan ns)"
  shows "keeps P (reloader_callback os ns)"
  unfolding reloader_callback_def
  by (intro keeps_intros start_monitor_keeps assms)

lemma reloader_callback_monitors:
  assumes "reloader_callback os ns s = (r, t)" "get_vxlan_name (file_name ns) = Inr vxlan"
  shows "done_chans t (file_name ns) \<noteq> None"
proof -
  have "done_chans (snd (start_monitor os ns vxlan s)) (file_name ns) \<noteq> None"
    by (rule start_monitor_after) (simp_all add: new_done_chan_def)
  with assms show ?thesis
    by (auto simp: reloader_callback_def bind_wrap_def attempt_def pick_def fail_def ret_def
        split: prod.splits outcome.splits)
qed

text \<open>A callback neither changes a sandbox nor forgets a monitor.\<close>

lemma reloader_callback_frame:
  fixes s t :: "('k, 'z) sandbox_world_scheme"
  assumes "reloader_callback os ns s = (r, t)"
  shows "sandboxes t = sandboxes s" "objects t = objects s" "dom (done_chans s) \<subseteq> dom (done_chans t)"
proof -
  let ?P = "\<lambda>u :: ('k, 'z) sandbox_world_scheme. sandboxes u = sandboxes s \<and> objects u = objects s \<and>
    dom (done_chans s) \<subseteq> dom (done_chans u)"
  have "keeps ?P (reloader_callback os ns)"
  proof (rule reloader_callback_keeps)
    show "keeps ?P (new_done_chan ns)"
      by (rule keepsI) (auto simp: new_done_chan_def)
  qed simp_all
  from keepsD [OF this _ assms] have "?P t" by simp
  then show "sandboxes t = sandboxes s" "objects t = objects s" "dom (done_chans s) \<subseteq> dom (done_chans t)"
    by simp_all
qed

lemma for_each_monitors:
  fixes s t :: "('k, 'z) sandbox_world_scheme"
  assumes "for_each_sandbox (reloader_callback os) ns s = (Ok u, t)"
  shows "sandboxes t = sandboxes s \<and> objects t = objects s \<and> dom (done_chans s) \<subseteq> dom (done_chans t) \<and>
    (\<forall>n \<in> set ns. \<forall>r. sandboxes s n = Some r \<longrightarrow> file_name (sb_namespace (the_sandbox r s)) \<in> dom (done_chans t))"
  using assms
proof (induction ns arbitrary: s)
  case (Cons n ns)
  show ?case
  proof (cases "sandboxes s n")
    case None
    with Cons show ?thesis by (auto simp: bind_err_eval(1) gets_def)
  next
    case (Some r)
    let ?file = "sb_namespace (the_sandbox r s)"
    obtain x v where cb: "reloader_callback os ?file s = (Ok x, v)"
      and rest: "for_each_sandbox (reloader_callback os) ns v = (Ok u, t)"
      using Cons.prems Some
      by (auto simp: bind_err_eval(1) gets_def sandbox_namespace_def elim!: bind_wrap_OkE)
    note frame = reloader_callback_frame [OF cb]
    have "file_name ?file \<in> dom (done_chans v)"
    proof (cases "get_vxlan_name (file_name ?file)")
      case (Inl e)
      with cb show ?thesis by (simp add: reloader_callback_def bind_wrap_def attempt_def pick_def fail_def)
    next
      case (Inr vxlan)
      from reloader_callback_monitors [OF cb this] show ?thesis by auto
    qed
    with Cons.IH [OF rest] frame Some show ?thesis
      by (auto simp: the_sandbox_def dest: subsetD)
  qed
qed (simp add: ret_def)

text \<open>
  C27: After a restart that succeeds, every sandbox of the repository is watched: in whatever order Go
  visits the keys of the map, each registered sandbox has a monitor under the name of its namespace
  file.
\<close>

theorem restart_watches_every_sandbox:
  fixes s t :: "('k, 'z) sandbox_world_scheme"
  assumes order: "dom (sandboxes t) \<subseteq> set order"
    and restart: "restart_monitors os order dir s = (Ok (), t)"
  shows "\<forall>n r. sandboxes t n = Some r \<longrightarrow> done_chans t (file_name (sb_namespace (the_sandbox r t))) \<noteq> None"
proof -
  obtain u v where "sandboxes_for_each (reloader_callback os) order u = (Ok v, t)"
    using restart by (auto simp: restart_monitors_def ret_def elim!: bind_wrap_OkE)
  then obtain w where w: "for_each_sandbox (reloader_callback os) order (u\<lparr>repo_locked := True\<rparr>) = (Ok v, w)"
    "t = w\<lparr>repo_locked := False\<rparr>"
    by (auto simp: sandboxes_for_each_def with_repo_lock_def deferring_def deadlock_def split: if_splits prod.splits)
  note all = for_each_monitors [OF w(1)]
  show ?thesis
  proof (intro allI impI)
    fix n r assume n: "sandboxes t n = Some r"
    with all w(2) have "sandboxes u n = Some r" by simp
    moreover from n order have "n \<in> set order" by blast
    ultimately show "done_chans t (file_name (sb_namespace (the_sandbox r t))) \<noteq> None"
      using all w(2) by (auto simp: the_sandbox_def)
  qed
qed

text \<open>A restart registers nothing but the files of the directory.\<close>

lemma load_files_names:
  fixes P :: "('k, 'z) sandbox_world_scheme \<Rightarrow> bool" and D :: "string set"
  defines "P \<equiv> \<lambda>s. dom (sandboxes s) \<subseteq> D"
  assumes "path_base ` (set ps - {dir}) \<subseteq> D"
  shows "keeps P (load_files os root dir ps)"
  using assms(2)
proof (induction ps)
  case (Cons p ps)
  then have D: "p \<noteq> dir \<Longrightarrow> path_base p \<in> D" "path_base ` (set ps - {dir}) \<subseteq> D" by auto
  have "keeps P (repo_get os root name)" for name
    by (rule keeps_system) (simp_all add: system_intros P_def)
  moreover have "keeps P (sandbox_new ns)" for ns
    by (simp add: keeps_def sandbox_new_def P_def)
  moreover have "keeps P (modify (\<lambda>s. s\<lparr>sandboxes := (sandboxes s)(path_base p \<mapsto> r)\<rparr>))" if "p \<noteq> dir" for r
    using D(1) [OF that] by (intro keeps_modify) (simp add: P_def insert_absorb2)
  ultimately show ?case
    unfolding load_files.simps using Cons.IH [OF D(2)] by (intro keeps_intros) auto
qed (simp add: keeps_intros)

lemma restart_names:
  fixes s t :: "('k, 'z) sandbox_world_scheme"
  assumes "restart_monitors os order dir s = (r, t)" "dom (sandboxes s) \<subseteq> D"
    "path_base ` (set (os_walk os dir (kernel s)) - {dir}) \<subseteq> D"
  shows "dom (sandboxes t) \<subseteq> D"
proof -
  let ?P = "\<lambda>s :: ('k, 'z) sandbox_world_scheme. dom (sandboxes s) \<subseteq> D"
  obtain q u where load: "sandboxes_load os dir dir s = (q, u)" by fastforce
  have u: "?P u"
  proof (cases "repo_locked s")
    case False
    let ?s = "s\<lparr>repo_locked := True\<rparr>"
    have "?P (snd (load_files os dir dir (os_walk os dir (kernel s)) ?s))"
      using assms(2) by (simp add: load_files_names [OF assms(3), unfolded keeps_def, rule_format])
    with load False show ?thesis
      by (auto simp: sandboxes_load_def with_repo_lock_def deferring_def split: prod.splits if_splits)
  qed (use load assms(2) in \<open>simp add: sandboxes_load_def with_repo_lock_def deadlock_def\<close>)
  have "keeps ?P (reloader_callback os ns)" for ns
    by (rule reloader_callback_keeps) (simp_all add: keeps_def new_done_chan_def)
  then have each: "keeps ?P (for_each_sandbox (reloader_callback os) ns)" for ns
    by (induction ns) (auto intro!: keeps_intros simp: sandbox_namespace_def split: option.split)
  have "keeps ?P (sandboxes_for_each (reloader_callback os) order)"
  proof (rule keepsI)
    fix v :: "('k, 'z) sandbox_world_scheme"
    assume "?P v"
    with each have "?P (snd (for_each_sandbox (reloader_callback os) order (v\<lparr>repo_locked := True\<rparr>)))"
      by (simp add: keeps_def)
    with \<open>?P v\<close> show "?P (snd (sandboxes_for_each (reloader_callback os) order v))"
      by (auto simp: sandboxes_for_each_def with_repo_lock_def deferring_def deadlock_def split: prod.splits)
  qed
  with u load assms(1) show ?thesis
    by (cases q) (auto simp: restart_monitors_def bind_wrap_def attempt_def fail_def ret_def keeps_def
        split: prod.splits outcome.splits dest!: spec [of _ u])
qed

definition stopped_kernel :: sim where
  "stopped_kernel = (sim_init [(''/sb/vni-7'', 11)] [])\<lparr>sim_links := [(11, OtherLink (attrs ''vxlan7'' 0))]\<rparr>"

lemma restart_watches_every_sandbox_witness:
  "done_chans (snd (restart_monitors sim_os [''vni-7''] ''/sb'' (daemon_init stopped_kernel))) ''/sb/vni-7'' \<noteq> None"
proof -
  let ?t = "snd (restart_monitors sim_os [''vni-7''] ''/sb'' (daemon_init stopped_kernel))"
  have "fst (restart_monitors sim_os [''vni-7''] ''/sb'' (daemon_init stopped_kernel)) = Ok ()"
    "sandboxes ?t ''vni-7'' = Some 0" "file_name (sb_namespace (the_sandbox 0 ?t)) = ''/sb/vni-7''"
    by code_simp+
  moreover have "dom (sandboxes ?t) \<subseteq> set [''vni-7'']"
  proof (rule restart_names [OF prod.collapse [symmetric]])
    have "os_walk sim_os ''/sb'' stopped_kernel = [''/sb'', ''/sb/vni-7'']" "path_base ''/sb/vni-7'' = ''vni-7''"
      by code_simp+
    then show "path_base ` (set (os_walk sim_os ''/sb'' (kernel (daemon_init stopped_kernel))) - {''/sb''}) \<subseteq> set [''vni-7'']"
      by (simp add: daemon_init_def)
  qed (simp add: daemon_init_def)
  ultimately show ?thesis
    using restart_watches_every_sandbox [of ?t "[''vni-7'']" sim_os "''/sb''" "daemon_init stopped_kernel"]
    by (metis prod.collapse)
qed

section \<open>Leases after a restart\<close>

text \<open>The address that an empty store gives away does not depend on who asks.\<close>

lemma first_address_same:
  "fst (reserve_loop mem_ops cfg c x new_store) = fst (reserve_loop mem_ops cfg d x new_store)"
proof (induction "mem_ops" cfg c x "new_store" rule: reserve_loop.induct)
  case (1 cfg c x)
  then show ?case
    by (subst (1 2) reserve_loop.simps) (simp add: mem_ops_def mem_reserve_def new_store_def)
qed

lemma first_config:
  "get_config (config_factory_create base) n new_allocator =
   (Ok base, new_allocator\<lparr>al_configs := [n \<mapsto> base]\<rparr>)"
  by (simp add: get_config_def config_factory_create_def new_allocator_def)

lemma first_store:
  "get_store store_factory_create n (new_allocator\<lparr>al_configs := m\<rparr>) =
   (Ok new_store, new_allocator\<lparr>al_configs := m, al_stores := [n \<mapsto> new_store]\<rparr>)"
  by (simp add: get_store_def store_factory_create_def new_allocator_def)

lemma first_lease:
  "fst (ducati_allocate base n c new_allocator) =
   (let start = net_ip (cfg_ip base);
        first = (if cfg_gateway base = [] then next_ip start else start);
        cfg = (if cfg_gateway base = [] then base\<lparr>cfg_gateway := first\<rparr> else base)
    in case fst (reserve_loop mem_ops cfg c first new_store) of
         Ok addr \<Rightarrow> Ok \<lparr>res_ip4 = Some \<lparr>cfg_ip = \<lparr>net_ip = addr, net_mask = net_mask (cfg_ip cfg)\<rparr>,
                         cfg_gateway = cfg_gateway cfg, cfg_routes = cfg_routes cfg\<rparr>\<rparr>
       | Err e \<Rightarrow> Err e | Abort x \<Rightarrow> Abort x)"
proof -
  have empty: "\<not> as_contains mem_ops c new_store"
    by (simp add: mem_contains_def new_store_def mem_ops_def)
  let ?start = "net_ip (cfg_ip base)"
  obtain r s where loop: "reserve_loop mem_ops base c ?start new_store = (r, s)" by fastforce
  obtain q t where loop': "reserve_loop mem_ops (base\<lparr>cfg_gateway := next_ip ?start\<rparr>) c (next_ip ?start) new_store = (q, t)"
    by fastforce
  show ?thesis
    unfolding ducati_allocate_def allocate_ip_def bind_err_def attempt_def first_config prod.case outcome.case first_store
    using empty loop loop'
    by (cases r; cases q; cases "cfg_gateway base = []") (simp_all add: Let_def)
qed

lemma first_lease_same:
  "fst (ducati_allocate base n c new_allocator) = fst (ducati_allocate base n d new_allocator)"
  unfolding first_lease Let_def using first_address_same by metis

lemma confined_main [confined_intros]:
  "confined (overlay_check conf)" "confined (store_new os)" "confined (new_repository os dir)" "confined (open_path os path)"
  by (simp_all add: overlay_check_def new_repository_def confined_intros)

lemma confined_load_files: "confined (load_files os root dir ps)"
proof (induction ps)
  case (Cons p ps)
  then show ?case
    unfolding load_files.simps by (intro confined_if confined_intros)
qed (simp add: confined_intros)

lemma confined_for_each: "(\<And>f. confined (callback f)) \<Longrightarrow> confined (for_each_sandbox callback ns)"
  by (induction ns) (auto intro!: confined_intros split: option.split)

lemma confined_reloader_callback: "confined (reloader_callback os ns)"
  unfolding reloader_callback_def by (intro confined_intros)

lemma confined_sandboxes_for_each: "confined (sandboxes_for_each (reloader_callback os) names)"
  unfolding sandboxes_for_each_def
  by (intro confined_locks confined_for_each confined_reloader_callback)

lemma confined_restart [confined_intros]: "confined (restart_monitors os order dir)"
proof -
  have "confined (sandboxes_load os dir dir)"
    unfolding sandboxes_load_def
    by (rule confined_locks) (simp add: confined_def confined_load_files [unfolded confined_def, rule_format])
  then show ?thesis
    unfolding restart_monitors_def
    by (intro confined_bind confined_basic confined_sandboxes_for_each)
qed

lemma main_wires:
  assumes "main os connect order (Inr conf) s = (Ok S, t)"
  shows "ipam_state t = ipam_state s \<and> (\<exists>host. S = main_wiring os conf host)"
proof
  have "confined (main os connect order (Inr conf))"
    unfolding main_def by (intro confined_intros)
  from confinedD [OF this assms] show "ipam_state t = ipam_state s" .
  show "\<exists>host. S = main_wiring os conf host"
    using assms by (auto simp: main_def ret_def pick_def elim!: bind_wrap_OkE bind_err_OkE)
qed

text \<open>The first lease of a network is the lowest address of its pool.\<close>

lemma first_allocation:
  assumes "pool base = x # xs" "fst (ducati_allocate base n c new_allocator) = Ok r"
  shows "r = lease_of (set_gateway base) x"
proof -
  obtain b where b: "ducati_allocate base n c new_allocator = (Ok r, b)"
    using assms(2) by (metis prod.collapse)
  have run: "ipam_run base [] new_allocator = ([], new_allocator)" by simp
  have none: "holds new_allocator = (\<lambda>_ _. None)" by (simp add: holds_def new_allocator_def fun_eq_iff)
  have base: "sp_config (mem_alloc.abs_alloc base new_allocator) n = base"
    by (simp add: mem_alloc.abs_alloc_def new_allocator_def)
  show ?thesis
    using allocate_from_reached(1,3) [OF run b] assms(1) by (simp add: spec_allocate_def none base Let_def)
qed

text \<open>
  C28: A restart forgets the leases but not the records: whatever system the daemon is started on, and
  whatever the lives before it have recorded there, the first successful Add request leases the
  lowest address of the pool of the local subnet and records it, in whatever network, although the
  database may have another container of that network with the same address, as it does if in the
  life before a container got the first address and is still there.
\<close>

theorem restart_forgets_leases:
  fixes t u :: "'k daemon"
  assumes table: "sql_table os rows"
    and lowest: "pool (base_config conf) = x # xs"
    and recorded: "rows k i = Some c" "ctr_ip c = ip_string x"
    and restart: "main os connect order (Inr conf) (daemon_init k) = (Ok S, t)"
    and add: "cni_add S p t = (Ok r, u)" "network_of S p = ctr_network_id c"
  shows "r = lease_of (set_gateway (base_config conf)) x \<and>
    (\<exists>d. rows (kernel u) (ap_container_id p) = Some d \<and> ctr_network_id d = ctr_network_id c \<and> ctr_ip d = ctr_ip c)"
proof
  obtain h where S: "S = main_wiring os conf h" and fresh: "ipam_state t = new_allocator"
    using main_wires [OF restart] by (auto simp: daemon_init_def)
  have "fst (ducati_allocate (base_config conf) (network_of S p) (ap_container_id p) new_allocator) = Ok r"
    using cni_add_ok_allocated [OF add(1)] by (simp add: S fresh main_wiring_def)
  then show r: "r = lease_of (set_gateway (base_config conf)) x"
    by (rule first_allocation [OF lowest])
  obtain ip4 mac v where created: "res_ip4 r = Some ip4"
    "store_create (su_os S) (container_record (su_creator S)
       (creator_config_of p (network_of S p) (vni_of (network_of S p)) r) ip4 mac) v = (Ok (), u)"
    by (rule cni_add_ok [OF add(1)])
  have "su_os S = os" by (simp add: S main_wiring_def su_os_def main_env_def executor_new_def)
  with created(2) have "store_create os (container_record (su_creator S)
       (creator_config_of p (network_of S p) (vni_of (network_of S p)) r) ip4 mac) v = (Ok (), u)" by simp
  from sql_table.store_create_cases [OF table this] created(1) r recorded(2) add(2)
  show "\<exists>d. rows (kernel u) (ap_container_id p) = Some d \<and> ctr_network_id d = ctr_network_id c \<and> ctr_ip d = ctr_ip c"
    by (auto simp: container_record_def creator_config_of_def lease_of_def)
qed

text \<open>A daemon that is stopped after a request and started again.\<close>

definition demo_conf :: validated_config where
  "demo_conf =
     \<lparr>vc_listen_address = ''127.0.0.1:4001'', vc_overlay_network = \<lparr>net_ip = [192, 168, 0, 0], net_mask = cidr_mask 16 32\<rparr>,
      vc_local_subnet = \<lparr>net_ip = ipv4_16 [192, 168, 1, 0], net_mask = cidr_mask 29 32\<rparr>, vc_database_url = [],
      vc_sandbox_dir = ''/sb'', vc_host_address = ipv4_16 [10, 0, 0, 5],
      vc_overlay_dns_address = ipv4_16 [192, 168, 0, 1], vc_external_dns_server = ipv4_16 [8, 8, 8, 8], vc_suffix = ''potato'', vc_debug_address = []\<rparr>"

definition demo_main :: "string list \<Rightarrow> sim \<Rightarrow> sim wiring outcome \<times> sim daemon" where
  "demo_main order k = main sim_os (\<lambda>url k. (Inr (), k)) order (Inr demo_conf) (daemon_init k)"

definition demo_host :: go_file where
  "demo_host = \<lparr>file_name = ''/proc/self/ns/net'', file_fd = 0\<rparr>"

definition demo_second :: cni_add_payload where
  "demo_second = demo_add\<lparr>ap_container_id := ''c2'', ap_container_namespace := ''/c/ns2''\<rparr>"

definition demo_request :: "cni_add_payload \<Rightarrow> memory_store allocator \<Rightarrow> sim daemon \<Rightarrow> cni_result outcome \<times> sim daemon" where
  "demo_request p a t =
     bind_wrap ''container setup''
       (creator_setup (su_creator (main_wiring sim_os demo_conf demo_host)) (creator_config_of p ''default'' 14026101 demo_result))
       (\<lambda>c. bind_wrap ''datastore create'' (store_create (su_os (main_wiring sim_os demo_conf demo_host)) c) (\<lambda>_. ret demo_result))
     (t\<lparr>ipam_state := a\<rparr>)"

definition two_containers :: sim where
  "two_containers = sim_init [(''/c/ns1'', 11), (''/c/ns2'', 12)] []"

text \<open>The system after the first life of the daemon.\<close>

definition left_behind :: sim where
  "left_behind =
     \<lparr>sim_current = 0, sim_next = 104,
      sim_files = [(''/sb/vni-14026101'', 100), (''/c/ns1'', 11), (''/c/ns2'', 12)],
      sim_links =
       [(100, Bridge (attrs ''vxlanbr14026101'' 1500)),
        (11, sim_device (Veth (attrs ''eth0'' 1450) ''F4RHMXIESMNAPCI'')),
        (100, sim_device (Veth (attrs ''F4RHMXIESMNAPCI'' 1450) ''eth0'')),
        (100, Dummy (attrs ''dns0'' 0)),
        (100, Vxlan (attrs ''vxlan14026101'' 0)
           \<lparr>vx_id = 14026101, vx_learning = True, vx_port = 46354, vx_proxy = True, vx_l3miss = True, vx_l2miss = True\<rparr>),
        (100, OtherLink (attrs ''lo'' 0)), (11, OtherLink (attrs ''lo'' 0)), (12, OtherLink (attrs ''lo'' 0))],
      sim_table = [demo_record], sim_failing = []\<rparr>"

lemma demo_links:
  "name_sandbox_link (cc_container_id (creator_config_of demo_add n v r)) = ''F4RHMXIESMNAPCI''"
  "name_sandbox_link (cc_container_id (creator_config_of demo_second n v r)) = ''NMPVGMB2OMWMZDD''"
  using name_c1 name_c2 by (simp_all add: creator_config_of_def demo_add_def demo_second_def)

lemmas demo_request_unfold = demo_request_def creator_setup_def setup_in_sandbox_def demo_links

lemma demo_life_one:
  "case demo_main [] two_containers of (r, t) \<Rightarrow>
     map_outcome (\<lambda>S. cr_host_namespace (su_creator S)) r = Ok demo_host \<and>
     map_prod id kernel (demo_request demo_add a t) = (Ok demo_result, left_behind)"
  by (unfold demo_request_unfold) code_simp

lemma demo_life_two:
  "case demo_main [''vni-14026101''] left_behind of (r, t) \<Rightarrow>
     map_outcome (\<lambda>S. cr_host_namespace (su_creator S)) r = Ok demo_host \<and>
     fst (demo_request demo_second a t) = Ok demo_result"
  by (unfold demo_request_unfold) code_simp

lemma demo_first_life:
  "map_outcome (\<lambda>S. cr_host_namespace (su_creator S)) (fst (demo_main [] two_containers)) = Ok demo_host"
  "map_prod id kernel (demo_request demo_add a (snd (demo_main [] two_containers))) = (Ok demo_result, left_behind)"
  using demo_life_one [of a] by (simp_all add: case_prod_beta)

lemma demo_second_life:
  "map_outcome (\<lambda>S. cr_host_namespace (su_creator S)) (fst (demo_main [''vni-14026101''] left_behind)) = Ok demo_host"
  "fst (demo_request demo_second a (snd (demo_main [''vni-14026101''] left_behind))) = Ok demo_result"
  using demo_life_two [of a] by (simp_all add: case_prod_beta)

lemma demo_main_ok:
  assumes "map_outcome (\<lambda>S. cr_host_namespace (su_creator S)) (fst (demo_main order k)) = Ok demo_host"
  shows "demo_main order k = (Ok (main_wiring sim_os demo_conf demo_host), snd (demo_main order k))"
proof -
  obtain S where S: "fst (demo_main order k) = Ok S" "cr_host_namespace (su_creator S) = demo_host"
    using assms by (cases "fst (demo_main order k)") auto
  then have main: "demo_main order k = (Ok S, snd (demo_main order k))" by (metis prod.collapse)
  from main_wires [OF main [unfolded demo_main_def]] S(2) have "S = main_wiring sim_os demo_conf demo_host"
    by (auto simp: main_wiring_def)
  with main show ?thesis by simp
qed

lemma demo_request_eq:
  assumes "ipam_state t = new_allocator" "ap_network p = ap_network demo_add"
  shows "cni_add (main_wiring sim_os demo_conf demo_host) p t =
    demo_request p (snd (ducati_allocate lan ''default'' (ap_container_id p) new_allocator)) t"
proof -
  let ?S = "main_wiring sim_os demo_conf demo_host"
  have "base_config demo_conf = lan" by (simp add: base_config_def demo_conf_def lan_def)
  then have base: "su_base ?S = lan" by (simp add: main_wiring_def)
  have network: "network_of ?S p = ''default''"
    by (simp add: network_of_def assms(2) demo_add_def main_wiring_def)
  have "fst (ducati_allocate lan ''default'' (ap_container_id p) new_allocator) = Ok demo_result"
    using demo_allocates first_lease_same by metis
  then obtain a where "ducati_allocate lan ''default'' (ap_container_id p) new_allocator = (Ok demo_result, a)"
    by (metis prod.collapse)
  then show ?thesis
    unfolding cni_add_eval base network vni_of_default assms(1) demo_request_def by simp
qed

text \<open>The first life leases 192.168.1.2 to \<open>c1\<close>, the second one to \<open>c2\<close>.\<close>

lemma restart_forgets_leases_witness:
  "\<exists>t u t' u'. demo_main [] two_containers = (Ok (main_wiring sim_os demo_conf demo_host), t) \<and>
     cni_add (main_wiring sim_os demo_conf demo_host) demo_add t = (Ok demo_result, u) \<and>
     demo_main [''vni-14026101''] (kernel u) = (Ok (main_wiring sim_os demo_conf demo_host), t') \<and>
     cni_add (main_wiring sim_os demo_conf demo_host) demo_second t' = (Ok demo_result, u') \<and>
     (\<exists>c d. sim_row (sim_table (kernel u)) ''c1'' = Some c \<and> sim_row (sim_table (kernel u')) ''c2'' = Some d \<and>
        ctr_ip c = ''192.168.1.2'' \<and> ctr_ip d = ctr_ip c \<and> ctr_network_id d = ctr_network_id c)"
proof -
  let ?S = "main_wiring sim_os demo_conf demo_host"
  let ?alloc = "\<lambda>c. snd (ducati_allocate lan ''default'' c new_allocator)"
  obtain t where t: "demo_main [] two_containers = (Ok ?S, t)"
    using demo_main_ok [OF demo_first_life(1)] by blast
  obtain t' where t': "demo_main [''vni-14026101''] left_behind = (Ok ?S, t')"
    using demo_main_ok [OF demo_second_life(1)] by blast
  have fresh: "ipam_state t = new_allocator" "ipam_state t' = new_allocator"
    using main_wires [OF t [unfolded demo_main_def]] main_wires [OF t' [unfolded demo_main_def]]
    by (simp_all add: daemon_init_def)
  have second: "ap_network demo_second = ap_network demo_add" by (simp add: demo_second_def)
  have "map_prod id kernel (cni_add ?S demo_add t) = (Ok demo_result, left_behind)"
    using demo_first_life(2) [of "?alloc (ap_container_id demo_add)"] unfolding demo_request_eq [OF fresh(1) refl] t snd_conv .
  then obtain u where u: "cni_add ?S demo_add t = (Ok demo_result, u)" "kernel u = left_behind"
    by (cases "cni_add ?S demo_add t") auto
  obtain u' where u': "cni_add ?S demo_second t' = (Ok demo_result, u')"
    using demo_second_life(2) [of "?alloc (ap_container_id demo_second)"] demo_request_eq [OF fresh(2) second] t'
    by (metis prod.collapse snd_conv)
  have table: "sql_table sim_os sim_rows" using demo_table unfolding demo_os .
  have row: "sim_rows left_behind ''c1'' = Some demo_record"
    by (simp add: sim_rows_def sim_row_def left_behind_def demo_record_def)
  have "base_config demo_conf = lan" by (simp add: base_config_def demo_conf_def lan_def)
  moreover have "pool lan = [192, 168, 1, 2] # [[192, 168, 1, 3], [192, 168, 1, 4], [192, 168, 1, 5], [192, 168, 1, 6], [192, 168, 1, 7]]"
    by code_simp
  ultimately have lowest: "pool (base_config demo_conf) =
      [192, 168, 1, 2] # [[192, 168, 1, 3], [192, 168, 1, 4], [192, 168, 1, 5], [192, 168, 1, 6], [192, 168, 1, 7]]" by simp
  have string: "ip_string [192, 168, 1, 2] = ''192.168.1.2''" by code_simp
  have recorded: "ctr_ip demo_record = ip_string [192, 168, 1, 2]" "ctr_network_id demo_record = ''default''"
    unfolding string by (simp_all add: demo_record_def)
  have "network_of ?S demo_second = ctr_network_id demo_record"
    by (simp add: network_of_def second recorded(2) demo_add_def main_wiring_def)
  from restart_forgets_leases [OF table lowest row recorded(1) t' [unfolded demo_main_def] u' this]
  have "\<exists>d. sim_row (sim_table (kernel u')) ''c2'' = Some d \<and> ctr_ip d = ctr_ip demo_record \<and>
      ctr_network_id d = ctr_network_id demo_record"
    by (auto simp: demo_second_def sim_rows_def)
  with t t' u u' row show ?thesis
    by (auto simp: recorded(1) string sim_rows_def)
qed

end
