(* ===== verification/Client_Props.thy ===== *)
theory Client_Props
  imports Startup Handlers_Props
begin

text \<open>
  The client and the daemon put together: what a Go program that calls the client sees of the
  controllers and of the datastore behind the HTTP interface.
\<close>

section \<open>Paths of two elements\<close>

definition plain_element :: "string \<Rightarrow> bool" where
  "plain_element s \<longleftrightarrow> s \<noteq> [] \<and> CHR ''/'' \<notin> set s \<and> s \<noteq> ''.'' \<and> s \<noteq> ''..''"

lemma path_split_element: "CHR ''/'' \<notin> set s \<Longrightarrow> path_split s = [s]"
  by (induction s) auto

lemma path_split_slash: "CHR ''/'' \<notin> set s \<Longrightarrow> path_split (s @ CHR ''/'' # t) = s # path_split t"
  by (induction s) auto

lemma plain_no_prefix: "plain_element s \<Longrightarrow> \<not> has_prefix (s @ t) ''/''"
  by (cases s) (auto simp: plain_element_def has_prefix_def)

lemma path_clean_plain:
  assumes "plain_element s" "plain_element t"
  shows "path_clean (s @ CHR ''/'' # t) = s @ CHR ''/'' # t"
  using assms plain_no_prefix [OF assms(1), of "CHR ''/'' # t"]
  by (simp add: path_clean_def path_split_slash path_split_element plain_element_def Let_def)

lemma path_join_plain:
  assumes "plain_element s" "plain_element t"
  shows "path_join [s, t] = s @ CHR ''/'' # t" "path_join [s @ CHR ''/'' # t] = s @ CHR ''/'' # t"
  using path_clean_plain [OF assms] assms by (simp_all add: path_join_def plain_element_def)

definition well_formed_del :: "cni_del_payload \<Rightarrow> bool" where
  "well_formed_del p \<longleftrightarrow> dp_interface_name p \<noteq> [] \<and> dp_container_id p \<noteq> [] \<and> dp_container_namespace p \<noteq> []"

section \<open>A connection\<close>

text \<open>
  The connection carries a request to the router and the response back; a daemon that never answers
  leaves the call without a result.
\<close>

definition dial ::
  "'k wiring \<Rightarrow> codec \<Rightarrow> (string \<Rightarrow> string \<Rightarrow> (string \<times> string) option) \<Rightarrow> (string \<Rightarrow> string) \<Rightarrow>
   http_request \<Rightarrow> (('k, 'z) daemon_scheme, http_response) prog" where
  "dial S cd router url_path rq =
     bind_err (serve S cd router (rq_method rq) (url_path (rq_url rq)) (Inr (case rq_body rq of None \<Rightarrow> [] | Some b \<Rightarrow> b)))
       (\<lambda>resp. ret \<lparr>hr_status = status_of resp, hr_body = Inr (rs_body resp)\<rparr>)"

definition daemon_client ::
  "'k wiring \<Rightarrow> codec \<Rightarrow> (string \<Rightarrow> string \<Rightarrow> (string \<times> string) option) \<Rightarrow> (string \<Rightarrow> string) \<Rightarrow> base_url \<Rightarrow>
   ('k, 'z) daemon_scheme json_client" where
  "daemon_client S cd router url_path u = client_new (\<lambda>_. Inr u) (\<lambda>_ _. None) (dial S cd router url_path) []"

text \<open>
  What the packages in between promise: a base URL of a host only; \<open>net/url\<close> puts a slash after the
  host; \<open>rata\<close> matches the routes of the daemon, a parameter against one element of the path; and
  what one side marshals the other unmarshals, for a result up to what JSON keeps of it (\<open>norm\<close>).
\<close>

locale daemon_link =
  fixes S :: "'k wiring" and cd :: codec and ck :: client_codec and norm :: "cni_result \<Rightarrow> cni_result"
    and router :: "string \<Rightarrow> string \<Rightarrow> (string \<times> string) option" and url_path :: "string \<Rightarrow> string" and u :: base_url
  assumes host_only: "bu_path u = []"
    and url_path: "url_path (bu_show u p) = (if has_prefix p ''/'' then p else CHR ''/'' # p)"
    and route_add: "router ''POST'' ''/cni/add'' = Some (''cni_add'', [])"
    and route_del: "router ''POST'' ''/cni/del'' = Some (''cni_del'', [])"
    and route_list: "router ''GET'' ''/containers'' = Some (''list_containers'', [])"
    and route_get: "i \<noteq> [] \<Longrightarrow> CHR ''/'' \<notin> set i \<Longrightarrow> router ''GET'' (''/containers/'' @ i) = Some (''get_container'', i)"
    and route_network: "i \<noteq> [] \<Longrightarrow> CHR ''/'' \<notin> set i \<Longrightarrow>
      router ''GET'' (''/networks/'' @ i) = Some (''networks_list_containers'', i)"
    and result_body: "\<exists>b. cd_result cd r = Inr b \<and> ck_result ck b = Inr (norm r)"
    and container_body: "\<exists>b. cd_container cd c = Inr b \<and> ck_container ck b = Inr c"
    and containers_body: "\<exists>b. cd_containers cd cs = Inr b \<and> ck_containers ck b = Inr cs"
begin

lemma path_join_host: "path_join (bu_path u # es) = path_join es"
  by (simp add: path_join_def host_only)

text \<open>One exchange.\<close>

lemma exchange:
  assumes "path_join [cl_url config] = p" "q = (if has_prefix p ''/'' then p else CHR ''/'' # p)"
    and "router (cl_method config) q = Some (name, param)"
    and "cl_payload config = Some (Inr b) \<or> cl_payload config = None \<and> b = []"
  shows "build_and_do (daemon_client S cd router url_path u) config s =
    (case rata_handler S cd name param (Inr b) s of
       (Ok resp, t) \<Rightarrow> pick (read_response config \<lparr>hr_status = status_of resp, hr_body = Inr (rs_body resp)\<rparr>) t
     | (Err e, t) \<Rightarrow> (Err (wrapf ''failed to perform request'' e), t)
     | (Abort a, t) \<Rightarrow> (Abort a, t))"
  using assms
  by (auto simp: build_and_do_def daemon_client_def client_new_def build_url_def path_join_host url_path dial_def serve_def
      bind_wrap_def bind_err_def attempt_def pick_def fail_def ret_def split: prod.split outcome.split)

lemma add_handled:
  assumes "cd_add cd b = Inr p"
  shows "handle_cni_add S cd (Inr b) s =
    (if well_formed_add p then
       (case cni_add S p s of
          (Ok r, t) \<Rightarrow> (Ok \<lparr>rs_status = Some 201, rs_body = projr (cd_result cd r)\<rparr>, t)
        | (Err e, t) \<Rightarrow> (Ok (snd (marshal_error cd e (answer (add_error_status e)))), t)
        | (Abort a, t) \<Rightarrow> (Abort a, t))
     else (Ok (answer 400), s))"
proof -
  obtain q t where q: "cni_add S p s = (q, t)" by fastforce
  show ?thesis
  proof (cases q)
    case (Ok r)
    from result_body [of r] obtain body where "cd_result cd r = Inr body" by blast
    with assms q Ok show ?thesis
      by (simp add: handle_cni_add_def well_formed_add_def attempt_def ret_def)
  qed (use assms q in \<open>simp_all add: handle_cni_add_def well_formed_add_def attempt_def ret_def\<close>)
qed

lemma container_up_eq:
  assumes "ck_add ck p = Inr b" "cd_add cd b = Inr p"
  shows "container_up (daemon_client S cd router url_path u) ck p s =
    (if well_formed_add p then
       (case cni_add S p s of
          (Ok r, t) \<Rightarrow> (Ok (norm r), t)
        | (Err e, t) \<Rightarrow> (Err (if e \<in> {Sentinel AlreadyOnNetworkError, Sentinel NoMoreAddressesError} then e
             else Errorf ''unexpected status code on ContainerUp: expected 201 but got 500''), t)
        | (Abort a, t) \<Rightarrow> (Abort a, t))
     else (Err (Sentinel AlreadyOnNetworkError), s))"
proof -
  have path: "path_join [cl_url (up_config ck p)] = ''/cni/add''"
    unfolding up_config_def by code_simp
  have unexpected: "check_status ''ContainerUp'' 500 201 = Some (Errorf ''unexpected status code on ContainerUp: expected 201 but got 500'')"
    by code_simp
  have config: "cl_method (up_config ck p) = ''POST''" "cl_payload (up_config ck p) = Some (Inr b)"
    by (simp_all add: up_config_def assms)
  have read: "read_response (up_config ck p) \<lparr>hr_status = 201, hr_body = Inr (projr (cd_result cd r))\<rparr> = Inr (Some (norm r))"
    "read_response (up_config ck p) \<lparr>hr_status = add_error_status e, hr_body = x\<rparr> =
       Inl (if e \<in> {Sentinel AlreadyOnNetworkError, Sentinel NoMoreAddressesError} then e
            else Errorf ''unexpected status code on ContainerUp: expected 201 but got 500'')"
    "read_response (up_config ck p) \<lparr>hr_status = 400, hr_body = x\<rparr> = Inl (Sentinel AlreadyOnNetworkError)" for r e x
    using result_body [of r]
    by (auto simp: read_response_def up_config_def unmarshal_response_def unexpected add_error_status_def)
  have route: "router (cl_method (up_config ck p)) (if has_prefix ''/cni/add'' ''/'' then ''/cni/add'' else CHR ''/'' # ''/cni/add'') =
      Some (''cni_add'', [])"
    using route_add by (simp add: config has_prefix_def)
  have handler: "rata_handler S cd ''cni_add'' [] (Inr b) s = handle_cni_add S cd (Inr b) s" for s
    by (simp add: rata_handler_def)
  note ex = exchange [OF path refl route disjI1 [OF config(2)], of s, unfolded handler add_handled [OF assms(2)]]
  obtain q t where q: "cni_add S p s = (q, t)" by fastforce
  show ?thesis
  proof (cases "well_formed_add p")
    case True
    then show ?thesis
      using ex q by (cases q) (simp_all add: container_up_def result_of_def bind_err_def attempt_def read pick_def ret_def fail_def)
  next
    case False
    then show ?thesis
      using ex by (simp add: container_up_def result_of_def bind_err_def attempt_def read pick_def fail_def)
  qed
qed

lemma del_handled:
  assumes "cd_del cd b = Inr p"
  shows "handle_cni_del S cd (Inr b) s =
    (if well_formed_del p then
       (case cni_del S p s of
          (Ok x, t) \<Rightarrow> (Ok (answer 204), t)
        | (Err e, t) \<Rightarrow> (Ok (snd (marshal_error cd e (answer 500))), t)
        | (Abort a, t) \<Rightarrow> (Abort a, t))
     else (Ok (answer 400), s))"
proof -
  obtain q t where q: "cni_del S p s = (q, t)" by fastforce
  with assms show ?thesis
    by (cases q) (simp_all add: handle_cni_del_def well_formed_del_def attempt_def ret_def)
qed

lemma container_down_eq:
  assumes "ck_del ck p = Inr b" "cd_del cd b = Inr p"
  shows "container_down (daemon_client S cd router url_path u) ck p s =
    (if well_formed_del p then
       (case cni_del S p s of
          (Ok x, t) \<Rightarrow> (Ok (), t)
        | (Err e, t) \<Rightarrow> (Err (Errorf ''unexpected status code on ContainerDown: expected 204 but got 500''), t)
        | (Abort a, t) \<Rightarrow> (Abort a, t))
     else (Err (Errorf ''unexpected status code on ContainerDown: expected 204 but got 400''), s))"
proof -
  let ?c = "\<lparr>cl_action = ''ContainerDown'', cl_method = ''POST'', cl_url = ''/cni/del'',
        cl_payload = Some (ck_del ck p), cl_result = None, cl_success = 204, cl_errors = Map.empty\<rparr> :: unit client_config"
  have path: "path_join [cl_url ?c] = ''/cni/del''"
    unfolding client_config.simps by code_simp
  have unexpected: "check_status ''ContainerDown'' 500 204 = Some (Errorf ''unexpected status code on ContainerDown: expected 204 but got 500'')"
    "check_status ''ContainerDown'' 400 204 = Some (Errorf ''unexpected status code on ContainerDown: expected 204 but got 400'')"
    by code_simp+
  have config: "cl_payload ?c = Some (Inr b)" by (simp add: assms)
  have route: "router (cl_method ?c) (if has_prefix ''/cni/del'' ''/'' then ''/cni/del'' else CHR ''/'' # ''/cni/del'') =
      Some (''cni_del'', [])"
    using route_del by (simp add: has_prefix_def)
  have handler: "rata_handler S cd ''cni_del'' [] (Inr b) s = handle_cni_del S cd (Inr b) s" for s
    by (simp add: rata_handler_def)
  note ex = exchange [OF path refl route disjI1 [OF config], of s, unfolded handler del_handled [OF assms(2)]]
  have read: "read_response ?c \<lparr>hr_status = 204, hr_body = x\<rparr> = Inr None"
    "read_response ?c \<lparr>hr_status = 500, hr_body = x\<rparr> = Inl (Errorf ''unexpected status code on ContainerDown: expected 204 but got 500'')"
    "read_response ?c \<lparr>hr_status = 400, hr_body = x\<rparr> = Inl (Errorf ''unexpected status code on ContainerDown: expected 204 but got 400'')" for x
    by (simp_all add: read_response_def unexpected)
  obtain q t where q: "cni_del S p s = (q, t)" by fastforce
  show ?thesis
  proof (cases "well_formed_del p")
    case True
    then show ?thesis
      unfolding container_down_def bind_err_def attempt_def ex q
      by (cases q) (simp_all add: read pick_def ret_def fail_def)
  next
    case False
    then show ?thesis
      unfolding container_down_def bind_err_def attempt_def ex by (simp add: read pick_def fail_def)
  qed
qed

text \<open>Reading: a plain id takes the client to the handler of that id.\<close>

lemma get_container_eq:
  assumes "plain_element i"
  shows "client_get_container (daemon_client S cd router url_path u) ck i s =
    (case store_get (su_os S) i s of
       (Ok c, t) \<Rightarrow> (Ok c, t)
     | (Err e, t) \<Rightarrow> (Err (if e = Sentinel RecordNotFoundError then Sentinel ClientRecordNotFoundError
          else Errorf ''unexpected status code on GetContainer: expected 200 but got 500''), t)
     | (Abort a, t) \<Rightarrow> (Abort a, t))"
proof -
  have containers: "plain_element ''containers''" by (simp add: plain_element_def)
  let ?c = "get_config_of ck i"
  have path: "path_join [cl_url ?c] = ''containers/'' @ i"
    using path_join_plain [OF containers assms] by (simp add: get_config_of_def)
  have unexpected: "check_status ''GetContainer'' 500 200 = Some (Errorf ''unexpected status code on GetContainer: expected 200 but got 500'')"
    by code_simp
  have route: "router (cl_method ?c) (if has_prefix (''containers/'' @ i) ''/'' then ''containers/'' @ i else CHR ''/'' # ''containers/'' @ i) =
      Some (''get_container'', i)"
    using route_get [of i] assms by (simp add: has_prefix_def get_config_of_def plain_element_def)
  have handler: "rata_handler S cd ''get_container'' i x s = handle_get_container (su_os S) cd i s" for x s
    by (simp add: rata_handler_def)
  have config: "cl_payload ?c = None" by (simp add: get_config_of_def)
  note ex = exchange [OF path refl route disjI2 [OF conjI [OF config refl]], of s, unfolded handler]
  have read: "read_response ?c \<lparr>hr_status = 200, hr_body = Inr (projr (cd_container cd c))\<rparr> = Inr (Some c)"
    "read_response ?c \<lparr>hr_status = 404, hr_body = x\<rparr> = Inl (Sentinel ClientRecordNotFoundError)"
    "read_response ?c \<lparr>hr_status = 500, hr_body = x\<rparr> =
       Inl (Errorf ''unexpected status code on GetContainer: expected 200 but got 500'')" for c x
    using container_body [of c] by (auto simp: read_response_def get_config_of_def unmarshal_response_def unexpected)
  obtain q t where q: "store_get (su_os S) i s = (q, t)" by fastforce
  show ?thesis
  proof (cases q)
    case (Ok c)
    obtain b where b: "cd_container cd c = Inr b" using container_body by blast
    from read(1) [of c] b Ok q show ?thesis
      unfolding client_get_container_def result_of_def bind_err_def attempt_def ex
      by (simp add: handle_get_container_def attempt_def pick_def ret_def)
  qed (use q in \<open>simp_all add: client_get_container_def result_of_def bind_err_def attempt_def ex
      handle_get_container_def pick_def ret_def fail_def read\<close>)
qed

lemma list_network_eq:
  assumes "plain_element i"
  shows "client_list_network (daemon_client S cd router url_path u) ck i s =
    (case store_all (su_os S) s of
       (Ok cs, t) \<Rightarrow> (Ok (filter (\<lambda>c. ctr_network_id c = i) cs), t)
     | (Err e, t) \<Rightarrow> (Err (Errorf ''unexpected status code on ListNetworkContainers: expected 200 but got 500''), t)
     | (Abort a, t) \<Rightarrow> (Abort a, t))"
proof -
  have networks: "plain_element ''networks''" by (simp add: plain_element_def)
  let ?c = "\<lparr>cl_action = ''ListNetworkContainers'', cl_method = ''GET'', cl_url = path_join [''networks'', i],
        cl_payload = None, cl_result = Some (ck_containers ck), cl_success = 200, cl_errors = Map.empty\<rparr>"
  have path: "path_join [cl_url ?c] = ''networks/'' @ i"
    using path_join_plain [OF networks assms] by simp
  have unexpected: "check_status ''ListNetworkContainers'' 500 200 =
      Some (Errorf ''unexpected status code on ListNetworkContainers: expected 200 but got 500'')"
    by code_simp
  have route: "router (cl_method ?c) (if has_prefix (''networks/'' @ i) ''/'' then ''networks/'' @ i else CHR ''/'' # ''networks/'' @ i) =
      Some (''networks_list_containers'', i)"
    using route_network [of i] assms by (simp add: has_prefix_def plain_element_def)
  have handler: "rata_handler S cd ''networks_list_containers'' i x s = handle_networks_list (su_os S) cd i s" for x s
    by (simp add: rata_handler_def)
  have config: "cl_payload ?c = None" by simp
  note ex = exchange [OF path refl route disjI2 [OF conjI [OF config refl]], of s, unfolded handler]
  have read: "read_response ?c \<lparr>hr_status = 200, hr_body = Inr (projr (cd_containers cd cs))\<rparr> = Inr (Some cs)"
    "read_response ?c \<lparr>hr_status = 500, hr_body = x\<rparr> =
       Inl (Errorf ''unexpected status code on ListNetworkContainers: expected 200 but got 500'')" for cs x
    using containers_body [of cs] by (auto simp: read_response_def unmarshal_response_def unexpected)
  obtain q t where q: "store_all (su_os S) s = (q, t)" by fastforce
  show ?thesis
  proof (cases q)
    case (Ok cs)
    obtain b where "cd_containers cd (containers_of_network i cs) = Inr b" using containers_body by blast
    with read(1) [of "containers_of_network i cs"] Ok q show ?thesis
      unfolding client_list_network_def result_of_def bind_err_def attempt_def ex
      by (simp add: handle_networks_list_def attempt_def pick_def ret_def containers_of_network_filter)
  qed (use q in \<open>simp_all add: client_list_network_def result_of_def bind_err_def attempt_def ex
      handle_networks_list_def pick_def ret_def fail_def read\<close>)
qed

lemma list_containers_eq:
  "client_list_containers (daemon_client S cd router url_path u) ck s =
    (case store_all (su_os S) s of
       (Ok cs, t) \<Rightarrow> (Ok cs, t)
     | (Err e, t) \<Rightarrow> (Err (Errorf ''unexpected status code on ListContainers: expected 200 but got 500''), t)
     | (Abort a, t) \<Rightarrow> (Abort a, t))"
proof -
  let ?c = "\<lparr>cl_action = ''ListContainers'', cl_method = ''GET'', cl_url = ''containers'',
        cl_payload = None, cl_result = Some (ck_containers ck), cl_success = 200, cl_errors = Map.empty\<rparr>"
  have path: "path_join [cl_url ?c] = ''containers''"
    unfolding client_config.simps by code_simp
  have unexpected: "check_status ''ListContainers'' 500 200 = Some (Errorf ''unexpected status code on ListContainers: expected 200 but got 500'')"
    by code_simp
  have route: "router (cl_method ?c) (if has_prefix ''containers'' ''/'' then ''containers'' else CHR ''/'' # ''containers'') =
      Some (''list_containers'', [])"
    using route_list by (simp add: has_prefix_def)
  have handler: "rata_handler S cd ''list_containers'' [] x s = handle_list_containers (su_os S) cd s" for x s
    by (simp add: rata_handler_def)
  have config: "cl_payload ?c = None" by simp
  note ex = exchange [OF path refl route disjI2 [OF conjI [OF config refl]], of s, unfolded handler]
  have read: "read_response ?c \<lparr>hr_status = 200, hr_body = Inr (projr (cd_containers cd cs))\<rparr> = Inr (Some cs)"
    "read_response ?c \<lparr>hr_status = 500, hr_body = x\<rparr> =
       Inl (Errorf ''unexpected status code on ListContainers: expected 200 but got 500'')" for cs x
    using containers_body [of cs] by (auto simp: read_response_def unmarshal_response_def unexpected)
  obtain q t where q: "store_all (su_os S) s = (q, t)" by fastforce
  show ?thesis
  proof (cases q)
    case (Ok cs)
    obtain b where "cd_containers cd cs = Inr b" using containers_body by blast
    with read(1) [of cs] Ok q show ?thesis
      unfolding client_list_containers_def result_of_def bind_err_def attempt_def ex
      by (simp add: handle_list_containers_def attempt_def pick_def ret_def)
  qed (use q in \<open>simp_all add: client_list_containers_def result_of_def bind_err_def attempt_def ex
      handle_list_containers_def pick_def ret_def fail_def read\<close>)
qed

end

section \<open>A lawful connection\<close>

text \<open>
  An encoding that keeps its promises, a router that matches the routes of the daemon element by
  element, and a base URL: together they are a link as above, for every daemon.
\<close>

fun put_string :: "string \<Rightarrow> string" where
  "put_string [] = '';''"
| "put_string (c # cs) = CHR '','' # c # put_string cs"

fun get_string :: "string \<Rightarrow> string \<times> string" where
  "get_string (a # c # r) =
     (if a = CHR '','' then (case get_string r of (s, t) \<Rightarrow> (c # s, t)) else ([], c # r))"
| "get_string _ = ([], [])"

lemma get_put_string: "get_string (put_string s @ t) = (s, t)"
  by (induction s) (cases t; simp)+

lemma length_get_string: "b \<noteq> [] \<Longrightarrow> length (snd (get_string b)) < length b"
  by (induction b rule: get_string.induct) (auto split: prod.split, fastforce)

definition put_strings :: "string list \<Rightarrow> string" where
  "put_strings ss = concat (map put_string ss)"

function get_strings :: "string \<Rightarrow> string list" where
  "get_strings b = (if b = [] then [] else case get_string b of (s, t) \<Rightarrow> s # get_strings t)"
  by auto
termination
  by (relation "measure length") (auto, metis length_get_string snd_conv)

declare get_strings.simps [simp del]

lemma get_strings_Nil [simp]: "get_strings [] = []"
  by (simp add: get_strings.simps)

lemma get_put_strings: "get_strings (put_strings ss) = ss"
proof (induction ss)
  case (Cons s ss)
  have "put_string s \<noteq> []" by (cases s) simp_all
  with Cons show ?case
    by (subst get_strings.simps) (simp add: put_strings_def get_put_string)
qed (simp add: put_strings_def get_strings.simps)

definition put_bytes :: "byte list \<Rightarrow> string" where
  "put_bytes bs = map (\<lambda>b. char_of (unat b)) bs"

definition get_bytes :: "string \<Rightarrow> byte list" where
  "get_bytes s = map (\<lambda>c. word_of_nat (of_char c)) s"

lemma get_put_bytes: "get_bytes (put_bytes bs) = bs"
proof -
  have "unat b mod 256 = unat b" for b :: byte
    by (rule mod_less, rule order_less_le_trans [OF unsigned_less]) simp
  then show ?thesis
    by (simp add: get_bytes_def put_bytes_def comp_def)
qed

definition put_container :: "container \<Rightarrow> string" where
  "put_container c = put_strings
     [ctr_id c, ctr_ip c, ctr_mac c, ctr_host_ip c, ctr_network_id c, ctr_sandbox_name c, ctr_app c]"

definition get_container :: "string \<Rightarrow> goerror + container" where
  "get_container b =
     (case get_strings b of
        [i, a, m, h, n, s, app] \<Rightarrow>
          Inr \<lparr>ctr_id = i, ctr_ip = a, ctr_mac = m, ctr_host_ip = h, ctr_network_id = n, ctr_sandbox_name = s, ctr_app = app\<rparr>
      | _ \<Rightarrow> Inl (ExtError ''unexpected end of JSON input''))"

lemma get_put_container: "get_container (put_container c) = Inr c"
  by (simp add: get_container_def put_container_def get_put_strings)

text \<open>The wire keeps the addresses of a result and drops its routes.\<close>

definition put_result :: "cni_result \<Rightarrow> string" where
  "put_result r =
     (case res_ip4 r of None \<Rightarrow> []
      | Some c \<Rightarrow> put_strings [put_bytes (net_ip (cfg_ip c)), put_bytes (net_mask (cfg_ip c)), put_bytes (cfg_gateway c)])"

definition get_result :: "string \<Rightarrow> goerror + cni_result" where
  "get_result b =
     (case get_strings b of
        [a, m, g] \<Rightarrow> Inr \<lparr>res_ip4 = Some \<lparr>cfg_ip = \<lparr>net_ip = get_bytes a, net_mask = get_bytes m\<rparr>,
          cfg_gateway = get_bytes g, cfg_routes = []\<rparr>\<rparr>
      | _ \<Rightarrow> Inr \<lparr>res_ip4 = None\<rparr>)"

definition wire_norm :: "cni_result \<Rightarrow> cni_result" where
  "wire_norm r = \<lparr>res_ip4 = map_option (\<lambda>c. c\<lparr>cfg_routes := []\<rparr>) (res_ip4 r)\<rparr>"

lemma get_put_result: "get_result (put_result r) = Inr (wire_norm r)"
  by (auto simp: get_result_def put_result_def wire_norm_def get_put_strings get_put_bytes split: option.split)

text \<open>Requests carry no result, as the client sends them.\<close>

definition put_add :: "cni_add_payload \<Rightarrow> string" where
  "put_add p = put_strings
     [ap_args p, ap_container_namespace p, ap_interface_name p, np_app_id (ap_network p), np_space_id (ap_network p),
      ap_container_id p]"

definition get_add :: "string \<Rightarrow> goerror + cni_add_payload" where
  "get_add b =
     (case get_strings b of
        [args, ns, ifname, app, space, i] \<Rightarrow>
          Inr \<lparr>ap_args = args, ap_container_namespace = ns, ap_interface_name = ifname, ap_ipam = \<lparr>res_ip4 = None\<rparr>,
            ap_network = \<lparr>np_app_id = app, np_space_id = space\<rparr>, ap_container_id = i\<rparr>
      | _ \<Rightarrow> Inl (ExtError ''unexpected end of JSON input''))"

definition put_del :: "cni_del_payload \<Rightarrow> string" where
  "put_del p = put_strings [dp_interface_name p, dp_container_namespace p, dp_container_id p]"

definition get_del :: "string \<Rightarrow> goerror + cni_del_payload" where
  "get_del b =
     (case get_strings b of
        [ifname, ns, i] \<Rightarrow> Inr \<lparr>dp_interface_name = ifname, dp_container_namespace = ns, dp_container_id = i\<rparr>
      | _ \<Rightarrow> Inl (ExtError ''unexpected end of JSON input''))"


lemma get_put_del: "get_del (put_del p) = Inr p"
  by (simp add: get_del_def put_del_def get_put_strings)

definition wire_codec :: codec where
  "wire_codec = \<lparr>cd_add = get_add, cd_del = get_del, cd_result = Inr \<circ> put_result, cd_error = Inr,
     cd_container = Inr \<circ> put_container, cd_containers = (\<lambda>cs. Inr (put_strings (map put_container cs)))\<rparr>"

definition get_containers :: "string \<Rightarrow> goerror + container list" where
  "get_containers b = Inr (map (projr \<circ> get_container) (get_strings b))"

definition wire_client_codec :: client_codec where
  "wire_client_codec = \<lparr>ck_add = Inr \<circ> put_add, ck_del = Inr \<circ> put_del, ck_result = get_result,
     ck_container = get_container, ck_containers = get_containers,
     ck_stdin = (\<lambda>s. Inr \<lparr>np_app_id = s, np_space_id = []\<rparr>)\<rparr>"

text \<open>A pattern matches a path of as many elements; an element with a colon matches any but the empty one.\<close>

fun match_elements :: "string list \<Rightarrow> string list \<Rightarrow> string option" where
  "match_elements [] [] = Some []"
| "match_elements (p # ps) (e # es) =
     (case match_elements ps es of
        None \<Rightarrow> None
      | Some param \<Rightarrow>
          if has_prefix p '':'' then (if e = [] then None else Some e)
          else if p = e then Some param else None)"
| "match_elements _ _ = None"

fun match_routes :: "(string \<times> string \<times> string) list \<Rightarrow> string \<Rightarrow> string \<Rightarrow> (string \<times> string) option" where
  "match_routes [] m path = None"
| "match_routes ((name, method, pattern) # rs) m path =
     (if method = m then
        (case match_elements (path_split pattern) (path_split path) of
           Some param \<Rightarrow> Some (name, param)
         | None \<Rightarrow> match_routes rs m path)
      else match_routes rs m path)"

definition wire_router :: "string \<Rightarrow> string \<Rightarrow> (string \<times> string) option" where
  "wire_router = match_routes daemon_routes"

definition wire_host :: string where
  "wire_host = ''http://127.0.0.1:4001''"

definition wire_base :: base_url where
  "wire_base = \<lparr>bu_path = [], bu_show = (\<lambda>p. wire_host @ (if has_prefix p ''/'' then p else CHR ''/'' # p))\<rparr>"

definition wire_path :: "string \<Rightarrow> string" where
  "wire_path url = drop (length wire_host) url"

lemma wire_route_of:
  assumes "i \<noteq> []" "CHR ''/'' \<notin> set i"
  shows "wire_router ''GET'' (''/containers/'' @ i) = Some (''get_container'', i)"
    "wire_router ''GET'' (''/networks/'' @ i) = Some (''networks_list_containers'', i)"
  using assms by (simp_all add: wire_router_def daemon_routes_def path_split_element has_prefix_def)

lemma wire_routes:
  "wire_router ''POST'' ''/cni/add'' = Some (''cni_add'', [])"
  "wire_router ''POST'' ''/cni/del'' = Some (''cni_del'', [])"
  "wire_router ''GET'' ''/containers'' = Some (''list_containers'', [])"
  by code_simp+

interpretation wire: daemon_link S wire_codec wire_client_codec wire_norm wire_router wire_path wire_base
  for S :: "'k wiring"
proof unfold_locales
  have "projr \<circ> get_container \<circ> put_container = id"
    by (rule ext) (simp add: get_put_container)
  then have "get_containers (put_strings (map put_container cs)) = Inr cs" for cs
    by (simp add: get_containers_def get_put_strings)
  then show "\<exists>b. cd_containers wire_codec cs = Inr b \<and> ck_containers wire_client_codec b = Inr cs" for cs
    by (simp add: wire_codec_def wire_client_codec_def)
qed (simp_all add: wire_base_def wire_path_def wire_routes wire_route_of [simplified append.simps] wire_codec_def wire_client_codec_def
    get_put_result get_put_container)

section \<open>What the client sees\<close>



text \<open>
  Over a lawful connection \<open>ContainerDown\<close> is the Del of the controller: it succeeds exactly when
  Del does, every error of Del becomes an unexpected status 500 and a request with an empty field an
  unexpected status 400, without effect on the daemon.
\<close>

theorem client_down_matches_controller:
  assumes "daemon_link cd ck norm router url_path u"
    and "ck_del ck p = Inr b" "cd_del cd b = Inr p"
  shows "container_down (daemon_client S cd router url_path u) ck p s =
    (if well_formed_del p then
       (case cni_del S p s of
          (Ok x, t) \<Rightarrow> (Ok (), t)
        | (Err e, t) \<Rightarrow> (Err (Errorf ''unexpected status code on ContainerDown: expected 204 but got 500''), t)
        | (Abort a, t) \<Rightarrow> (Abort a, t))
     else (Err (Errorf ''unexpected status code on ContainerDown: expected 204 but got 400''), s))"
  by (rule daemon_link.container_down_eq [OF assms])

lemma client_down_matches_controller_witness:
  "fst (container_down (daemon_client sim_wiring wire_codec wire_router wire_path wire_base) wire_client_codec demo_del
     demo_added) = Ok ()"
proof -
  have "ck_del wire_client_codec demo_del = Inr (put_del demo_del)"
    "cd_del wire_codec (put_del demo_del) = Inr demo_del"
    by (simp_all add: wire_client_codec_def wire_codec_def get_put_del)
  from client_down_matches_controller [OF wire.daemon_link_axioms this, of sim_wiring demo_added] show ?thesis
    using demo_deleted
    by (cases "cni_del sim_wiring demo_del demo_added") (simp add: well_formed_del_def demo_request_simps)
qed

text \<open>
  Over a lawful connection the reading calls of the client are reads of the datastore: of a
  container by its id, with \<open>RecordNotFoundError\<close> exactly where the datastore has it, of the containers of a
  network and of all containers, for ids that are plain elements of a path.
\<close>

theorem client_reads_datastore:
  assumes "daemon_link cd ck norm router url_path u" "plain_element i"
  shows "client_get_container (daemon_client S cd router url_path u) ck i s =
    (case store_get (su_os S) i s of
       (Ok c, t) \<Rightarrow> (Ok c, t)
     | (Err e, t) \<Rightarrow> (Err (if e = Sentinel RecordNotFoundError then Sentinel ClientRecordNotFoundError
          else Errorf ''unexpected status code on GetContainer: expected 200 but got 500''), t)
     | (Abort a, t) \<Rightarrow> (Abort a, t)) \<and>
   client_list_network (daemon_client S cd router url_path u) ck i s =
    (case store_all (su_os S) s of
       (Ok cs, t) \<Rightarrow> (Ok (filter (\<lambda>c. ctr_network_id c = i) cs), t)
     | (Err e, t) \<Rightarrow> (Err (Errorf ''unexpected status code on ListNetworkContainers: expected 200 but got 500''), t)
     | (Abort a, t) \<Rightarrow> (Abort a, t)) \<and>
   client_list_containers (daemon_client S cd router url_path u) ck s =
    (case store_all (su_os S) s of
       (Ok cs, t) \<Rightarrow> (Ok cs, t)
     | (Err e, t) \<Rightarrow> (Err (Errorf ''unexpected status code on ListContainers: expected 200 but got 500''), t)
     | (Abort a, t) \<Rightarrow> (Abort a, t))"
  using daemon_link.get_container_eq [OF assms] daemon_link.list_network_eq [OF assms]
    daemon_link.list_containers_eq [OF assms(1)] by blast

lemma client_reads_datastore_witness:
  "fst (client_get_container (daemon_client sim_wiring wire_codec wire_router wire_path wire_base) wire_client_codec ''c1''
     demo_added) = Ok demo_record"
proof -
  have "fst (store_get (su_os sim_wiring) ''c1'' demo_added) = Ok demo_record"
    using demo_finish_runs(2) unfolding demo_added_def demo_add_eq demo_request_simps .
  moreover have "plain_element ''c1''" by (simp add: plain_element_def)
  ultimately show ?thesis
    using client_reads_datastore [OF wire.daemon_link_axioms, of "''c1''" sim_wiring demo_added]
    by (cases "store_get (su_os sim_wiring) ''c1'' demo_added") simp
qed

text \<open>Without this restriction an id can lead elsewhere.\<close>

lemma container_id_escapes:
  "path_join [cl_url (get_config_of ck ''../networks/n'')] = ''networks/n''"
proof -
  have "path_join [path_join [''containers'', ''../networks/n'']] = ''networks/n''" by code_simp
  then show ?thesis by (simp add: get_config_of_def)
qed

end
