(* ===== verification/Resolution.thy ===== *)
theory Resolution
  imports Handlers_Props
begin

text \<open>
  The way of an address through the whole daemon: leased by the allocator, recorded by the Add
  request, and found again by the resolver of any host that shares the database, when a container of
  the same sandbox asks for it.
\<close>

lemma container_record_fields:
  "ctr_id (container_record c config ip4 mac) = cc_container_id config"
  "ctr_ip (container_record c config ip4 mac) = ip_string (net_ip (cfg_ip ip4))"
  "ctr_mac (container_record c config ip4 mac) = hw_string mac"
  "ctr_host_ip (container_record c config ip4 mac) = ip_string (cr_host_ip c)"
  "ctr_sandbox_name (container_record c config ip4 mac) = sandbox_name (cc_vni config)"
  by (simp_all add: container_record_def)

lemma find_in_rows:
  assumes "set cs = ran f" "f i = Some c" "P c" "\<And>j d. f j = Some d \<Longrightarrow> P d \<Longrightarrow> j = i"
  shows "find P cs = Some c"
proof -
  have only: "d = c" if "d \<in> set cs" "P d" for d
    using that assms by (auto simp: ran_def)
  have "c \<in> set cs" using assms(1,2) by (auto intro: ranI)
  with assms(3) have "find P cs \<noteq> None" by (auto simp: find_None_iff)
  then obtain d where "find P cs = Some d" by blast
  moreover from this have "d \<in> set cs" "P d" by (auto simp: find_Some_iff)
  ultimately show ?thesis using only by simp
qed

lemma ip_equal_string:
  assumes "ip_equal a b" "length b = 4"
  shows "ip_string a = ip_string b"
proof -
  have "to4 a = b \<or> a = b"
    using assms by (auto simp: ip_equal_def to4_def ipv4_16_def split: if_splits)
  moreover have "a \<noteq> []" using assms by (auto simp: ip_equal_def)
  ultimately show ?thesis using assms(2) by (auto simp: ip_string_def)
qed

text \<open>The host address is written in dotted form, whichever of its two forms it is held in.\<close>

lemma ip_equal_parse_host:
  assumes "length (to4 a) = 4"
  shows "ip_equal (parse_ip (ip_string a)) a"
proof (cases "length a = 4")
  case True
  then show ?thesis by (rule ip_equal_parse_string)
next
  case False
  then have a: "length a = 16" "take 12 a = v4_in_v6_prefix" and four: "to4 a = drop 12 a"
    using assms by (auto simp: to4_def split: if_splits)
  have "ip_string a = dotted (drop 12 a)"
    using a(1) four by (auto simp: ip_string_def)
  then have "parse_ip (ip_string a) = v4_in_v6_prefix @ drop 12 a"
    using assms four by (simp add: parse_ip_dotted ipv4_16_def)
  also have "\<dots> = a"
    unfolding a(2) [symmetric] by simp
  finally show ?thesis by (simp add: ip_equal_def)
qed

text \<open>
  C8: An added container can be reached: after an Add request that succeeded on one daemon, whose host
  address is an IPv4 address, over a database that obeys SQL, the resolver of any daemon answers a
  miss for the leased address in the network's sandbox with the MAC of the container's interface and
  the address of its host, if no other container of the sandbox is recorded with that address and the
  MAC has 6, 8 or 20 bytes.  (\<open>net.ParseIP\<close>, which reads the host address from the configuration,
  gives the sixteen-byte form of an IPv4 address.)
\<close>

theorem added_container_resolves:
  fixes s t :: "('k, 'z) daemon_scheme" and v w :: "('k, 'y) world_scheme"
  assumes table: "sql_table os rows" "su_os S = os"
    and add: "cni_add S p s = (Ok result, t)"
    and leased: "res_ip4 result = Some ip4" "length (net_ip (cfg_ip ip4)) = 4" "length (to4 (cr_host_ip (su_creator S))) = 4"
    and alone: "\<And>i c. rows (kernel t) i = Some c \<Longrightarrow> ctr_sandbox_name c = sandbox_name (vni_of (network_of S p)) \<Longrightarrow>
      ctr_ip c = ip_string (net_ip (cfg_ip ip4)) \<Longrightarrow> i = ap_container_id p"
    and miss: "nb_sandbox_name msg = dir @ CHR ''/'' # sandbox_name (vni_of (network_of S p))"
      "ip_equal (ne_ip (nb_neigh msg)) (net_ip (cfg_ip ip4))"
    and all: "kernel v = kernel t" "store_all os v = (Ok cs, w)"
  shows "\<exists>mac c. rows (kernel t) (ap_container_id p) = Some c \<and> ctr_mac c = hw_string mac \<and>
    (length mac \<in> {6, 8, 20} \<longrightarrow>
      (\<exists>host. resolve_miss os msg v =
         (Ok (Some (msg\<lparr>nb_neigh := (nb_neigh msg)\<lparr>ne_hardware_addr := mac\<rparr>, nb_vtep := host\<rparr>)), w) \<and>
         ip_equal host (cr_host_ip (su_creator S))))"
proof -
  let ?v = "vni_of (network_of S p)"
  obtain ip4' mac u where "res_ip4 result = Some ip4'" and
    created: "store_create (su_os S) (container_record (su_creator S) (creator_config_of p (network_of S p) ?v result) ip4' mac) u = (Ok (), t)"
    by (rule cni_add_ok [OF add])
  with leased(1) have ip4': "ip4' = ip4" by simp
  let ?c = "container_record (su_creator S) (creator_config_of p (network_of S p) ?v result) ip4 mac"
  have config: "cc_container_id (creator_config_of p (network_of S p) ?v result) = ap_container_id p"
    "cc_vni (creator_config_of p (network_of S p) ?v result) = ?v"
    by (simp_all add: creator_config_of_def)
  have row: "rows (kernel t) (ap_container_id p) = Some ?c"
    using sql_table.store_create_cases [OF table(1) created [unfolded table(2) ip4']]
    by (simp add: container_record_fields config)
  have base: "path_base (nb_sandbox_name msg) = sandbox_name ?v"
  proof -
    have "CHR ''/'' \<notin> set (show_int n)" for n
      by (auto simp: show_int_def is_digit_def dest: not_in_show_nat [THEN notE, rotated])
    then show ?thesis
      unfolding miss(1) by (intro path_base_dir) (simp_all add: sandbox_name_def)
  qed
  obtain k where "os_db_select os (kernel v) = (Inr cs, k)"
    using all(2) by (auto simp: store_all_def ret_def sys_def split: prod.splits sum.splits elim!: bind_wrap_OkE)
  then have "set cs = ran (rows (kernel t))"
    using sql_table.select_all [OF table(1)] all(1) by simp
  then have found: "find (\<lambda>c. ctr_sandbox_name c = path_base (nb_sandbox_name msg) \<and> ctr_ip c = ip_string (ne_ip (nb_neigh msg))) cs = Some ?c"
  proof (rule find_in_rows [where f = "rows (kernel t)" and i = "ap_container_id p"])
    show "ctr_sandbox_name ?c = path_base (nb_sandbox_name msg) \<and> ctr_ip ?c = ip_string (ne_ip (nb_neigh msg))"
      by (simp add: base container_record_fields config ip_equal_string [OF miss(2) leased(2)])
    show "j = ap_container_id p" if "rows (kernel t) j = Some d"
      "ctr_sandbox_name d = path_base (nb_sandbox_name msg) \<and> ctr_ip d = ip_string (ne_ip (nb_neigh msg))" for j d
      using alone [OF that(1)] that(2) by (simp add: base ip_equal_string [OF miss(2) leased(2)])
  qed (rule row)
  have "resolve_miss os msg v =
      (Ok (Some (msg\<lparr>nb_neigh := (nb_neigh msg)\<lparr>ne_hardware_addr := mac\<rparr>, nb_vtep := parse_ip (ip_string (cr_host_ip (su_creator S)))\<rparr>)), w)"
    if "length mac \<in> {6, 8, 20}"
    using all(2) found parse_mac_hw_string [OF that]
    by (simp add: resolve_miss_def attempt_def resolve_with_def find_container_find container_record_fields ret_def)
  with row ip_equal_parse_host [OF leased(3)] show ?thesis
    by (intro exI [of _ mac] exI [of _ ?c]) (auto simp: container_record_fields)
qed

definition demo_miss :: neighbor where
  "demo_miss = \<lparr>nb_sandbox_name = ''/sb/vni-14026101'', nb_vtep = [],
     nb_neigh = \<lparr>ne_link_index = 3, ne_family = 2, ne_state = 0, ne_type = 0, ne_flags = 0,
       ne_ip = ipv4_16 [192, 168, 1, 2], ne_hardware_addr = []\<rparr>\<rparr>"

lemma demo_finish_rows:
  "fst (store_all sim_os (snd (demo_finish demo_kernel a))) = Ok [demo_record]"
  "sim_table (kernel (snd (demo_finish demo_kernel a))) = [demo_record]"
  using demo_finish_evaluates [of a] by (simp_all add: case_prod_beta)

lemma demo_mac: "parse_mac ''02:00:00:00:00:01'' = Some [2, 0, 0, 0, 0, 1]"
  by code_simp

lemma demo_mac_unique:
  assumes "hw_string mac = ''02:00:00:00:00:01''"
  shows "mac = [2, 0, 0, 0, 0, 1]"
proof -
  have "mac \<noteq> []" using assms by (auto simp: hw_string_def)
  from length_hw_string [OF this] assms have "length mac \<in> {6, 8, 20}" by simp
  from parse_mac_hw_string [OF this] demo_mac assms show ?thesis by simp
qed

lemma added_container_resolves_witness:
  "\<exists>host w. resolve_miss sim_os demo_miss demo_added =
     (Ok (Some (demo_miss\<lparr>nb_neigh := (nb_neigh demo_miss)\<lparr>ne_hardware_addr := [2, 0, 0, 0, 0, 1]\<rparr>, nb_vtep := host\<rparr>)), w) \<and>
     ip_equal host (parse_ip ''10.0.0.5'')"
proof -
  have table: "sql_table sim_os sim_rows" using demo_table unfolding demo_os .
  obtain ip4 where ip4: "res_ip4 demo_result = Some ip4" "net_ip (cfg_ip ip4) = [192, 168, 1, 2]"
    by (simp add: demo_result_def)
  have host: "cr_host_ip (su_creator sim_wiring) = parse_ip ''10.0.0.5''"
  proof -
    have "parse_ip ''10.0.0.5'' = ipv4_16 [10, 0, 0, 5]" by code_simp
    then show ?thesis by (simp add: sim_wiring_def)
  qed
  have host4: "length (to4 (parse_ip ''10.0.0.5'')) = 4" by code_simp
  have rows: "sim_rows (kernel demo_added) = [''c1'' \<mapsto> demo_record]"
    unfolding sim_rows_def demo_added_def demo_add_eq demo_finish_rows
    by (rule ext) (simp add: sim_row_def demo_record_def)
  obtain w where all: "store_all sim_os demo_added = (Ok [demo_record], w)"
    using demo_finish_rows(1) unfolding demo_added_def demo_add_eq by (metis prod.collapse)
  have name: "nb_sandbox_name demo_miss = ''/sb'' @ CHR ''/'' # sandbox_name (vni_of (network_of sim_wiring demo_add))"
  proof -
    have "sandbox_name 14026101 = ''vni-14026101''" by code_simp
    then show ?thesis by (simp add: demo_miss_def demo_network vni_of_default)
  qed
  have missed: "ip_equal (ne_ip (nb_neigh demo_miss)) (net_ip (cfg_ip ip4))"
    unfolding ip4 by (simp add: demo_miss_def ip_equal_def ipv4_16_def v4_in_v6_prefix_def)
  have alone: "i = ap_container_id demo_add" if "sim_rows (kernel demo_added) i = Some c" for i c
    using that by (simp add: rows demo_request_simps split: if_splits)
  have "\<exists>mac c. sim_rows (kernel demo_added) (ap_container_id demo_add) = Some c \<and> ctr_mac c = hw_string mac \<and>
    (length mac \<in> {6, 8, 20} \<longrightarrow> (\<exists>host. resolve_miss sim_os demo_miss demo_added =
         (Ok (Some (demo_miss\<lparr>nb_neigh := (nb_neigh demo_miss)\<lparr>ne_hardware_addr := mac\<rparr>, nb_vtep := host\<rparr>)), w) \<and>
         ip_equal host (cr_host_ip (su_creator sim_wiring))))"
    by (rule added_container_resolves [OF table demo_os demo_added ip4(1) _ _ _ name missed refl all])
      (use alone host4 in \<open>simp_all add: ip4 host\<close>)
  then obtain mac c where "sim_rows (kernel demo_added) ''c1'' = Some c" "ctr_mac c = hw_string mac"
    and resolved: "length mac \<in> {6, 8, 20} \<longrightarrow> (\<exists>host. resolve_miss sim_os demo_miss demo_added =
         (Ok (Some (demo_miss\<lparr>nb_neigh := (nb_neigh demo_miss)\<lparr>ne_hardware_addr := mac\<rparr>, nb_vtep := host\<rparr>)), w) \<and>
         ip_equal host (parse_ip ''10.0.0.5''))"
    unfolding host demo_request_simps by blast
  then have "mac = [2, 0, 0, 0, 0, 1]"
    by (intro demo_mac_unique) (auto simp: rows demo_record_def)
  with resolved show ?thesis by auto
qed

end
