(* ===== verification/Ipam_Concurrent.thy ===== *)
theory Ipam_Concurrent
  imports Ipam_Props
begin

text \<open>
  Requests that run at the same time.  The HTTP server of the daemon answers every request in a
  goroutine of its own, and \<open>AllocateIP\<close> holds no lock as a whole: only \<open>getConfig\<close>, \<open>getStore\<close>
  and the methods \<open>Reserve\<close> and \<open>ReleaseByID\<close> of the store are locked, each for itself.  Here the
  two operations of the allocator are cut at these places, and any number of requests run
  interleaved, in any order.

  Requests for different containers do not disturb each other: they are answered as if they had
  been made one after the other.  Two requests for the same container can both succeed.

  \<open>Contains\<close> and the accesses to \<open>config.Gateway\<close> hold no lock.  Each is one step here, which is
  what a sequentially consistent execution does; the Go memory model promises no more than that
  a program without data races has one.
\<close>

section \<open>The steps of a request\<close>

text \<open>
  Where a request is in \<open>AllocateIP\<close> or \<open>ReleaseIP\<close>: before \<open>getConfig\<close>, before \<open>getStore\<close>,
  before \<open>Contains\<close>, before the test of \<open>config.Gateway\<close>, before the assignment to it, before
  the next turn of the loop, before \<open>ReleaseByID\<close>, or returned.
\<close>

datatype request_pc =
    AtConfig
  | AtStore
  | AtContains
  | AtGateway
  | AtSetGateway
  | AtLoop ip
  | AtRelease
  | Returned ipam_answer

fun call_network :: "ipam_call \<Rightarrow> string" where
  "call_network (AllocateIP n c) = n"
| "call_network (ReleaseIP n c) = n"

fun call_container :: "ipam_call \<Rightarrow> string" where
  "call_container (AllocateIP n c) = c"
| "call_container (ReleaseIP n c) = c"

fun request_start :: "ipam_call \<Rightarrow> request_pc" where
  "request_start (AllocateIP n c) = AtConfig"
| "request_start (ReleaseIP n c) = AtStore"

text \<open>The answer of a request that ends with an error or panics.\<close>

fun answer_err :: "ipam_call \<Rightarrow> goerror \<Rightarrow> ipam_answer" where
  "answer_err (AllocateIP n c) e = Allocated (Err e)"
| "answer_err (ReleaseIP n c) e = Released (Err e)"

fun answer_abort :: "ipam_call \<Rightarrow> abort \<Rightarrow> ipam_answer" where
  "answer_abort (AllocateIP n c) x = Allocated (Abort x)"
| "answer_abort (ReleaseIP n c) x = Released (Abort x)"

definition nil_dereference :: abort where
  "nil_dereference = Panic ''invalid memory address or nil pointer dereference''"

text \<open>
  One step of a request.  The configuration and the store are objects behind the pointers that
  \<open>getConfig\<close> and \<open>getStore\<close> returned, so every step reads them as they are at that moment.
\<close>

definition store_update :: "string \<Rightarrow> memory_store \<Rightarrow> memory_store allocator \<Rightarrow> memory_store allocator" where
  "store_update n s a = a\<lparr>al_stores := (al_stores a)(n \<mapsto> s)\<rparr>"

definition loop_step ::
  "ipam_call \<Rightarrow> ip_config \<Rightarrow> ip \<Rightarrow> memory_store \<Rightarrow> memory_store allocator \<Rightarrow> request_pc \<times> memory_store allocator" where
  "loop_step req cfg addr s a =
     (if \<not> net_contains (cfg_ip cfg) (next_ip addr) then
        (Returned (answer_err req (Sentinel NoMoreAddressesError)), a)
      else if ip_equal (cfg_gateway cfg) (next_ip addr) then (AtLoop (next_ip addr), a)
      else case mem_reserve (call_container req) (next_ip addr) s of
        (Err e, t) \<Rightarrow> (Returned (answer_err req (wrapf ''failed to reserve IP'' e)), store_update (call_network req) t a)
      | (Abort x, t) \<Rightarrow> (Returned (answer_abort req x), store_update (call_network req) t a)
      | (Ok ok, t) \<Rightarrow>
          (if ok then Returned (Allocated (Ok (lease_of cfg (next_ip addr)))) else AtLoop (next_ip addr),
           store_update (call_network req) t a))"

definition with_config ::
  "ipam_call \<Rightarrow> memory_store allocator \<Rightarrow> (ip_config \<Rightarrow> request_pc \<times> memory_store allocator) \<Rightarrow>
   request_pc \<times> memory_store allocator" where
  "with_config req a k =
     (case al_configs a (call_network req) of
        None \<Rightarrow> (Returned (answer_abort req nil_dereference), a)
      | Some cfg \<Rightarrow> k cfg)"

definition with_store ::
  "ipam_call \<Rightarrow> memory_store allocator \<Rightarrow> (memory_store \<Rightarrow> request_pc \<times> memory_store allocator) \<Rightarrow>
   request_pc \<times> memory_store allocator" where
  "with_store req a k =
     (case al_stores a (call_network req) of
        None \<Rightarrow> (Returned (answer_abort req nil_dereference), a)
      | Some s \<Rightarrow> k s)"

text \<open>The outcome of a call that the request makes under a lock.\<close>

definition after_call ::
  "ipam_call \<Rightarrow> request_pc \<Rightarrow> 'a outcome \<times> memory_store allocator \<Rightarrow> request_pc \<times> memory_store allocator" where
  "after_call req pc q =
     (case q of
        (Ok x, b) \<Rightarrow> (pc, b)
      | (Err e, b) \<Rightarrow> (Returned (answer_err req e), b)
      | (Abort x, b) \<Rightarrow> (Returned (answer_abort req x), b))"

fun request_step ::
  "ip_config \<Rightarrow> ipam_call \<Rightarrow> request_pc \<Rightarrow> memory_store allocator \<Rightarrow> request_pc \<times> memory_store allocator" where
  "request_step base req AtConfig a =
     after_call req AtStore (get_config (config_factory_create base) (call_network req) a)"
| "request_step base req AtStore a =
     after_call req (case req of AllocateIP n c \<Rightarrow> AtContains | ReleaseIP n c \<Rightarrow> AtRelease)
       (get_store store_factory_create (call_network req) a)"
| "request_step base req AtContains a =
     with_store req a (\<lambda>s.
       (if mem_contains (call_container req) s
        then Returned (answer_err req (Sentinel AlreadyOnNetworkError)) else AtGateway, a))"
| "request_step base req AtGateway a =
     with_config req a (\<lambda>cfg.
       (if cfg_gateway cfg = [] then AtSetGateway else AtLoop (net_ip (cfg_ip cfg)), a))"
| "request_step base req AtSetGateway a =
     with_config req a (\<lambda>cfg.
       (AtLoop (next_ip (net_ip (cfg_ip cfg))),
        a\<lparr>al_configs := (al_configs a)
          (call_network req \<mapsto> cfg\<lparr>cfg_gateway := next_ip (net_ip (cfg_ip cfg))\<rparr>)\<rparr>))"
| "request_step base req (AtLoop addr) a =
     with_config req a (\<lambda>cfg. with_store req a (\<lambda>s. loop_step req cfg addr s a))"
| "request_step base req AtRelease a =
     with_store req a (\<lambda>s.
       (case mem_release_by_id (call_container req) s of
          (Ok u, t) \<Rightarrow> (Returned (Released (Ok ())), store_update (call_network req) t a)
        | (Err e, t) \<Rightarrow> (Returned (answer_err req (wrapf ''store failed to release'' e)), store_update (call_network req) t a)
        | (Abort x, t) \<Rightarrow> (Returned (answer_abort req x), store_update (call_network req) t a)))"
| "request_step base req (Returned r) a = (Returned r, a)"

section \<open>Interleaved requests\<close>

record requests =
  rq_alloc :: "memory_store allocator"
  rq_pcs :: "(ipam_call \<times> request_pc) list"

definition launch :: "ipam_call list \<Rightarrow> memory_store allocator \<Rightarrow> requests" where
  "launch calls a = \<lparr>rq_alloc = a, rq_pcs = map (\<lambda>x. (x, request_start x)) calls\<rparr>"

text \<open>
  A step of request number \<open>i\<close>, and a schedule: the numbers of the requests in the order in which
  they take their steps.  An answer is seen in the step that returns it.
\<close>

fun new_answer :: "request_pc \<Rightarrow> request_pc \<Rightarrow> ipam_answer option" where
  "new_answer (Returned q) pc = None"
| "new_answer old (Returned r) = Some r"
| "new_answer old pc = None"

definition turn :: "ip_config \<Rightarrow> nat \<Rightarrow> requests \<Rightarrow> (ipam_call \<times> ipam_answer) list \<times> requests" where
  "turn base i s =
     (if i < length (rq_pcs s) then
        (case rq_pcs s ! i of (req, pc) \<Rightarrow>
         (case request_step base req pc (rq_alloc s) of (pc', b) \<Rightarrow>
           (case new_answer pc pc' of None \<Rightarrow> [] | Some r \<Rightarrow> [(req, r)],
            \<lparr>rq_alloc = b, rq_pcs = (rq_pcs s)[i := (req, pc')]\<rparr>)))
      else ([], s))"

fun run_schedule :: "ip_config \<Rightarrow> nat list \<Rightarrow> requests \<Rightarrow> (ipam_call \<times> ipam_answer) list \<times> requests" where
  "run_schedule base [] s = ([], s)"
| "run_schedule base (i # is) s =
     (case turn base i s of (e, t) \<Rightarrow> (case run_schedule base is t of (es, u) \<Rightarrow> (e @ es, u)))"

section \<open>What every step keeps\<close>

text \<open>An address that may be leased, and an allocator that holds only such addresses.\<close>

definition leasable :: "ip_config \<Rightarrow> ip \<Rightarrow> bool" where
  "leasable base x \<longleftrightarrow> length x = 4 \<and> net_contains (cfg_ip base) x \<and> \<not> ip_equal (gateway_of base) x"

definition alloc_inv :: "ip_config \<Rightarrow> memory_store allocator \<Rightarrow> bool" where
  "alloc_inv base a \<longleftrightarrow>
     mem_alloc.alloc_ok a \<and>
     (\<forall>n cfg. al_configs a n = Some cfg \<longrightarrow> cfg = base \<or> cfg = set_gateway base) \<and>
     (\<forall>n x. holds a n x \<noteq> None \<longrightarrow> leasable base x)"

text \<open>What a request knows at each place: which objects its pointers point to.\<close>

definition has_config :: "memory_store allocator \<Rightarrow> string \<Rightarrow> bool" where
  "has_config a n \<longleftrightarrow> al_configs a n \<noteq> None"

definition has_gateway :: "ip_config \<Rightarrow> memory_store allocator \<Rightarrow> string \<Rightarrow> bool" where
  "has_gateway base a n \<longleftrightarrow> al_configs a n = Some (set_gateway base)"

definition has_store :: "memory_store allocator \<Rightarrow> string \<Rightarrow> bool" where
  "has_store a n \<longleftrightarrow> al_stores a n \<noteq> None"

fun allocating :: "ipam_call \<Rightarrow> bool" where
  "allocating (AllocateIP n c) = True"
| "allocating (ReleaseIP n c) = False"

fun good_answer :: "ip_config \<Rightarrow> ipam_call \<Rightarrow> ipam_answer \<Rightarrow> bool" where
  "good_answer base (AllocateIP n c) (Allocated (Ok res)) =
     (\<exists>x. leasable base x \<and> res = lease_of (set_gateway base) x)"
| "good_answer base (AllocateIP n c) (Allocated (Err e)) =
     (e = Sentinel AlreadyOnNetworkError \<or> e = Sentinel NoMoreAddressesError)"
| "good_answer base (ReleaseIP n c) (Released (Ok u)) = True"
| "good_answer base req r = False"

fun pc_ok :: "ip_config \<Rightarrow> memory_store allocator \<Rightarrow> ipam_call \<Rightarrow> request_pc \<Rightarrow> bool" where
  "pc_ok base a req AtConfig = allocating req"
| "pc_ok base a req AtStore = (allocating req \<longrightarrow> has_config a (call_network req))"
| "pc_ok base a req AtContains =
     (allocating req \<and> has_config a (call_network req) \<and> has_store a (call_network req))"
| "pc_ok base a req AtGateway =
     (allocating req \<and> has_config a (call_network req) \<and> has_store a (call_network req))"
| "pc_ok base a req AtSetGateway =
     (allocating req \<and> has_config a (call_network req) \<and> has_store a (call_network req) \<and> cfg_gateway base = [])"
| "pc_ok base a req (AtLoop x) =
     (allocating req \<and> has_gateway base a (call_network req) \<and> has_store a (call_network req))"
| "pc_ok base a req AtRelease = (\<not> allocating req \<and> has_store a (call_network req))"
| "pc_ok base a req (Returned r) = good_answer base req r"

text \<open>Nothing that a pointer points to goes away.\<close>

definition grows :: "ip_config \<Rightarrow> memory_store allocator \<Rightarrow> memory_store allocator \<Rightarrow> bool" where
  "grows base a b \<longleftrightarrow>
     (\<forall>n. (has_config a n \<longrightarrow> has_config b n) \<and> (has_gateway base a n \<longrightarrow> has_gateway base b n) \<and>
          (has_store a n \<longrightarrow> has_store b n))"

lemma pc_ok_grows: "pc_ok base a req pc \<Longrightarrow> grows base a b \<Longrightarrow> pc_ok base b req pc"
  by (cases pc) (auto simp: grows_def)

text \<open>What one step does to the reservations.\<close>

definition step_holds ::
  "ip_config \<Rightarrow> ipam_call \<Rightarrow> request_pc \<Rightarrow> memory_store allocator \<Rightarrow> request_pc \<Rightarrow> memory_store allocator \<Rightarrow> bool" where
  "step_holds base req pc a pc' b \<longleftrightarrow>
     holds b = holds a \<and> (\<forall>res. pc' = Returned (Allocated (Ok res)) \<longrightarrow> pc = pc') \<or>
     (\<exists>addr. pc = AtLoop addr \<and> holds a (call_network req) (next_ip addr) = None \<and> leasable base (next_ip addr) \<and>
        pc' = Returned (Allocated (Ok (lease_of (set_gateway base) (next_ip addr)))) \<and>
        holds b = (holds a)(call_network req := (holds a (call_network req))(next_ip addr \<mapsto> call_container req))) \<or>
     pc = AtRelease \<and>
        holds b = (holds a)(call_network req := (\<lambda>x. if holds a (call_network req) x = Some (call_container req) then None
          else holds a (call_network req) x))"

lemma holds_store_update: "holds (store_update n s a) = (holds a)(n := mem_holder s)"
  by (simp add: holds_def store_update_def fun_eq_iff)

lemma alloc_ok_store_update:
  "mem_alloc.alloc_ok a \<Longrightarrow> mem_ok s \<Longrightarrow> mem_alloc.alloc_ok (store_update n s a)"
  by (simp add: mem_alloc.alloc_ok_def store_update_def)

lemma configs_store_update [simp]: "al_configs (store_update n s a) = al_configs a"
  by (simp add: store_update_def)

lemma grows_store_update: "grows base a (store_update n s a)"
  by (simp add: grows_def has_config_def has_gateway_def has_store_def store_update_def)

lemma grows_refl [simp]: "grows base a a"
  by (simp add: grows_def)

lemma configs_of_inv:
  "alloc_inv base a \<Longrightarrow> al_configs a n = Some cfg \<Longrightarrow> cfg = base \<or> cfg = set_gateway base"
  by (auto simp: alloc_inv_def)

lemma store_of_inv: "alloc_inv base a \<Longrightarrow> al_stores a n = Some s \<Longrightarrow> mem_ok s \<and> holds a n = mem_holder s"
  by (auto simp: alloc_inv_def mem_alloc.alloc_ok_def holds_def)

lemma set_gateway_fields [simp]:
  "cfg_ip (set_gateway c) = cfg_ip c" "cfg_gateway (set_gateway c) = gateway_of c"
  by (simp_all add: set_gateway_def gateway_of_def)

lemma gateway_of_nonempty [simp]: "gateway_of base \<noteq> []"
  using length_next_ip(2) [of "net_ip (cfg_ip base)"] by (simp add: gateway_of_def set_gateway_def)

text \<open>What a step of a request establishes, for the request and for the allocator.\<close>

definition step_good ::
  "ip_config \<Rightarrow> ipam_call \<Rightarrow> request_pc \<Rightarrow> memory_store allocator \<Rightarrow> request_pc \<times> memory_store allocator \<Rightarrow> bool" where
  "step_good base req pc a q \<longleftrightarrow>
     alloc_inv base (snd q) \<and> pc_ok base (snd q) req (fst q) \<and> grows base a (snd q) \<and>
     step_holds base req pc a (fst q) (snd q)"

lemma step_good_same:
  assumes "alloc_inv base a" "pc_ok base a req pc'" "\<And>res. pc' = Returned (Allocated (Ok res)) \<Longrightarrow> pc = pc'"
  shows "step_good base req pc a (pc', a)"
  using assms by (auto simp: step_good_def step_holds_def)

lemma config_step_good:
  assumes "alloc_inv base a" "allocating req"
  shows "step_good base req AtConfig a (request_step base req AtConfig a)"
  using assms
  by (auto simp: step_good_def step_holds_def after_call_def get_config_def config_factory_create_def
      alloc_inv_def mem_alloc.alloc_ok_def holds_def grows_def has_config_def has_gateway_def has_store_def
      split: option.splits)

lemma store_step_good:
  assumes "alloc_inv base a" "pc_ok base a req AtStore"
  shows "step_good base req AtStore a (request_step base req AtStore a)"
proof (cases "al_stores a (call_network req)")
  case None
  let ?b = "store_update (call_network req) new_store a"
  have "request_step base req AtStore a =
      (case req of AllocateIP n c \<Rightarrow> AtContains | ReleaseIP n c \<Rightarrow> AtRelease, ?b)"
    using None by (simp add: after_call_def get_store_def store_factory_create_def store_update_def)
  moreover have "holds ?b = holds a"
    using None by (simp add: holds_store_update fun_eq_iff) (simp add: holds_def)
  moreover have "has_store ?b (call_network req)"
    by (simp add: has_store_def store_update_def)
  ultimately show ?thesis
    using assms
    by (auto simp: step_good_def step_holds_def alloc_inv_def alloc_ok_store_update grows_store_update
        has_config_def split: ipam_call.splits)
next
  case (Some s)
  then have "request_step base req AtStore a =
      (case req of AllocateIP n c \<Rightarrow> AtContains | ReleaseIP n c \<Rightarrow> AtRelease, a)"
    by (simp add: after_call_def get_store_def)
  with Some assms show ?thesis
    by (auto simp: step_good_def step_holds_def has_store_def split: ipam_call.splits)
qed

lemma loop_step_good:
  assumes inv: "alloc_inv base a" and pc: "pc_ok base a req (AtLoop addr)"
  shows "step_good base req (AtLoop addr) a (request_step base req (AtLoop addr) a)"
proof -
  let ?x = "next_ip addr" and ?g = "set_gateway base"
  obtain n c where req: "req = AllocateIP n c"
    using pc by (cases req) auto
  obtain s where s: "al_stores a n = Some s"
    using pc by (auto simp: req has_store_def)
  note store = store_of_inv [OF inv s]
  have step: "request_step base req (AtLoop addr) a = loop_step req ?g addr s a"
    using pc s by (simp add: with_config_def with_store_def has_gateway_def req)
  consider (out) "\<not> net_contains (cfg_ip base) ?x"
    | (gateway) "net_contains (cfg_ip base) ?x" "ip_equal (gateway_of base) ?x"
    | (candidate) "leasable base ?x"
    using contains_next_ip(1) [of "cfg_ip base" addr] by (auto simp: leasable_def)
  then show ?thesis
  proof cases
    case out
    then show ?thesis
      using step_good_same [OF inv, of req "Returned (Allocated (Err (Sentinel NoMoreAddressesError)))" "AtLoop addr"]
      unfolding step by (simp add: loop_step_def req)
  next
    case gateway
    then have "loop_step req ?g addr s a = (AtLoop ?x, a)"
      by (simp add: loop_step_def)
    then show ?thesis
      using step_good_same [OF inv, of req "AtLoop ?x" "AtLoop addr"] pc step by simp
  next
    case candidate
    then have len: "length ?x = 4" by (simp add: leasable_def)
    show ?thesis
    proof (cases "mem_holder s ?x")
      case None
      then obtain t where t: "mem_reserve c ?x s = (Ok True, t)" "mem_ok t" "mem_holder t = (mem_holder s)(?x \<mapsto> c)"
        using mem.reserve_free [of s ?x c] store len by (auto simp: mem_ops_def)
      then have result: "loop_step req ?g addr s a =
          (Returned (Allocated (Ok (lease_of ?g ?x))), store_update n t a)"
        using candidate by (simp add: loop_step_def leasable_def req)
      have now: "holds (store_update n t a) = (holds a)(n := (holds a n)(?x \<mapsto> c))"
        using t(3) store by (simp add: holds_store_update)
      have "alloc_inv base (store_update n t a)"
        using inv t(2) candidate unfolding alloc_inv_def now by (simp add: alloc_ok_store_update)
      moreover have "good_answer base req (Allocated (Ok (lease_of ?g ?x)))"
        using candidate by (auto simp: req)
      ultimately show ?thesis
        using None store now candidate unfolding step result
        by (simp add: step_good_def step_holds_def grows_store_update req)
    next
      case (Some d)
      then have "mem_reserve c ?x s = (Ok False, s)"
        using len by (auto simp: mem_reserve_def mem_holder_def)
      moreover have "store_update n s a = a"
        using s by (simp add: store_update_def fun_upd_idem)
      ultimately have "loop_step req ?g addr s a = (AtLoop ?x, a)"
        using candidate by (simp add: loop_step_def leasable_def req)
      then show ?thesis
        using step_good_same [OF inv, of req "AtLoop ?x" "AtLoop addr"] pc step by simp
    qed
  qed
qed

lemma gateway_step_good:
  assumes inv: "alloc_inv base a" and pc: "pc_ok base a req pc" "pc = AtContains \<or> pc = AtGateway"
  shows "step_good base req pc a (request_step base req pc a)"
proof -
  obtain n c where req: "req = AllocateIP n c"
    using pc by (cases req) auto
  obtain s cfg where s: "al_stores a n = Some s" "al_configs a n = Some cfg"
    using pc by (auto simp: req has_store_def has_config_def)
  have "cfg_gateway cfg = [] \<Longrightarrow> cfg = base" "cfg_gateway cfg \<noteq> [] \<Longrightarrow> cfg = set_gateway base"
    using configs_of_inv [OF inv s(2)] by (auto simp: set_gateway_def)
  then show ?thesis
    using pc s by (auto simp: req with_store_def with_config_def has_gateway_def intro!: step_good_same [OF inv])
qed

lemma set_gateway_step_good:
  assumes inv: "alloc_inv base a" and pc: "pc_ok base a req AtSetGateway"
  shows "step_good base req AtSetGateway a (request_step base req AtSetGateway a)"
proof -
  obtain n c where req: "req = AllocateIP n c"
    using pc by (cases req) auto
  obtain cfg where cfg: "al_configs a n = Some cfg"
    using pc by (auto simp: req has_config_def)
  have "cfg\<lparr>cfg_gateway := next_ip (net_ip (cfg_ip cfg))\<rparr> = set_gateway base"
    using configs_of_inv [OF inv cfg] pc by (auto simp: set_gateway_def)
  then have step: "request_step base req AtSetGateway a =
      (AtLoop (next_ip (net_ip (cfg_ip cfg))), a\<lparr>al_configs := (al_configs a)(n \<mapsto> set_gateway base)\<rparr>)"
    using cfg by (simp add: req with_config_def)
  show ?thesis
    using inv pc unfolding step
    by (auto simp: req step_good_def step_holds_def alloc_inv_def mem_alloc.alloc_ok_def holds_def
        grows_def has_config_def has_gateway_def has_store_def)
qed

lemma release_step_good:
  assumes inv: "alloc_inv base a" and pc: "pc_ok base a req AtRelease"
  shows "step_good base req AtRelease a (request_step base req AtRelease a)"
proof -
  obtain n c where req: "req = ReleaseIP n c"
    using pc by (cases req) auto
  obtain s where s: "al_stores a n = Some s"
    using pc by (auto simp: req has_store_def)
  note store = store_of_inv [OF inv s]
  obtain t where t: "mem_release_by_id c s = (Ok (), t)" "mem_ok t"
      "mem_holder t = (\<lambda>x. if mem_holder s x = Some c then None else mem_holder s x)"
    using mem.release [of s c] store by (auto simp: mem_ops_def)
  have step: "request_step base req AtRelease a = (Returned (Released (Ok ())), store_update n t a)"
    using s t by (simp add: req with_store_def)
  have now: "holds (store_update n t a) =
      (holds a)(n := (\<lambda>x. if holds a n x = Some c then None else holds a n x))"
    using t(3) store by (simp add: holds_store_update fun_eq_iff)
  have "alloc_inv base (store_update n t a)"
    using inv t(2) unfolding alloc_inv_def now by (auto simp: alloc_ok_store_update split: if_splits)
  then show ?thesis
    using now unfolding step by (simp add: req step_good_def step_holds_def grows_store_update cong: if_cong)
qed

lemma request_step_good:
  assumes "alloc_inv base a" "pc_ok base a req pc"
  shows "step_good base req pc a (request_step base req pc a)"
proof (cases pc)
  case (Returned r)
  with assms show ?thesis
    by (simp add: step_good_def step_holds_def)
next
  case AtConfig
  have "allocating req" using assms(2) AtConfig by simp
  from config_step_good [OF assms(1) this] AtConfig show ?thesis by (simp only:)
next
  case AtStore
  from store_step_good [OF assms [unfolded AtStore]] AtStore show ?thesis by (simp only:)
next
  case AtContains
  from gateway_step_good [OF assms] AtContains show ?thesis by blast
next
  case AtGateway
  from gateway_step_good [OF assms] AtGateway show ?thesis by blast
next
  case AtSetGateway
  from set_gateway_step_good [OF assms [unfolded AtSetGateway]] AtSetGateway show ?thesis by (simp only:)
next
  case (AtLoop addr)
  from loop_step_good [OF assms [unfolded AtLoop]] AtLoop show ?thesis by (simp only:)
next
  case AtRelease
  from release_step_good [OF assms [unfolded AtRelease]] AtRelease show ?thesis by (simp only:)
qed

section \<open>The invariant of any interleaving\<close>

definition requests_inv :: "ip_config \<Rightarrow> requests \<Rightarrow> bool" where
  "requests_inv base s \<longleftrightarrow>
     alloc_inv base (rq_alloc s) \<and> (\<forall>(req, pc) \<in> set (rq_pcs s). pc_ok base (rq_alloc s) req pc)"

lemma turn_cases:
  assumes "turn base i s = (es, t)"
  obtains (idle) "length (rq_pcs s) \<le> i" "es = []" "t = s"
  | (step) req pc pc' b where
      "i < length (rq_pcs s)" "rq_pcs s ! i = (req, pc)" "request_step base req pc (rq_alloc s) = (pc', b)"
      "es = (case new_answer pc pc' of None \<Rightarrow> [] | Some r \<Rightarrow> [(req, r)])"
      "t = \<lparr>rq_alloc = b, rq_pcs = (rq_pcs s)[i := (req, pc')]\<rparr>"
  using assms
  by (cases "i < length (rq_pcs s)"; cases "rq_pcs s ! i";
      cases "request_step base (fst (rq_pcs s ! i)) (snd (rq_pcs s ! i)) (rq_alloc s)")
     (auto simp: turn_def)

lemma set_list_update_split:
  "i < length xs \<Longrightarrow> y \<in> set (xs[i := z]) \<Longrightarrow> y = z \<or> (\<exists>j < length xs. j \<noteq> i \<and> y = xs ! j)"
  by (auto simp: in_set_conv_nth nth_list_update split: if_splits)

lemma turn_inv:
  assumes inv: "requests_inv base s" and turn: "turn base i s = (es, t)"
  shows "requests_inv base t"
  using turn
proof (cases rule: turn_cases)
  case idle
  with inv show ?thesis by simp
next
  case (step req pc pc' b)
  have "(req, pc) \<in> set (rq_pcs s)"
    using step(1,2) nth_mem by metis
  then have "step_good base req pc (rq_alloc s) (pc', b)"
    using request_step_good [of base "rq_alloc s" req pc] inv step(3) by (auto simp: requests_inv_def)
  then have good: "alloc_inv base b" "pc_ok base b req pc'" "grows base (rq_alloc s) b"
    by (simp_all add: step_good_def)
  have "pc_ok base b r q" if "(r, q) \<in> set ((rq_pcs s)[i := (req, pc')])" for r q
    using set_list_update_split [OF step(1) that]
  proof
    assume "\<exists>j < length (rq_pcs s). j \<noteq> i \<and> (r, q) = rq_pcs s ! j"
    then have "(r, q) \<in> set (rq_pcs s)" by auto
    then have "pc_ok base (rq_alloc s) r q" using inv by (auto simp: requests_inv_def)
    then show ?thesis using good(3) by (rule pc_ok_grows)
  qed (use good in simp)
  then show ?thesis
    using good(1) by (auto simp: step(5) requests_inv_def)
qed

lemma run_schedule_inv:
  "requests_inv base s \<Longrightarrow> run_schedule base sched s = (es, t) \<Longrightarrow> requests_inv base t"
  by (induction sched arbitrary: s es) (auto split: prod.splits dest: turn_inv)

lemma pool_leasable: "x \<in> set (pool c) \<Longrightarrow> c \<in> {base, set_gateway base} \<Longrightarrow> leasable base x"
  using pool_sound [of x c base] by (simp add: leasable_def)

lemma reached_alloc_inv:
  assumes run: "ipam_run base calls new_allocator = (answers, a)"
  shows "alloc_inv base a"
proof -
  have inv: "spec_inv base (mem_alloc.abs_alloc base a)" by (rule reached_inv [OF run])
  have "leasable base x" if "holds a n x \<noteq> None" for n x
    using inv that pool_leasable [of x base base] pool_leasable [of x "set_gateway base" base]
    unfolding spec_inv_def holds_abs by blast
  moreover have "cfg = base \<or> cfg = set_gateway base" if "al_configs a n = Some cfg" for n cfg
  proof -
    have "sp_config (mem_alloc.abs_alloc base a) n = cfg"
      using that by (simp add: mem_alloc.abs_alloc_def)
    with inv show ?thesis by (auto simp: spec_inv_def)
  qed
  ultimately show ?thesis
    using reached_ok [OF run] by (simp add: alloc_inv_def)
qed

lemma launch_inv: "alloc_inv base a \<Longrightarrow> requests_inv base (launch reqs a)"
proof -
  have "pc_ok base a req (request_start req)" for req by (cases req) simp_all
  then show "alloc_inv base a \<Longrightarrow> requests_inv base (launch reqs a)"
    by (auto simp: requests_inv_def launch_def)
qed

text \<open>
  C13: Whatever requests run, for whatever containers, and however their steps are interleaved: every
  address that a store holds is a four-byte address of the subnet and not the gateway, the
  configuration of a network is the daemon's, with the gateway filled in or not yet, and every
  request that has returned has leased such an address, or has got one of the two documented
  errors; none has panicked.
\<close>

theorem concurrent_requests_keep_invariant:
  assumes run: "ipam_run base calls new_allocator = (answers, a)"
    and sched: "run_schedule base sched (launch reqs a) = (events, s)"
  shows "(\<forall>n x. holds (rq_alloc s) n x \<noteq> None \<longrightarrow>
      length x = 4 \<and> net_contains (cfg_ip base) x \<and> \<not> ip_equal (gateway_of base) x) \<and>
    (\<forall>n cfg. al_configs (rq_alloc s) n = Some cfg \<longrightarrow> cfg = base \<or> cfg = set_gateway base) \<and>
    (\<forall>(req, pc) \<in> set (rq_pcs s). \<forall>r. pc = Returned r \<longrightarrow>
      (case req of
         AllocateIP n c \<Rightarrow>
           r = Allocated (Err (Sentinel AlreadyOnNetworkError)) \<or>
           r = Allocated (Err (Sentinel NoMoreAddressesError)) \<or>
           (\<exists>x. r = Allocated (Ok (lease_of (set_gateway base) x)) \<and> leasable base x)
       | ReleaseIP n c \<Rightarrow> r = Released (Ok ())))"
proof -
  have inv: "requests_inv base s"
    using run_schedule_inv [OF launch_inv [OF reached_alloc_inv [OF run]] sched] .
  have answer: "case req of
         AllocateIP n c \<Rightarrow>
           r = Allocated (Err (Sentinel AlreadyOnNetworkError)) \<or>
           r = Allocated (Err (Sentinel NoMoreAddressesError)) \<or>
           (\<exists>x. r = Allocated (Ok (lease_of (set_gateway base) x)) \<and> leasable base x)
       | ReleaseIP n c \<Rightarrow> r = Released (Ok ())" if "good_answer base req r" for req r
    using that by (cases "(base, req, r)" rule: good_answer.cases) auto
  show ?thesis
    using inv answer unfolding requests_inv_def alloc_inv_def leasable_def
    by (fastforce simp: leasable_def)
qed

lemma concurrent_requests_keep_invariant_witness:
  "case run_schedule lan [0, 0, 0, 1, 1, 1, 2, 0, 0, 2, 0, 1, 1, 1, 1]
      (launch [AllocateIP ''n'' ''c'', AllocateIP ''n'' ''c'', ReleaseIP ''n'' ''c''] new_allocator) of
     (events, s) \<Rightarrow> \<forall>n x. holds (rq_alloc s) n x \<noteq> None \<longrightarrow> length x = 4 \<and> net_contains (cfg_ip lan) x"
proof -
  obtain events s where sched: "run_schedule lan [0, 0, 0, 1, 1, 1, 2, 0, 0, 2, 0, 1, 1, 1, 1]
      (launch [AllocateIP ''n'' ''c'', AllocateIP ''n'' ''c'', ReleaseIP ''n'' ''c''] new_allocator) = (events, s)"
    by (rule prod.exhaust)
  from concurrent_requests_keep_invariant [OF _ sched, of "[]"] show ?thesis
    unfolding sched prod.case by simp
qed

section \<open>Every request returns\<close>

text \<open>
  The number of steps a request may still take: the addresses of the subnet above the one it is
  at, and the steps before the loop.
\<close>

definition addresses_above :: "ip_config \<Rightarrow> nat \<Rightarrow> ip set" where
  "addresses_above base k = {x. length x = 4 \<and> net_contains (cfg_ip base) x \<and> k < set_bytes x}"

definition subnet_size :: "ip_config \<Rightarrow> nat" where
  "subnet_size base = card {x. length x = 4 \<and> net_contains (cfg_ip base) x}"

fun steps_left :: "ip_config \<Rightarrow> request_pc \<Rightarrow> nat" where
  "steps_left base AtConfig = subnet_size base + 6"
| "steps_left base AtStore = subnet_size base + 5"
| "steps_left base AtContains = subnet_size base + 4"
| "steps_left base AtGateway = subnet_size base + 3"
| "steps_left base AtSetGateway = subnet_size base + 2"
| "steps_left base (AtLoop x) = card (addresses_above base (set_bytes (to4 x))) + 1"
| "steps_left base AtRelease = 1"
| "steps_left base (Returned r) = 0"

lemma finite_addresses: "finite {x :: ip. length x = 4}"
  using finite_lists_length_eq [of "UNIV :: byte set" 4] by simp

lemma finite_addresses_above: "finite (addresses_above base k)"
  by (rule finite_subset [OF _ finite_addresses]) (auto simp: addresses_above_def)

lemma addresses_above_le: "card (addresses_above base k) \<le> subnet_size base"
  unfolding subnet_size_def
  by (rule card_mono [OF finite_subset [OF _ finite_addresses]]) (auto simp: addresses_above_def)

lemma addresses_above_less [simp]:
  "card (addresses_above base k) < Suc (Suc (subnet_size base))"
  "card (addresses_above base k) < Suc (subnet_size base)"
  using addresses_above_le [of base k] by simp_all

lemma addresses_above_next:
  assumes "net_contains (cfg_ip base) (next_ip x)"
  shows "card (addresses_above base (set_bytes (to4 (next_ip x)))) < card (addresses_above base (set_bytes (to4 x)))"
proof (rule psubset_card_mono [OF finite_addresses_above])
  note next_ip = contains_next_ip [OF assms]
  have "next_ip x \<in> addresses_above base (set_bytes (to4 x))"
    "next_ip x \<notin> addresses_above base (set_bytes (to4 (next_ip x)))"
    using assms next_ip by (simp_all add: addresses_above_def)
  moreover have "addresses_above base (set_bytes (to4 (next_ip x))) \<subseteq> addresses_above base (set_bytes (to4 x))"
    using next_ip by (auto simp: addresses_above_def)
  ultimately show
    "addresses_above base (set_bytes (to4 (next_ip x))) \<subset> addresses_above base (set_bytes (to4 x))"
    by blast
qed

lemma loop_step_decreases:
  "cfg_ip cfg = cfg_ip base \<Longrightarrow>
   steps_left base (fst (loop_step req cfg x s a)) < steps_left base (AtLoop x)"
  using addresses_above_next [of base x] by (simp add: loop_step_def split: prod.splits outcome.splits)

lemma request_step_decreases:
  assumes inv: "alloc_inv base a" and ok: "pc_ok base a req pc" and running: "\<forall>r. pc \<noteq> Returned r"
  shows "steps_left base (fst (request_step base req pc a)) < steps_left base pc"
proof (cases pc)
  case (AtLoop x)
  obtain s where "al_stores a (call_network req) = Some s" "al_configs a (call_network req) = Some (set_gateway base)"
    using ok by (auto simp: AtLoop has_store_def has_gateway_def)
  then show ?thesis
    using loop_step_decreases [of "set_gateway base" base req x s a]
    by (simp only: AtLoop request_step.simps with_config_def with_store_def option.case set_gateway_fields)
qed (use running in \<open>auto simp: after_call_def with_store_def with_config_def
      split: prod.splits outcome.splits option.splits ipam_call.splits\<close>)

text \<open>A step of another request leaves a request where it is; a step of its own brings it nearer to its end.\<close>

lemma turn_steps_left:
  assumes inv: "requests_inv base s" and turn: "turn base i s = (es, t)" and j: "j < length (rq_pcs s)"
  shows "steps_left base (snd (rq_pcs t ! j)) + (if i = j then 1 else 0) \<le> max (steps_left base (snd (rq_pcs s ! j)))
      (if i = j then 1 else 0) \<and>
    length (rq_pcs t) = length (rq_pcs s) \<and> fst (rq_pcs t ! j) = fst (rq_pcs s ! j)"
  using turn
proof (cases rule: turn_cases)
  case idle
  with j show ?thesis by auto
next
  case (step req pc pc' b)
  have "(req, pc) \<in> set (rq_pcs s)"
    using step(1,2) nth_mem by metis
  then have ok: "alloc_inv base (rq_alloc s)" "pc_ok base (rq_alloc s) req pc"
    using inv by (auto simp: requests_inv_def)
  have "steps_left base pc' + 1 \<le> max (steps_left base pc) 1"
  proof (cases "\<exists>r. pc = Returned r")
    case True
    then show ?thesis using step(3) by auto
  next
    case False
    then show ?thesis using request_step_decreases [OF ok] step(3) by simp
  qed
  then show ?thesis
    using step j by (auto simp: nth_list_update)
qed

lemma run_schedule_steps_left:
  assumes "requests_inv base s" "run_schedule base sched s = (es, t)" "j < length (rq_pcs s)"
  shows "steps_left base (snd (rq_pcs t ! j)) \<le> steps_left base (snd (rq_pcs s ! j)) - count_list sched j \<and>
    length (rq_pcs t) = length (rq_pcs s) \<and> fst (rq_pcs t ! j) = fst (rq_pcs s ! j)"
  using assms
proof (induction sched arbitrary: s es)
  case (Cons i sched)
  obtain e u es' where u: "turn base i s = (e, u)" "run_schedule base sched u = (es', t)"
    using Cons.prems(2) by (auto split: prod.splits)
  note step = turn_steps_left [OF Cons.prems(1) u(1) Cons.prems(3)]
  with Cons.IH [OF turn_inv [OF Cons.prems(1) u(1)] u(2)] Cons.prems(3) show ?case
    by (auto split: if_splits)
qed simp

lemma steps_left_0: "steps_left base pc = 0 \<Longrightarrow> \<exists>r. pc = Returned r"
  by (cases pc) auto

lemma launch_nth:
  "i < length reqs \<Longrightarrow> rq_pcs (launch reqs a) ! i = (reqs ! i, request_start (reqs ! i))"
  by (simp add: launch_def)

text \<open>
  C14: No request waits for another one for ever: whatever the other requests do, a request has
  returned when it has taken as many steps as the subnet has addresses, and six more.
\<close>

theorem concurrent_requests_terminate:
  assumes run: "ipam_run base calls new_allocator = (answers, a)"
    and sched: "run_schedule base sched (launch reqs a) = (events, s)"
    and i: "i < length reqs"
    and steps: "subnet_size base + 6 \<le> count_list sched i"
  shows "\<exists>r. rq_pcs s ! i = (reqs ! i, Returned r)"
proof -
  note inv = launch_inv [OF reached_alloc_inv [OF run]]
  have "i < length (rq_pcs (launch reqs a))" using i by (simp add: launch_def)
  note left = run_schedule_steps_left [OF inv sched this]
  have "steps_left base (request_start (reqs ! i)) \<le> subnet_size base + 6"
    by (cases "reqs ! i") simp_all
  then have "steps_left base (snd (rq_pcs s ! i)) = 0"
    using left steps launch_nth [OF i, of a] by simp
  then show ?thesis
    using steps_left_0 left launch_nth [OF i, of a] by (metis fst_conv prod.collapse)
qed

lemma concurrent_requests_terminate_witness:
  "\<exists>r. rq_pcs (snd (run_schedule lan (concat (replicate (subnet_size lan + 6) [0, 1]))
      (launch [AllocateIP ''n'' ''c'', AllocateIP ''n'' ''d''] new_allocator))) ! 1 =
    (AllocateIP ''n'' ''d'', Returned r)"
proof -
  have count: "count_list (concat (replicate k [0, Suc 0])) (Suc 0) = k" for k
    by (induction k) simp_all
  have "\<exists>r. rq_pcs (snd (run_schedule lan (concat (replicate (subnet_size lan + 6) [0, 1]))
      (launch [AllocateIP ''n'' ''c'', AllocateIP ''n'' ''d''] new_allocator))) ! 1 =
    ([AllocateIP ''n'' ''c'', AllocateIP ''n'' ''d''] ! 1, Returned r)"
    by (rule concurrent_requests_terminate [where calls = "[]" and base = lan, OF _ prod.collapse [symmetric]])
       (simp_all add: count)
  then show ?thesis by simp
qed

end
