(* ===== verification/Ipam_Linear.thy ===== *)
theory Ipam_Linear
  imports Ipam_Concurrent "HOL-Library.Multiset"
begin

text \<open>
  Concurrent allocations are linearizable as long as no two of them are for the same container and
  network: what the clients see, and what the stores hold, is what calls made one after the
  other, in the order of the answers, bring about.  (For two requests of one container it is not so,
  see \<open>Ipam_Double\<close>.)
\<close>

section \<open>Different containers do not disturb each other\<close>

text \<open>
  In an IPv4 subnet given by a prefix the addresses to try are the same before and after the
  first allocation fixes the gateway.
\<close>

lemma next_ip_short: "to4 a = [] \<Longrightarrow> length (next_ip a) = 1"
proof -
  assume "to4 a = []"
  then have n: "next_ip a = nat_bytes 1" by (simp add: next_ip_def)
  have "length (nat_bytes 1) \<le> 1" by (simp only: length_nat_bytes) simp
  then show ?thesis using length_next_ip(2) [of a] unfolding n by (cases "nat_bytes 1") auto
qed

lemma candidates_set_gateway:
  assumes "net_contains (cfg_ip base) (next_ip (net_ip (cfg_ip base)))" "cfg_gateway base = []"
  shows "candidates (set_gateway base) (net_ip (cfg_ip base)) =
    candidates (set_gateway base) (next_ip (net_ip (cfg_ip base)))"
proof -
  have "ip_equal (gateway_of base) (next_ip (net_ip (cfg_ip base)))"
    using assms(2) by (simp add: gateway_of_def set_gateway_def ip_equal_def)
  then show ?thesis
    using assms(1) by (subst candidates_step) simp_all
qed

lemma pool_set_gateway:
  assumes net: "length (to4 (net_ip (cfg_ip base))) = 4" "net_mask (cfg_ip base) = cidr_mask ones 32" "ones \<le> 32"
  shows "pool (set_gateway base) = pool base"
proof (cases "cfg_gateway base = []")
  case False
  then show ?thesis by (simp add: set_gateway_def)
next
  case True
  let ?start = "net_ip (cfg_ip base)" and ?x = "next_ip (net_ip (cfg_ip base))"
  have pools: "pool (set_gateway base) = candidates (set_gateway base) ?start" "pool base = candidates (set_gateway base) ?x"
    using True by (simp_all add: pool_def first_ip_def)
  show ?thesis
  proof (cases "net_contains (cfg_ip base) ?x")
    case True
    from candidates_set_gateway [OF this \<open>cfg_gateway base = []\<close>] show ?thesis by (simp add: pools)
  next
    case out: False
    have "\<not> net_contains (cfg_ip base) (next_ip ?x)"
    proof
      assume inside: "net_contains (cfg_ip base) (next_ip ?x)"
      note facts = contains_next_ip [OF inside]
      have x: "length ?x = 4"
        using facts(1) next_ip_short [of ?x] length_to4 [of ?x] length_next_ip [of ?start]
        by (auto simp: to4_def split: if_splits)
      have "net_contains (cfg_ip base) (to4 ?start)"
        using net_contains_prefix [OF net net(1)] by simp
      with net_contains_between [OF net net(1) x facts(1) _ inside] facts(2) x out show False
        by (simp add: next_ip_def)
    qed
    with out show ?thesis by (simp add: pools candidates_stop)
  qed
qed

text \<open>
  What connects the interleaved requests with the abstract machine that has answered, one after
  the other, the requests that have returned: the reservations are the machine's, and a request
  in the loop has found every address before the next one held.
\<close>

fun pc_seen :: "ip_config \<Rightarrow> memory_store allocator \<Rightarrow> ipam_call \<Rightarrow> request_pc \<Rightarrow> bool" where
  "pc_seen base a req AtGateway = (call_container req \<notin> ran (holds a (call_network req)))"
| "pc_seen base a req AtSetGateway = (call_container req \<notin> ran (holds a (call_network req)))"
| "pc_seen base a req (AtLoop addr) =
     (call_container req \<notin> ran (holds a (call_network req)) \<and>
      (\<exists>tried. pool base = tried @ candidates (set_gateway base) addr \<and>
         (\<forall>x \<in> set tried. holds a (call_network req) x \<noteq> None)))"
| "pc_seen base a req pc = True"

definition agrees :: "ip_config \<Rightarrow> ipam_spec \<Rightarrow> memory_store allocator \<Rightarrow> bool" where
  "agrees base S a \<longleftrightarrow>
     sp_holder S = holds a \<and> (\<forall>n. sp_config S n = base \<or> sp_config S n = set_gateway base)"

text \<open>A step of a request: either nobody sees it, or it is the step of the machine that answers the request.\<close>

definition linear_step ::
  "ip_config \<Rightarrow> ipam_call \<Rightarrow> request_pc \<Rightarrow> memory_store allocator \<Rightarrow> request_pc \<times> memory_store allocator \<Rightarrow> bool" where
  "linear_step base req pc a q \<longleftrightarrow>
     (case new_answer pc (fst q) of
        None \<Rightarrow> holds (snd q) = holds a \<and> pc_seen base (snd q) req (fst q)
      | Some r \<Rightarrow> \<forall>S. agrees base S a \<longrightarrow> (\<exists>T. spec_step req S = (r, T) \<and> agrees base T (snd q)))"

lemma agrees_same: "agrees base S a \<Longrightarrow> agrees base (S\<lparr>sp_config := (sp_config S)(n := set_gateway (sp_config S n))\<rparr>) a"
  by (auto simp: agrees_def)

lemma agrees_lease:
  "agrees base S a \<Longrightarrow> holds b = (holds a)(n := (holds a n)(x \<mapsto> c)) \<Longrightarrow>
   agrees base (S\<lparr>sp_config := (sp_config S)(n := set_gateway (sp_config S n)),
     sp_holder := (sp_holder S)(n := (sp_holder S n)(x \<mapsto> c))\<rparr>) b"
  by (auto simp: agrees_def)

lemma holds_configs [simp]: "holds (a\<lparr>al_configs := m\<rparr>) = holds a"
  by (simp add: holds_def fun_eq_iff)

lemma find_none_append: "\<forall>x \<in> set xs. \<not> P x \<Longrightarrow> find P (xs @ ys) = find P ys"
  by (induction xs) auto

lemma contains_linear:
  assumes inv: "alloc_inv base a" and pc: "pc_ok base a (AllocateIP n c) AtContains"
  shows "linear_step base (AllocateIP n c) AtContains a (request_step base (AllocateIP n c) AtContains a)"
proof -
  obtain s where s: "al_stores a n = Some s"
    using pc by (auto simp: has_store_def)
  note store = store_of_inv [OF inv s]
  then have "mem_contains c s \<longleftrightarrow> c \<in> ran (holds a n)"
    by (simp add: mem_contains_iff)
  with s show ?thesis
    by (auto simp: linear_step_def with_store_def spec_allocate_def agrees_def)
qed

lemma start_linear:
  assumes inv: "alloc_inv base a" and pc: "pc_ok base a (AllocateIP n c) pc" "pc = AtGateway \<or> pc = AtSetGateway"
    and seen: "pc_seen base a (AllocateIP n c) pc" and pools: "pool (set_gateway base) = pool base"
  shows "linear_step base (AllocateIP n c) pc a (request_step base (AllocateIP n c) pc a)"
proof -
  obtain cfg where cfg: "al_configs a n = Some cfg"
    using pc by (auto simp: has_config_def)
  then have ip: "cfg_ip cfg = cfg_ip base" and g: "cfg_gateway cfg = [] \<longleftrightarrow> cfg = base \<and> cfg_gateway base = []"
    using configs_of_inv [OF inv cfg] by auto
  have "pool base = candidates (set_gateway base) (net_ip (cfg_ip base))"
    using pools by (simp add: pool_def first_ip_def)
  moreover have "pool base = candidates (set_gateway base) (next_ip (net_ip (cfg_ip base)))" if "cfg_gateway base = []"
    using that by (simp add: pool_def first_ip_def)
  ultimately show ?thesis
    using pc seen cfg ip g
    by (auto simp: linear_step_def with_config_def intro!: exI [of _ "[]"])
qed

lemma loop_linear:
  assumes inv: "alloc_inv base a" and pc: "pc_ok base a (AllocateIP n c) (AtLoop addr)"
    and seen: "pc_seen base a (AllocateIP n c) (AtLoop addr)" and pools: "pool (set_gateway base) = pool base"
  shows "linear_step base (AllocateIP n c) (AtLoop addr) a (request_step base (AllocateIP n c) (AtLoop addr) a)"
proof -
  let ?x = "next_ip addr" and ?g = "set_gateway base" and ?P = "\<lambda>x. holds a n x = None"
  obtain s where s: "al_stores a n = Some s" "al_configs a n = Some ?g"
    using pc by (auto simp: has_store_def has_gateway_def)
  note store = store_of_inv [OF inv s(1)]
  have step: "request_step base (AllocateIP n c) (AtLoop addr) a = loop_step (AllocateIP n c) ?g addr s a"
    using s by (simp add: with_config_def with_store_def)
  obtain tried where tried: "pool base = tried @ candidates ?g addr" "\<forall>x \<in> set tried. holds a n x \<noteq> None"
    using seen by auto
  have free: "c \<notin> ran (holds a n)" using seen by simp
  have same_pool: "pool (sp_config S n) = pool base" if "agrees base S a" for S
    using that pools by (auto simp: agrees_def dest: spec [of _ n])
  have find: "find ?P (pool base) = find ?P (candidates ?g addr)"
    using tried by (simp add: find_none_append)
  have spec: "spec_allocate n c S =
      (case find ?P (candidates ?g addr) of
         None \<Rightarrow> (Err (Sentinel NoMoreAddressesError), S\<lparr>sp_config := (sp_config S)(n := set_gateway (sp_config S n))\<rparr>)
       | Some x \<Rightarrow> (Ok (lease_of ?g x), S\<lparr>sp_config := (sp_config S)(n := set_gateway (sp_config S n)),
           sp_holder := (sp_holder S)(n := (sp_holder S n)(x \<mapsto> c))\<rparr>))" if "agrees base S a" for S
  proof -
    have "set_gateway (sp_config S n) = ?g" using that by (auto simp: agrees_def dest: spec [of _ n])
    then show ?thesis
      using that free find same_pool [OF that] by (simp add: spec_allocate_def agrees_def Let_def split: option.split)
  qed
  consider (out) "\<not> net_contains (cfg_ip base) ?x"
    | (gateway) "net_contains (cfg_ip base) ?x" "ip_equal (gateway_of base) ?x"
    | (candidate) "leasable base ?x"
    using contains_next_ip(1) [of "cfg_ip base" addr] by (auto simp: leasable_def)
  then show ?thesis
  proof cases
    case out
    then have "candidates ?g addr = []" by (simp add: candidates_stop)
    then show ?thesis
      using out spec agrees_same unfolding step by (auto simp: linear_step_def loop_step_def)
  next
    case gateway
    then have "candidates ?g addr = candidates ?g ?x" by (simp add: candidates_step)
    then show ?thesis
      using gateway tried free unfolding step by (auto simp: linear_step_def loop_step_def)
  next
    case candidate
    then have first: "candidates ?g addr = ?x # candidates ?g ?x" and len: "length ?x = 4"
      by (simp_all add: leasable_def candidates_step)
    show ?thesis
    proof (cases "holds a n ?x")
      case None
      then obtain t where t: "mem_reserve c ?x s = (Ok True, t)" "mem_holder t = (mem_holder s)(?x \<mapsto> c)"
        using mem.reserve_free [of s ?x c] store len by (auto simp: mem_ops_def)
      then have "holds (store_update n t a) = (holds a)(n := (holds a n)(?x \<mapsto> c))"
        using store by (simp add: holds_store_update)
      then show ?thesis
        using candidate t None spec agrees_lease first unfolding step
        by (simp add: linear_step_def loop_step_def leasable_def)
    next
      case (Some d)
      then have "mem_reserve c ?x s = (Ok False, s)"
        using len store by (auto simp: mem_reserve_def mem_holder_def)
      moreover have "store_update n s a = a"
        using s by (simp add: store_update_def fun_upd_idem)
      ultimately have "loop_step (AllocateIP n c) ?g addr s a = (AtLoop ?x, a)"
        using candidate by (simp add: loop_step_def leasable_def)
      moreover have "pool base = (tried @ [?x]) @ candidates ?g ?x" "\<forall>y \<in> set (tried @ [?x]). holds a n y \<noteq> None"
        using tried first Some by auto
      ultimately show ?thesis
        using free unfolding step linear_step_def by (auto intro!: exI [of _ "tried @ [?x]"])
    qed
  qed
qed

lemma request_step_linear:
  assumes inv: "alloc_inv base a" and pc: "pc_ok base a (AllocateIP n c) pc" and seen: "pc_seen base a (AllocateIP n c) pc"
    and pools: "pool (set_gateway base) = pool base"
  shows "linear_step base (AllocateIP n c) pc a (request_step base (AllocateIP n c) pc a)"
proof (cases pc)
  case AtConfig
  then show ?thesis
    by (auto simp: linear_step_def after_call_def get_config_def config_factory_create_def split: option.splits)
next
  case AtStore
  then show ?thesis
    by (auto simp: linear_step_def after_call_def get_store_def store_factory_create_def holds_def fun_eq_iff split: option.splits)
next
  case AtContains
  from contains_linear [OF inv] pc AtContains show ?thesis by blast
next
  case (AtLoop addr)
  from loop_linear [OF inv] pc seen pools AtLoop show ?thesis by blast
next
  case AtRelease
  with pc show ?thesis by simp
next
  case (Returned r)
  then show ?thesis by (simp add: linear_step_def)
qed (use start_linear [OF inv pc _ seen pools] in auto)

text \<open>A reservation for another container, or in another network, does not disturb a request.\<close>

lemma pc_seen_other:
  assumes seen: "pc_seen base a (AllocateIP m d) q"
    and step: "step_holds base (AllocateIP n c) pc a pc' b" "pc \<noteq> AtRelease"
    and other: "(m, d) \<noteq> (n, c)"
  shows "pc_seen base b (AllocateIP m d) q"
proof -
  consider "holds b = holds a" | x where "holds a n x = None" "holds b = (holds a)(n := (holds a n)(x \<mapsto> c))"
    using step by (auto simp: step_holds_def)
  then have ran: "d \<notin> ran (holds b m)" if "d \<notin> ran (holds a m)"
  proof cases
    case (2 x)
    then show ?thesis
      using that other by (cases "m = n") (simp_all add: ran_map_upd)
  qed (use that in simp)
  have held: "holds b m y \<noteq> None" if "holds a m y \<noteq> None" for y
    using step that by (auto simp: step_holds_def)
  show ?thesis
  proof (cases q)
    case (AtLoop addr)
    then obtain tried where "pool base = tried @ candidates (set_gateway base) addr"
        "\<forall>x \<in> set tried. holds a m x \<noteq> None" "d \<notin> ran (holds a m)"
      using seen by auto
    then show ?thesis
      using ran held AtLoop by auto
  qed (use seen ran in auto)
qed

definition linear_inv :: "ip_config \<Rightarrow> ipam_spec \<Rightarrow> requests \<Rightarrow> bool" where
  "linear_inv base S s \<longleftrightarrow>
     requests_inv base s \<and> agrees base S (rq_alloc s) \<and> distinct (map fst (rq_pcs s)) \<and>
     (\<forall>(req, pc) \<in> set (rq_pcs s). allocating req \<and> pc_seen base (rq_alloc s) req pc)"

lemma turn_linear:
  assumes inv: "linear_inv base S s" and turn: "turn base i s = (es, t)"
    and pools: "pool (set_gateway base) = pool base"
  shows "\<exists>T. spec_run (map fst es) S = (map snd es, T) \<and> linear_inv base T t"
  using turn
proof (cases rule: turn_cases)
  case idle
  with inv show ?thesis by simp
next
  case (step req pc pc' b)
  have mem: "(req, pc) \<in> set (rq_pcs s)"
    using step(1,2) nth_mem by metis
  then have ok: "alloc_inv base (rq_alloc s)" "pc_ok base (rq_alloc s) req pc" "pc_seen base (rq_alloc s) req pc" "allocating req"
    using inv by (auto simp: linear_inv_def requests_inv_def)
  then obtain n c where req: "req = AllocateIP n c" by (cases req) auto
  have linear: "linear_step base req pc (rq_alloc s) (pc', b)"
    using request_step_linear [of base "rq_alloc s" n c pc] ok pools step(3) req by simp
  have holds: "step_holds base (AllocateIP n c) pc (rq_alloc s) pc' b" "pc \<noteq> AtRelease"
    using request_step_good [OF ok(1,2)] step(3) ok(2) by (auto simp: req step_good_def)
  have spec: "\<exists>T. spec_run (map fst es) S = (map snd es, T) \<and> agrees base T b \<and> pc_seen base b req pc'"
  proof (cases "new_answer pc pc'")
    case None
    then show ?thesis
      using linear inv step(4) by (auto simp: linear_step_def linear_inv_def agrees_def)
  next
    case (Some r)
    then have "pc_seen base b req pc'" by (cases pc; cases pc') simp_all
    with Some show ?thesis
      using linear inv step(4) by (fastforce simp: linear_step_def linear_inv_def)
  qed
  have others: "allocating r \<and> pc_seen base b r q" if "j < length (rq_pcs s)" "j \<noteq> i" "rq_pcs s ! j = (r, q)" for j r q
  proof -
    have "(r, q) \<in> set (rq_pcs s)" using that nth_mem by metis
    then have r: "allocating r" "pc_seen base (rq_alloc s) r q" using inv by (auto simp: linear_inv_def)
    then obtain m d where md: "r = AllocateIP m d" by (cases r) auto
    have distinct: "distinct (map fst (rq_pcs s))" using inv by (simp add: linear_inv_def)
    have "map fst (rq_pcs s) ! j \<noteq> map fst (rq_pcs s) ! i"
      using nth_eq_iff_index_eq [OF distinct, of j i] that(1,2) step(1) by simp
    then have "r \<noteq> req"
      using that(1,3) step(1,2) by simp
    then show ?thesis
      using r pc_seen_other [OF _ holds, of m d q] by (auto simp: md req)
  qed
  have "\<forall>(r, q) \<in> set (rq_pcs t). allocating r \<and> pc_seen base b r q" if "pc_seen base b req pc'"
  proof (clarify, rule conjI)
    fix r q
    assume "(r, q) \<in> set (rq_pcs t)"
    then have "(r, q) = (req, pc') \<or> (\<exists>j < length (rq_pcs s). j \<noteq> i \<and> (r, q) = rq_pcs s ! j)"
      using set_list_update_split [OF step(1), of "(r, q)" "(req, pc')"] by (simp add: step(5))
    then have "allocating r \<and> pc_seen base b r q"
      using others that ok(4) by (metis prod.inject)
    then show "allocating r" "pc_seen base b r q" by simp_all
  qed
  moreover have "map fst (rq_pcs t) = map fst (rq_pcs s)"
    using step(1,2) by (simp add: step(5) map_update list_update_same_conv)
  moreover have "requests_inv base t"
    using turn_inv [OF _ turn] inv by (simp add: linear_inv_def)
  ultimately show ?thesis
    using spec inv step(5) by (auto simp: linear_inv_def)
qed

lemma spec_run_append:
  "spec_run (xs @ ys) S =
     (case spec_run xs S of (rs, T) \<Rightarrow> (case spec_run ys T of (qs, U) \<Rightarrow> (rs @ qs, U)))"
  by (induction xs arbitrary: S) (auto split: prod.splits)

lemma run_schedule_linear:
  assumes "linear_inv base S s" "run_schedule base sched s = (es, t)" "pool (set_gateway base) = pool base"
  shows "\<exists>T. spec_run (map fst es) S = (map snd es, T) \<and> linear_inv base T t"
  using assms
proof (induction sched arbitrary: S s es)
  case (Cons i sched)
  obtain e u es' where u: "turn base i s = (e, u)" "run_schedule base sched u = (es', t)" "es = e @ es'"
    using Cons.prems(2) by (auto split: prod.splits)
  obtain U where U: "spec_run (map fst e) S = (map snd e, U)" "linear_inv base U u"
    using turn_linear [OF Cons.prems(1) u(1) Cons.prems(3)] by blast
  obtain T where "spec_run (map fst es') U = (map snd es', T)" "linear_inv base T t"
    using Cons.IH [OF U(2) u(2) Cons.prems(3)] by blast
  with U(1) u(3) show ?case by (auto simp: spec_run_append)
qed auto

text \<open>The answers that are seen are those of the requests that have returned, each seen once.\<close>

fun answer_of :: "ipam_call \<times> request_pc \<Rightarrow> (ipam_call \<times> ipam_answer) option" where
  "answer_of (req, Returned r) = Some (req, r)"
| "answer_of (req, pc) = None"

definition answered :: "requests \<Rightarrow> (ipam_call \<times> ipam_answer) list" where
  "answered s = List.map_filter answer_of (rq_pcs s)"

lemma map_filter_update:
  "i < length xs \<Longrightarrow>
   mset (List.map_filter f (xs[i := y])) + mset (case f (xs ! i) of None \<Rightarrow> [] | Some z \<Rightarrow> [z]) =
   mset (List.map_filter f xs) + mset (case f y of None \<Rightarrow> [] | Some z \<Rightarrow> [z])"
proof (induction xs arbitrary: i)
  case (Cons x xs)
  show ?case
  proof (cases i)
    case (Suc j)
    with Cons show ?thesis by (auto simp: map_filter_simps split: option.splits)
  qed (auto simp: map_filter_simps split: option.splits)
qed simp

lemma turn_answered:
  assumes "turn base i s = (es, t)"
  shows "mset (answered t) = mset (answered s) + mset es"
  using assms
proof (cases rule: turn_cases)
  case idle
  then show ?thesis by simp
next
  case (step req pc pc' b)
  have "pc' = pc" if "pc = Returned r" for r
    using step(3) that by simp
  then have "mset (case answer_of (req, pc') of None \<Rightarrow> [] | Some z \<Rightarrow> [z]) =
      mset (case answer_of (req, pc) of None \<Rightarrow> [] | Some z \<Rightarrow> [z]) + mset es"
    using step(4) by (cases pc; cases pc') auto
  then show ?thesis
    using map_filter_update [OF step(1), of answer_of "(req, pc')"] step(2)
    by (simp add: answered_def step(5))
qed

lemma run_schedule_answered:
  "run_schedule base sched s = (es, t) \<Longrightarrow> mset (answered t) = mset (answered s) + mset es"
proof (induction sched arbitrary: s es)
  case (Cons i sched)
  then show ?case
    by (auto split: prod.splits dest!: turn_answered)
qed simp

lemma answered_launch [simp]: "answered (launch reqs a) = []"
proof -
  have "answer_of (x, request_start x) = None" for x by (cases x) simp_all
  then show ?thesis
    by (induction reqs) (simp_all add: answered_def launch_def map_filter_simps)
qed

text \<open>
  C7: Concurrent allocations of different containers are linearizable.  After any calls, let any
  number of \<open>AllocateIP\<close> requests run, no two for the same container and network, their steps
  interleaved in any way: the requests that have returned got exactly the answers, and the
  stores hold exactly the reservations, that they would have got had each been made alone, one after the other, in
  the order in which they returned.
\<close>

theorem concurrent_allocations_linearize:
  assumes run: "ipam_run base calls new_allocator = (answers, a)"
    and net: "length (to4 (net_ip (cfg_ip base))) = 4" "net_mask (cfg_ip base) = cidr_mask ones 32" "ones \<le> 32"
    and reqs: "distinct reqs" "\<forall>x \<in> set reqs. \<exists>n c. x = AllocateIP n c"
    and sched: "run_schedule base sched (launch reqs a) = (events, s)"
  shows "mset events = mset (answered s) \<and>
    (\<exists>b. ipam_run base (map fst events) a = (map snd events, b) \<and> holds b = holds (rq_alloc s))"
proof -
  let ?S = "mem_alloc.abs_alloc base a"
  have alloc: "alloc_inv base a" by (rule reached_alloc_inv [OF run])
  have "agrees base ?S a"
    using reached_inv [OF run] by (auto simp: agrees_def spec_inv_def holds_abs)
  moreover have "allocating x \<and> pc_seen base a x (request_start x)" if "x \<in> set reqs" for x
    using reqs(2) that by auto
  ultimately have "linear_inv base ?S (launch reqs a)"
    using launch_inv [OF alloc, of reqs] reqs(1) by (auto simp: linear_inv_def launch_def comp_def)
  then obtain T where T: "spec_run (map fst events) ?S = (map snd events, T)" "linear_inv base T s"
    using run_schedule_linear [OF _ sched pool_set_gateway [OF net]] by blast
  obtain b where "ipam_run base (map fst events) a = (map snd events, b)" "mem_alloc.abs_alloc base b = T"
    using ipam_run_refines [OF reached_ok [OF run], of base "map fst events"] T(1) by auto
  then show ?thesis
    using run_schedule_answered [OF sched] T(2) holds_abs [of base b] by (auto simp: linear_inv_def agrees_def)
qed

lemma concurrent_allocations_linearize_witness:
  "case run_schedule lan [0, 1, 0, 1, 1, 0, 0, 1, 1, 0, 1, 0, 1, 0, 1]
      (launch [AllocateIP ''n'' ''c'', AllocateIP ''n'' ''d''] new_allocator) of
     (events, s) \<Rightarrow>
       mset events = mset (answered s) \<and>
       (\<exists>b. ipam_run lan (map fst events) new_allocator = (map snd events, b) \<and> holds b = holds (rq_alloc s))"
proof -
  obtain events s where sched: "run_schedule lan [0, 1, 0, 1, 1, 0, 0, 1, 1, 0, 1, 0, 1, 0, 1]
      (launch [AllocateIP ''n'' ''c'', AllocateIP ''n'' ''d''] new_allocator) = (events, s)"
    by (rule prod.exhaust)
  have net: "length (to4 (net_ip (cfg_ip lan))) = 4" "net_mask (cfg_ip lan) = cidr_mask 29 32"
    by code_simp+
  from concurrent_allocations_linearize [OF _ net _ _ _ sched, of "[]"] show ?thesis
    unfolding sched prod.case by simp
qed

end
