(* ===== verification/Ipam_Double.thy ===== *)
theory Ipam_Double
  imports Ipam_Linear
begin

text \<open>
  Two concurrent \<open>AllocateIP\<close> requests for the same container and network: the schedule with which
  both succeed, for any subnet, network and container, after any calls.
\<close>

section \<open>A request that runs while the others wait\<close>

definition solo ::
  "ip_config \<Rightarrow> ipam_call \<Rightarrow> request_pc \<times> memory_store allocator \<Rightarrow> request_pc \<times> memory_store allocator \<Rightarrow> bool" where
  "solo base req = (\<lambda>x y. y = request_step base req (fst x) (snd x))\<^sup>*\<^sup>*"

lemma solo_step: "request_step base req pc a = y \<Longrightarrow> solo base req y z \<Longrightarrow> solo base req (pc, a) z"
  unfolding solo_def by (rule converse_rtranclp_into_rtranclp) simp_all

lemma solo_refl [simp]: "solo base req x x"
  by (simp add: solo_def)

lemma solo_trans: "solo base req x y \<Longrightarrow> solo base req y z \<Longrightarrow> solo base req x z"
  unfolding solo_def by (rule rtranclp_trans)

lemma solo_returned: "solo base req (Returned r, a) y \<Longrightarrow> y = (Returned r, a)"
  unfolding solo_def by (induction rule: rtranclp_induct) auto

lemma run_schedule_append:
  "run_schedule base (xs @ ys) s =
     (case run_schedule base xs s of (es, t) \<Rightarrow> (case run_schedule base ys t of (fs, u) \<Rightarrow> (es @ fs, u)))"
  by (induction xs arbitrary: s) (auto split: prod.splits)

definition answer_events :: "ipam_call \<Rightarrow> request_pc \<Rightarrow> (ipam_call \<times> ipam_answer) list" where
  "answer_events req pc = (case answer_of (req, pc) of None \<Rightarrow> [] | Some e \<Rightarrow> [e])"

lemma answer_events_returned [simp]: "answer_events req (Returned r) = [(req, r)]"
  by (simp add: answer_events_def)

lemma answer_events_running: "\<forall>r. pc \<noteq> Returned r \<Longrightarrow> answer_events req pc = []"
  by (cases pc) (simp_all add: answer_events_def)

lemma new_answer_running:
  "\<forall>r. pc \<noteq> Returned r \<Longrightarrow> new_answer pc pc' = (case pc' of Returned r \<Rightarrow> Some r | _ \<Rightarrow> None)"
  by (cases pc; cases pc') simp_all

text \<open>What a request does alone, it does under the schedule that gives it all the steps.\<close>

lemma solo_schedule:
  assumes "solo base req (pc, a) (pc', b)" "\<forall>r. pc \<noteq> Returned r" "i < length pcs" "pcs ! i = (req, pc)"
  shows "\<exists>sched. run_schedule base sched \<lparr>rq_alloc = a, rq_pcs = pcs\<rparr> =
    (answer_events req pc', \<lparr>rq_alloc = b, rq_pcs = pcs[i := (req, pc')]\<rparr>)"
  using assms(1) unfolding solo_def using assms(2-)
proof (induction arbitrary: pcs rule: converse_rtranclp_induct2)
  case refl
  then show ?case
    using list_update_id [of pcs i] by (intro exI [of _ "[]"]) (simp add: answer_events_running)
next
  case (step pc a pc1 a1)
  then have s: "request_step base req pc a = (pc1, a1)" by simp
  have turn: "turn base i \<lparr>rq_alloc = a, rq_pcs = pcs\<rparr> =
      (case new_answer pc pc1 of None \<Rightarrow> [] | Some r \<Rightarrow> [(req, r)], \<lparr>rq_alloc = a1, rq_pcs = pcs[i := (req, pc1)]\<rparr>)"
    using step.prems(2,3) s by (simp add: turn_def)
  note new = new_answer_running [OF step.prems(1), of pc1]
  show ?case
  proof (cases "\<exists>r. pc1 = Returned r")
    case True
    then obtain r where r: "pc1 = Returned r" ..
    then have "(pc', b) = (Returned r, a1)"
      using solo_returned [of base req r a1 "(pc', b)"] step.hyps(2) by (simp add: solo_def)
    with turn new r show ?thesis
      by (intro exI [of _ "[i]"]) simp
  next
    case False
    then have "\<exists>sched. run_schedule base sched \<lparr>rq_alloc = a1, rq_pcs = pcs[i := (req, pc1)]\<rparr> =
        (answer_events req pc', \<lparr>rq_alloc = b, rq_pcs = pcs[i := (req, pc1), i := (req, pc')]\<rparr>)"
      using step.IH [of "pcs[i := (req, pc1)]"] step.prems(2) by simp
    then obtain sched where "run_schedule base sched \<lparr>rq_alloc = a1, rq_pcs = pcs[i := (req, pc1)]\<rparr> =
        (answer_events req pc', \<lparr>rq_alloc = b, rq_pcs = pcs[i := (req, pc')]\<rparr>)"
      by auto
    moreover have "new_answer pc pc1 = None"
      using new False by (cases pc1) simp_all
    ultimately show ?thesis
      using turn by (intro exI [of _ "i # sched"]) simp
  qed
qed

section \<open>The phases of an allocation\<close>

text \<open>What the phases keep: the invariant, the objects, and the place of the request.\<close>

lemma solo_good:
  assumes "solo base req (pc, a) (pc', b)" "alloc_inv base a" "pc_ok base a req pc"
  shows "alloc_inv base b \<and> pc_ok base b req pc' \<and> grows base a b"
  using assms(1) unfolding solo_def
proof (induction rule: rtranclp_induct2)
  case refl
  with assms show ?case by simp
next
  case (step pc1 a1 pc2 a2)
  then have "step_good base req pc1 a1 (pc2, a2)"
    using request_step_good [of base a1 req pc1] by simp
  with step.IH show ?case
    by (auto simp: step_good_def grows_def)
qed

lemma to_gateway:
  assumes inv: "alloc_inv base a" and free: "c \<notin> ran (holds a n)"
  shows "\<exists>b. solo base (AllocateIP n c) (AtConfig, a) (AtGateway, b) \<and> holds b = holds a"
proof -
  let ?req = "AllocateIP n c"
  obtain a1 where a1: "request_step base ?req AtConfig a = (AtStore, a1)"
    by (cases "al_configs a n") (auto simp: after_call_def get_config_def config_factory_create_def)
  have "step_good base ?req AtConfig a (AtStore, a1)"
    using request_step_good [OF inv, of ?req AtConfig] a1 by simp
  then have good1: "alloc_inv base a1" "pc_ok base a1 ?req AtStore" "holds a1 = holds a"
    by (auto simp: step_good_def step_holds_def)
  obtain a2 where a2: "request_step base ?req AtStore a1 = (AtContains, a2)"
    by (cases "al_stores a1 n") (auto simp: after_call_def get_store_def store_factory_create_def)
  have "step_good base ?req AtStore a1 (AtContains, a2)"
    using request_step_good [OF good1(1,2)] a2 by simp
  then have good2: "alloc_inv base a2" "pc_ok base a2 ?req AtContains" "holds a2 = holds a1"
    by (auto simp: step_good_def step_holds_def)
  obtain s where s: "al_stores a2 n = Some s"
    using good2(2) by (auto simp: has_store_def)
  have "\<not> mem_contains c s"
    using store_of_inv [OF good2(1) s] free good1(3) good2(3) by (simp add: mem_contains_iff)
  with s have "request_step base ?req AtContains a2 = (AtGateway, a2)"
    by (simp add: with_store_def)
  then have "solo base ?req (AtConfig, a) (AtGateway, a2)"
    by (intro solo_step [OF a1] solo_step [OF a2] solo_step [OF _ solo_refl])
  with good1(3) good2(3) show ?thesis by auto
qed

lemma to_loop:
  assumes inv: "alloc_inv base a" and ok: "pc_ok base a (AllocateIP n c) AtGateway"
    and pools: "pool (set_gateway base) = pool base"
  shows "\<exists>addr b. solo base (AllocateIP n c) (AtGateway, a) (AtLoop addr, b) \<and> holds b = holds a \<and>
    candidates (set_gateway base) addr = pool base"
proof -
  let ?req = "AllocateIP n c" and ?start = "net_ip (cfg_ip base)"
  obtain cfg where cfg: "al_configs a n = Some cfg"
    using ok by (auto simp: has_config_def)
  note base = configs_of_inv [OF inv cfg]
  show ?thesis
  proof (cases "cfg_gateway cfg = []")
    case True
    with base have "cfg = base" "cfg_gateway base = []"
      by auto
    let ?b = "a\<lparr>al_configs := (al_configs a)(n \<mapsto> base\<lparr>cfg_gateway := next_ip ?start\<rparr>)\<rparr>"
    have "request_step base ?req AtGateway a = (AtSetGateway, a)"
      "request_step base ?req AtSetGateway a = (AtLoop (next_ip ?start), ?b)"
      using cfg \<open>cfg = base\<close> \<open>cfg_gateway base = []\<close> by (simp_all add: with_config_def)
    then have "solo base ?req (AtGateway, a) (AtLoop (next_ip ?start), ?b)"
      using solo_step solo_refl by metis
    moreover have "candidates (set_gateway base) (next_ip ?start) = pool base"
      using \<open>cfg_gateway base = []\<close> by (simp add: pool_def first_ip_def)
    moreover have "holds ?b = holds a" by simp
    ultimately show ?thesis by blast
  next
    case False
    then have "request_step base ?req AtGateway a = (AtLoop ?start, a)"
      using cfg base by (auto simp: with_config_def)
    then have "solo base ?req (AtGateway, a) (AtLoop ?start, a)"
      using solo_step solo_refl by metis
    moreover have "candidates (set_gateway base) ?start = pool base"
      using pools by (simp add: pool_def first_ip_def)
    ultimately show ?thesis by blast
  qed
qed

text \<open>The loop takes the first address that nobody holds, whoever asks.\<close>

lemma loop_leases:
  assumes "alloc_inv base a" "pc_ok base a (AllocateIP n c) (AtLoop addr)"
    "find (\<lambda>x. holds a n x = None) (candidates (set_gateway base) addr) = Some x"
  shows "\<exists>b. solo base (AllocateIP n c) (AtLoop addr, a) (Returned (Allocated (Ok (lease_of (set_gateway base) x))), b) \<and>
    holds b = (holds a)(n := (holds a n)(x \<mapsto> c))"
  using assms
proof (induction "set_gateway base" addr rule: candidates.induct)
  case (1 addr)
  let ?x = "next_ip addr" and ?g = "set_gateway base" and ?req = "AllocateIP n c"
  obtain s where s: "al_stores a n = Some s" "al_configs a n = Some ?g"
    using "1.prems"(2) by (auto simp: has_store_def has_gateway_def)
  note store = store_of_inv [OF "1.prems"(1) s(1)]
  have step: "request_step base ?req (AtLoop addr) a = loop_step ?req ?g addr s a"
    using s by (simp add: with_config_def with_store_def)
  have inside: "net_contains (cfg_ip base) ?x"
    using "1.prems"(3) candidates_stop [of ?g addr] by (cases "net_contains (cfg_ip base) ?x") auto
  have go_on: ?case if "loop_step ?req ?g addr s a = (AtLoop ?x, a)"
    "find (\<lambda>x. holds a n x = None) (candidates ?g ?x) = Some x"
  proof -
    have "pc_ok base a ?req (AtLoop ?x)" using "1.prems"(2) by simp
    with "1.hyps" "1.prems"(1) inside that(2) obtain b where
      "solo base ?req (AtLoop ?x, a) (Returned (Allocated (Ok (lease_of ?g x))), b)"
      "holds b = (holds a)(n := (holds a n)(x \<mapsto> c))" by auto
    with solo_step step that(1) show ?thesis by metis
  qed
  show ?case
  proof (cases "ip_equal (gateway_of base) ?x")
    case True
    then have "loop_step ?req ?g addr s a = (AtLoop ?x, a)"
      using inside by (simp add: loop_step_def)
    moreover have "find (\<lambda>x. holds a n x = None) (candidates ?g ?x) = Some x"
      using "1.prems"(3) True inside by (simp add: candidates_step)
    ultimately show ?thesis by (rule go_on)
  next
    case candidate: False
    have len: "length ?x = 4" by (rule contains_next_ip(1) [OF inside])
    have first: "candidates ?g addr = ?x # candidates ?g ?x"
      using inside candidate by (simp add: candidates_step)
    show ?thesis
    proof (cases "holds a n ?x")
      case None
      then obtain t where t: "mem_reserve c ?x s = (Ok True, t)" "mem_holder t = (mem_holder s)(?x \<mapsto> c)"
        using mem.reserve_free [of s ?x c] store len by (auto simp: mem_ops_def)
      have x: "x = ?x" using "1.prems"(3) first None by simp
      have "request_step base ?req (AtLoop addr) a = (Returned (Allocated (Ok (lease_of ?g x))), store_update n t a)"
        unfolding step using t(1) inside candidate by (simp add: loop_step_def x)
      moreover have "holds (store_update n t a) = (holds a)(n := (holds a n)(x \<mapsto> c))"
        using t(2) store x by (simp add: holds_store_update)
      ultimately show ?thesis using solo_step solo_refl by metis
    next
      case (Some d)
      then have "mem_reserve c ?x s = (Ok False, s)"
        using len store by (auto simp: mem_reserve_def mem_holder_def)
      moreover have "store_update n s a = a"
        using s by (simp add: store_update_def fun_upd_idem)
      ultimately have "loop_step ?req ?g addr s a = (AtLoop ?x, a)"
        using inside candidate by (simp add: loop_step_def)
      moreover have "find (\<lambda>x. holds a n x = None) (candidates ?g ?x) = Some x"
        using "1.prems"(3) first Some by simp
      ultimately show ?thesis by (rule go_on)
    qed
  qed
qed

text \<open>From the test of the gateway to the answer.\<close>

lemma gateway_leases:
  assumes inv: "alloc_inv base a" and ok: "pc_ok base a (AllocateIP n c) AtGateway"
    and pools: "pool (set_gateway base) = pool base" and free: "find (\<lambda>x. holds a n x = None) (pool base) = Some x"
  shows "\<exists>b. solo base (AllocateIP n c) (AtGateway, a) (Returned (Allocated (Ok (lease_of (set_gateway base) x))), b) \<and>
    holds b = (holds a)(n := (holds a n)(x \<mapsto> c))"
proof -
  obtain addr b where b: "solo base (AllocateIP n c) (AtGateway, a) (AtLoop addr, b)" "holds b = holds a"
    "candidates (set_gateway base) addr = pool base"
    using to_loop [OF inv ok pools] by blast
  note good = solo_good [OF b(1) inv ok]
  obtain d where "solo base (AllocateIP n c) (AtLoop addr, b) (Returned (Allocated (Ok (lease_of (set_gateway base) x))), d)"
    "holds d = (holds b)(n := (holds b n)(x \<mapsto> c))"
    using loop_leases [of base b n c addr x] good b(2,3) free by auto
  with b show ?thesis by (auto intro: solo_trans)
qed

section \<open>Two requests for one container\<close>

lemma find_first: "filter P xs = y # ys \<Longrightarrow> find P xs = Some y"
  by (induction xs) (auto split: if_splits)

text \<open>The two lowest free addresses.\<close>

lemma free_addresses:
  assumes "filter (\<lambda>z. H z = None) (pool base) = x # y # zs"
  shows "x \<noteq> y" "find (\<lambda>z. H z = None) (pool base) = Some x" "find (\<lambda>z. (H(x \<mapsto> c)) z = None) (pool base) = Some y"
proof -
  have "sorted_wrt (\<lambda>a b. set_bytes a < set_bytes b) (filter (\<lambda>z. H z = None) (pool base))"
    unfolding pool_def by (intro sorted_wrt_filter candidates_sorted)
  then show "x \<noteq> y" unfolding assms by auto
  show "find (\<lambda>z. H z = None) (pool base) = Some x" by (rule find_first [OF assms])
  have "filter (\<lambda>z. (H(x \<mapsto> c)) z = None) (pool base) = filter (\<lambda>z. z \<noteq> x) (filter (\<lambda>z. H z = None) (pool base))"
    by (auto intro!: filter_cong)
  then have "filter (\<lambda>z. (H(x \<mapsto> c)) z = None) (pool base) = y # filter (\<lambda>z. z \<noteq> x) zs"
    using \<open>x \<noteq> y\<close> unfolding assms by simp
  then show "find (\<lambda>z. (H(x \<mapsto> c)) z = None) (pool base) = Some y" by (rule find_first)
qed

lemma two_requests_race:
  assumes inv: "alloc_inv base a" and pools: "pool (set_gateway base) = pool base" and new: "c \<notin> ran (holds a n)"
    and free: "filter (\<lambda>z. holds a n z = None) (pool base) = x # y # zs"
  shows "\<exists>sched s. run_schedule base sched (launch [AllocateIP n c, AllocateIP n c] a) =
      ([(AllocateIP n c, Allocated (Ok (lease_of (set_gateway base) x))),
        (AllocateIP n c, Allocated (Ok (lease_of (set_gateway base) y)))], s) \<and>
    holds (rq_alloc s) = (holds a)(n := (holds a n)(x \<mapsto> c, y \<mapsto> c))"
proof -
  let ?req = "AllocateIP n c" and ?answer = "\<lambda>z. Returned (Allocated (Ok (lease_of (set_gateway base) z)))"
  note addresses = free_addresses [OF free]
  obtain a1 where a1: "solo base ?req (AtConfig, a) (AtGateway, a1)" "holds a1 = holds a"
    using to_gateway [OF inv new] by blast
  have good1: "alloc_inv base a1" "pc_ok base a1 ?req AtGateway"
    using solo_good [OF a1(1) inv] by simp_all
  obtain a2 where a2: "solo base ?req (AtConfig, a1) (AtGateway, a2)" "holds a2 = holds a"
    using to_gateway [OF good1(1)] new a1(2) by metis
  have good2: "alloc_inv base a2" "pc_ok base a2 ?req AtGateway" "grows base a1 a2"
    using solo_good [OF a2(1) good1(1)] by simp_all
  obtain a3 where a3: "solo base ?req (AtGateway, a2) (?answer x, a3)" "holds a3 = (holds a)(n := (holds a n)(x \<mapsto> c))"
    using gateway_leases [OF good2(1) pc_ok_grows [OF good1(2) good2(3)] pools] addresses(2) a2(2) by auto
  have good3: "alloc_inv base a3" "grows base a2 a3"
    using solo_good [OF a3(1) good2(1,2)] by simp_all
  obtain a4 where a4: "solo base ?req (AtGateway, a3) (?answer y, a4)"
      "holds a4 = (holds a)(n := (holds a n)(x \<mapsto> c, y \<mapsto> c))"
    using gateway_leases [OF good3(1) pc_ok_grows [OF good2(2) good3(2)] pools, of y] addresses(3) a3(2) by auto
  let ?s = "\<lambda>b p q. \<lparr>rq_alloc = b, rq_pcs = [(?req, p), (?req, q)]\<rparr>"
  note first = solo_schedule [where i = 0 and req = ?req] and second = solo_schedule [where i = 1 and req = ?req]
  obtain w1 where "run_schedule base w1 (?s a AtConfig AtConfig) = ([], ?s a1 AtGateway AtConfig)"
    using first [OF a1(1), of "[(?req, AtConfig), (?req, AtConfig)]"] by (auto simp: answer_events_running)
  moreover obtain w2 where "run_schedule base w2 (?s a1 AtGateway AtConfig) = ([], ?s a2 AtGateway AtGateway)"
    using second [OF a2(1), of "[(?req, AtGateway), (?req, AtConfig)]"] by (auto simp: answer_events_running)
  moreover obtain w3 where "run_schedule base w3 (?s a2 AtGateway AtGateway) =
      ([(?req, Allocated (Ok (lease_of (set_gateway base) x)))], ?s a3 (?answer x) AtGateway)"
    using first [OF a3(1), of "[(?req, AtGateway), (?req, AtGateway)]"] by auto
  moreover obtain w4 where "run_schedule base w4 (?s a3 (?answer x) AtGateway) =
      ([(?req, Allocated (Ok (lease_of (set_gateway base) y)))], ?s a4 (?answer x) (?answer y))"
    using second [OF a4(1), of "[(?req, ?answer x), (?req, AtGateway)]"] by auto
  ultimately have "run_schedule base (w1 @ w2 @ w3 @ w4) (?s a AtConfig AtConfig) =
      ([(?req, Allocated (Ok (lease_of (set_gateway base) x))), (?req, Allocated (Ok (lease_of (set_gateway base) y)))],
       ?s a4 (?answer x) (?answer y))"
    by (simp add: run_schedule_append)
  moreover have "launch [?req, ?req] a = ?s a AtConfig AtConfig" by (simp add: launch_def)
  ultimately show ?thesis
    using a4(2) by (metis requests.select_convs(1))
qed

text \<open>
  C29: After any calls, in any IPv4 subnet with a prefix mask, for any network and any container that
  is not on it: if two addresses are free, then two concurrent \<open>AllocateIP\<close> requests of the container
  can both succeed, with the two lowest free addresses, and the container holds both: it takes that
  both look into the store before either has reserved.  Made one after the other, the second is
  refused.
\<close>

theorem concurrent_double_lease:
  assumes run: "ipam_run base calls new_allocator = (answers, a)"
    and net: "length (to4 (net_ip (cfg_ip base))) = 4" "net_mask (cfg_ip base) = cidr_mask ones 32" "ones \<le> 32"
    and new: "c \<notin> ran (holds a n)"
    and free: "filter (\<lambda>z. holds a n z = None) (pool base) = x # y # zs"
  shows "x \<noteq> y \<and>
    (\<exists>sched s. run_schedule base sched (launch [AllocateIP n c, AllocateIP n c] a) =
        ([(AllocateIP n c, Allocated (Ok (lease_of (set_gateway base) x))),
          (AllocateIP n c, Allocated (Ok (lease_of (set_gateway base) y)))], s) \<and>
      holds (rq_alloc s) = (holds a)(n := (holds a n)(x \<mapsto> c, y \<mapsto> c))) \<and>
    fst (ipam_run base [AllocateIP n c, AllocateIP n c] a) =
      [Allocated (Ok (lease_of (set_gateway base) x)), Allocated (Err (Sentinel AlreadyOnNetworkError))]"
proof (intro conjI)
  let ?S = "mem_alloc.abs_alloc base a"
  note pools = pool_set_gateway [OF net]
  show "x \<noteq> y" by (rule free_addresses(1) [OF free])
  show "\<exists>sched s. run_schedule base sched (launch [AllocateIP n c, AllocateIP n c] a) =
        ([(AllocateIP n c, Allocated (Ok (lease_of (set_gateway base) x))),
          (AllocateIP n c, Allocated (Ok (lease_of (set_gateway base) y)))], s) \<and>
      holds (rq_alloc s) = (holds a)(n := (holds a n)(x \<mapsto> c, y \<mapsto> c))"
    by (rule two_requests_race [OF reached_alloc_inv [OF run] pools new free])
  have cfg: "sp_config ?S n \<in> {base, set_gateway base}" "sp_holder ?S = holds a"
    using reached_inv [OF run] by (auto simp: spec_inv_def holds_abs)
  then have same: "pool (sp_config ?S n) = pool base" "set_gateway (sp_config ?S n) = set_gateway base"
    using pools by (auto simp: set_gateway_def)
  have find: "find (\<lambda>z. holds a n z = None) (pool base) = Some x" by (rule free_addresses(2) [OF free])
  have held: "c \<in> ran ((holds a n)(x \<mapsto> c))" by (rule ranI [of _ x]) simp
  have "fst (spec_run [AllocateIP n c, AllocateIP n c] ?S) =
      [Allocated (Ok (lease_of (set_gateway base) x)), Allocated (Err (Sentinel AlreadyOnNetworkError))]"
    using new find cfg(2) same held by (simp add: spec_allocate_def Let_def)
  then show "fst (ipam_run base [AllocateIP n c, AllocateIP n c] a) =
      [Allocated (Ok (lease_of (set_gateway base) x)), Allocated (Err (Sentinel AlreadyOnNetworkError))]"
    using ipam_run_refines [OF reached_ok [OF run], of base "[AllocateIP n c, AllocateIP n c]"] by auto
qed

lemma concurrent_double_lease_witness:
  "\<exists>sched s. run_schedule lan sched
      (launch [AllocateIP ''n'' ''c'', AllocateIP ''n'' ''c''] (snd (ipam_run lan [AllocateIP ''n'' ''b''] new_allocator))) =
    ([(AllocateIP ''n'' ''c'', Allocated (Ok (lease_of (set_gateway lan) [192, 168, 1, 3]))),
      (AllocateIP ''n'' ''c'', Allocated (Ok (lease_of (set_gateway lan) [192, 168, 1, 4])))], s)"
proof -
  obtain answers a where run: "ipam_run lan [AllocateIP ''n'' ''b''] new_allocator = (answers, a)"
    by fastforce
  have "al_stores (snd (ipam_run lan [AllocateIP ''n'' ''b''] new_allocator)) ''n'' =
      Some \<lparr>allocated = [(''192.168.1.2'', ''b'')]\<rparr>"
    by code_simp
  then have holds: "holds a ''n'' = mem_holder \<lparr>allocated = [(''192.168.1.2'', ''b'')]\<rparr>"
    using run by (simp add: holds_def)
  have new: "''c'' \<notin> ran (holds a ''n'')"
    unfolding holds by (auto simp: mem_holder_def ran_def split: if_splits)
  have free: "filter (\<lambda>z. holds a ''n'' z = None) (pool lan) =
      [[192, 168, 1, 3], [192, 168, 1, 4], [192, 168, 1, 5], [192, 168, 1, 6], [192, 168, 1, 7]]"
    unfolding holds by code_simp
  have net: "length (to4 (net_ip (cfg_ip lan))) = 4" "net_mask (cfg_ip lan) = cidr_mask 29 32"
    by code_simp+
  from concurrent_double_lease [OF run net _ new free] run show ?thesis by auto
qed

end
