(* ===== verification/Sandbox_Inv.thy ===== *)
theory Sandbox_Inv
  imports Container
begin

text \<open>
  The invariant that ties the sandboxes to the monitors: what the repository of sandboxes, the
  heap of sandboxes and the map of done channels have to do with each other, kept by every
  operation of the repository, by commands, and by setting up and tearing down a container.
\<close>

section \<open>The invariant\<close>

text \<open>
  The done channels are in order; every registered sandbox is an object of its own, whose
  namespace is the file of that name below \<open>root\<close>; only namespaces of registered sandboxes have
  a monitor.  The sandboxes \<open>N\<close> are registered.
\<close>

definition refs_ok :: "(string \<rightharpoonup> sandbox_ref) \<Rightarrow> nat \<Rightarrow> bool" where
  "refs_ok refs k \<longleftrightarrow>
     (\<forall>n r. refs n = Some r \<longrightarrow> r < k) \<and> (\<forall>m n r. refs m = Some r \<and> refs n = Some r \<longrightarrow> m = n)"

definition names_ok :: "string \<Rightarrow> (string \<rightharpoonup> sandbox_ref) \<Rightarrow> string list \<Rightarrow> bool" where
  "names_ok root refs files \<longleftrightarrow> (\<forall>n r. refs n = Some r \<longrightarrow> files ! r = path_of root n)"

definition monitors_ok :: "string \<Rightarrow> (string \<rightharpoonup> sandbox_ref) \<Rightarrow> (string \<rightharpoonup> nat) \<Rightarrow> bool" where
  "monitors_ok root refs chans \<longleftrightarrow> (\<forall>p. chans p \<noteq> None \<longrightarrow> (\<exists>n. refs n \<noteq> None \<and> p = path_of root n))"

definition object_files :: "('k, 'z) sandbox_world_scheme \<Rightarrow> string list" where
  "object_files s = map (\<lambda>b. file_name (sb_namespace b)) (objects s)"

definition sandboxes_ok :: "string \<Rightarrow> string set \<Rightarrow> ('k, 'z) sandbox_world_scheme \<Rightarrow> bool" where
  "sandboxes_ok root N s \<longleftrightarrow>
     watch_ok s \<and> refs_ok (sandboxes s) (length (object_files s)) \<and>
     names_ok root (sandboxes s) (object_files s) \<and> monitors_ok root (sandboxes s) (done_chans s) \<and>
     (\<forall>n \<in> N. sandboxes s n \<noteq> None)"

lemma sandboxes_ok_same:
  assumes "done_chans t = done_chans s" "next_chan t = next_chan s" "closed_chans t = closed_chans s"
    "sandboxes t = sandboxes s" "object_files t = object_files s"
  shows "sandboxes_ok root N t = sandboxes_ok root N s"
  using assms by (simp add: sandboxes_ok_def watch_ok_def)

lemma sandboxes_ok_frame [simp]:
  "sandboxes_ok root N (s\<lparr>kernel := k\<rparr>) = sandboxes_ok root N s"
  "sandboxes_ok root N (s\<lparr>inserters := is\<rparr>) = sandboxes_ok root N s"
  "sandboxes_ok root N (s\<lparr>subscriptions := ss\<rparr>) = sandboxes_ok root N s"
  "sandboxes_ok root N (s\<lparr>repo_locked := b\<rparr>) = sandboxes_ok root N s"
  by (rule sandboxes_ok_same; simp add: object_files_def)+

lemma sandboxes_ok_more [simp]:
  "sandboxes_ok root N (s\<lparr>hw_result := a\<rparr>) = sandboxes_ok root N s"
  by (rule sandboxes_ok_same) (simp_all add: object_files_def)

lemma sandboxes_ok_insert:
  "sandboxes_ok root (insert n N) s \<longleftrightarrow> sandboxes_ok root N s \<and> sandboxes s n \<noteq> None"
  by (auto simp: sandboxes_ok_def)

lemma sandboxes_ok_weaken: "sandboxes_ok root N s \<Longrightarrow> M \<subseteq> N \<Longrightarrow> sandboxes_ok root M s"
  by (auto simp: sandboxes_ok_def)

lemma sandboxes_ok_update:
  assumes "\<And>b. sb_namespace (f b) = sb_namespace b"
  shows "sandboxes_ok root N (update_sandbox r f s) = sandboxes_ok root N s"
proof -
  have "object_files (update_sandbox r f s) = object_files s"
    using assms by (cases "r < length (objects s)")
      (simp_all add: object_files_def update_sandbox_def map_update list_update_same_conv list_update_beyond)
  then show ?thesis
    by (intro sandboxes_ok_same) (simp_all add: update_sandbox_def)
qed

text \<open>The name of a registered sandbox is the name of its file.\<close>

lemma sandboxes_ok_file:
  assumes "sandboxes_ok root N s" "sandboxes s n = Some r"
  shows "file_name (sb_namespace (the_sandbox r s)) = path_of root n"
  using assms
  by (auto simp: sandboxes_ok_def names_ok_def refs_ok_def object_files_def the_sandbox_def)

text \<open>The state changes that matter.\<close>

lemma refs_ok_register: "refs_ok refs k \<Longrightarrow> refs_ok (refs(n \<mapsto> k)) (Suc k)"
  by (fastforce simp: refs_ok_def less_Suc_eq)

lemma names_ok_register:
  "names_ok root refs files \<Longrightarrow> refs_ok refs (length files) \<Longrightarrow> p = path_of root n \<Longrightarrow>
   names_ok root (refs(n \<mapsto> length files)) (files @ [p])"
  by (auto simp: names_ok_def refs_ok_def nth_append)

lemma monitors_ok_register: "monitors_ok root refs chans \<Longrightarrow> monitors_ok root (refs(n \<mapsto> r)) chans"
  unfolding monitors_ok_def by (metis fun_upd_apply option.distinct(1))

lemma sandboxes_ok_register:
  assumes "sandboxes_ok root N s" "file_name ns = path_of root name"
  shows "sandboxes_ok root N (s\<lparr>objects := objects s @ [\<lparr>sb_namespace = ns, sb_locked = b, sb_dns = d, sb_destroyed = g\<rparr>],
    sandboxes := (sandboxes s)(name \<mapsto> length (objects s))\<rparr>)"
proof -
  let ?t = "s\<lparr>objects := objects s @ [\<lparr>sb_namespace = ns, sb_locked = b, sb_dns = d, sb_destroyed = g\<rparr>],
    sandboxes := (sandboxes s)(name \<mapsto> length (objects s))\<rparr>"
  have files: "object_files ?t = object_files s @ [path_of root name]" "length (objects s) = length (object_files s)"
    using assms(2) by (simp_all add: object_files_def)
  show ?thesis
    using assms(1) unfolding sandboxes_ok_def files(1)
    by (auto simp: files(2) watch_ok_def refs_ok_register monitors_ok_register names_ok_register)
qed

lemma sandboxes_ok_unregister:
  assumes "sandboxes_ok root {} s" "done_chans s (path_of root name) = None"
  shows "sandboxes_ok root {} (s\<lparr>sandboxes := (sandboxes s)(name := None)\<rparr>)"
proof -
  have "monitors_ok root ((sandboxes s)(name := None)) (done_chans s)"
    using assms unfolding sandboxes_ok_def monitors_ok_def by (metis fun_upd_apply)
  with assms(1) show ?thesis
    by (auto simp: sandboxes_ok_def watch_ok_def refs_ok_def names_ok_def object_files_def)
qed

lemma sandboxes_ok_new_chan:
  assumes "sandboxes_ok root N s" "sandboxes s n \<noteq> None" "file_name ns = path_of root n"
  shows "sandboxes_ok root N (snd (new_done_chan ns s))"
proof -
  have "watch_ok (snd (new_done_chan ns s))"
    using assms(1) by (auto simp: sandboxes_ok_def watch_ok_def new_done_chan_def less_Suc_eq)
  moreover have "monitors_ok root (sandboxes s) ((done_chans s)(file_name ns \<mapsto> c))" for c
    using assms by (auto simp: sandboxes_ok_def monitors_ok_def)
  ultimately show ?thesis
    using assms(1) by (simp add: sandboxes_ok_def new_done_chan_def object_files_def)
qed

lemma stop_monitor_chans:
  "done_chans (snd (stop_monitor ns s)) = (done_chans s)(file_name ns := None)"
  by (auto simp: stop_monitor_def close_chan_def fun_upd_idem split: option.splits)

lemma sandboxes_ok_stop: "keeps (sandboxes_ok root N) (stop_monitor ns)"
proof (rule keepsI)
  fix s :: "('a, 'b) sandbox_world_scheme"
  assume ok: "sandboxes_ok root N s"
  obtain r t where t: "stop_monitor ns s = (r, t)" by fastforce
  have "watch_ok t"
    using stop_monitor_watch_ok [of ns] ok t by (auto simp: keeps_def sandboxes_ok_def dest!: spec [of _ s])
  moreover have "done_chans t = (done_chans s)(file_name ns := None)"
    using stop_monitor_chans [of ns s] t by simp
  moreover have "sandboxes t = sandboxes s" "objects t = objects s"
    using stop_monitor_frame [OF t] by simp_all
  moreover have "monitors_ok root (sandboxes s) ((done_chans s)(file_name ns := None))"
    using ok by (auto simp: sandboxes_ok_def monitors_ok_def)
  ultimately show "sandboxes_ok root N (snd (stop_monitor ns s))"
    using ok by (simp add: t sandboxes_ok_def object_files_def)
qed

section \<open>Rules for programs\<close>

text \<open>A continuation only sees values that the first program can have returned.\<close>

lemma keeps_bind_wrap_result:
  assumes "keeps P m" "\<And>s x t. P s \<Longrightarrow> m s = (Ok x, t) \<Longrightarrow> Q x t" "\<And>x s. P s \<Longrightarrow> Q x s \<Longrightarrow> P (snd (k x s))"
  shows "keeps P (bind_wrap p m k)"
proof (rule keepsI)
  fix s assume s: "P s"
  obtain r t where t: "m s = (r, t)" by fastforce
  have "P t" using assms(1) s t by (rule keepsD)
  then show "P (snd (bind_wrap p m k s))"
    using t assms(2) [OF s] assms(3) by (cases r) (auto simp: bind_wrap_eval)
qed

lemma keeps_bind_err_result:
  assumes "keeps P m" "\<And>s x t. P s \<Longrightarrow> m s = (Ok x, t) \<Longrightarrow> Q x t" "\<And>x s. P s \<Longrightarrow> Q x s \<Longrightarrow> P (snd (k x s))"
  shows "keeps P (bind_err m k)"
proof (rule keepsI)
  fix s assume s: "P s"
  obtain r t where t: "m s = (r, t)" by fastforce
  have "P t" using assms(1) s t by (rule keepsD)
  then show "P (snd (bind_err m k s))"
    using t assms(2) [OF s] assms(3) by (cases r) (auto simp: bind_err_eval fail_def)
qed

lemma keeps_with_repo_lock:
  assumes "keeps P m" "\<And>s b. P (s\<lparr>repo_locked := b\<rparr>) = P s"
  shows "keeps P (with_repo_lock m)"
proof (rule keepsI)
  fix s assume "P s"
  with assms have "P (snd (m (s\<lparr>repo_locked := True\<rparr>)))" by (simp add: keeps_def)
  with \<open>P s\<close> assms(2) show "P (snd (with_repo_lock m s))"
    by (auto simp: with_repo_lock_def deferring_def deadlock_def split: prod.splits)
qed

lemma keeps_with_sandbox_lock:
  assumes "keeps P m" "\<And>s b. P (update_sandbox r (\<lambda>x. x\<lparr>sb_locked := b\<rparr>) s) = P s"
  shows "keeps P (with_sandbox_lock r m)"
proof (rule keepsI)
  fix s assume "P s"
  with assms have "P (snd (m (update_sandbox r (\<lambda>x. x\<lparr>sb_locked := True\<rparr>) s)))" by (simp add: keeps_def)
  with \<open>P s\<close> assms(2) show "P (snd (with_sandbox_lock r m s))"
    by (auto simp: with_sandbox_lock_def deferring_def deadlock_def split: prod.splits)
qed

named_theorems ok_intros \<open>programs that keep the invariant of the sandboxes\<close>

text \<open>Programs on the system only.\<close>

lemma keeps_system_ok [ok_intros]: "system_only m \<Longrightarrow> keeps (sandboxes_ok root N) m"
  by (rule keeps_system) simp_all

lemma keeps_ns_execute_ok [ok_intros]:
  "(\<And>f. keeps (sandboxes_ok root N) (callback f)) \<Longrightarrow> keeps (sandboxes_ok root N) (ns_execute os ns callback)"
  by (rule keeps_ns_execute) simp_all

lemma keeps_sandbox_lock_ok [ok_intros]:
  "keeps (sandboxes_ok root N) m \<Longrightarrow> keeps (sandboxes_ok root N) (with_sandbox_lock r m)"
  by (rule keeps_with_sandbox_lock) (simp_all add: sandboxes_ok_update)

lemma keeps_repo_lock_ok [ok_intros]:
  "keeps (sandboxes_ok root N) m \<Longrightarrow> keeps (sandboxes_ok root N) (with_repo_lock m)"
  by (rule keeps_with_repo_lock) simp_all

lemma keeps_start_monitor_ok:
  assumes "sandboxes_ok root N s" "sandboxes s n \<noteq> None" "file_name ns = path_of root n"
  shows "sandboxes_ok root N (snd (start_monitor os ns vxlan s))"
  by (rule start_monitor_after) (simp_all add: sandboxes_ok_new_chan [OF assms])

section \<open>The operations of the repository\<close>

text \<open>The law of \<open>os.Open\<close>: the file has the name it was opened with.\<close>

definition opens_by_name :: "'k os \<Rightarrow> bool" where
  "opens_by_name os \<longleftrightarrow> (\<forall>p k f k'. os_open os p k = (Inr f, k') \<longrightarrow> file_name f = p)"

text \<open>\<open>yields Q m\<close>: whatever value \<open>m\<close> returns satisfies \<open>Q\<close>.\<close>

definition yields :: "('a \<Rightarrow> bool) \<Rightarrow> ('s, 'a) prog \<Rightarrow> bool" where
  "yields Q m \<longleftrightarrow> (\<forall>s x t. m s = (Ok x, t) \<longrightarrow> Q x)"

lemma yieldsD: "yields Q m \<Longrightarrow> m s = (Ok x, t) \<Longrightarrow> Q x"
  by (auto simp: yields_def)

lemma yields_ret: "yields Q (ret x) \<longleftrightarrow> Q x"
  by (simp add: yields_def ret_def)

lemma yields_fail: "yields Q (fail e)"
  by (simp add: yields_def fail_def)

lemma yields_attempt: "(\<And>e. yields Q (h e)) \<Longrightarrow> (\<And>x. yields Q (k x)) \<Longrightarrow> yields Q (attempt m h k)"
  by (auto simp: yields_def attempt_def split: prod.splits outcome.splits)

lemma yields_bind_err: "(\<And>x. yields Q (k x)) \<Longrightarrow> yields Q (bind_err m k)"
  unfolding bind_err_def by (intro yields_attempt yields_fail)

lemma yields_bind_err_with:
  assumes "yields R m" "\<And>x. R x \<Longrightarrow> yields Q (k x)"
  shows "yields Q (bind_err m k)"
  unfolding yields_def
proof (intro allI impI)
  fix s x t
  assume run: "bind_err m k s = (Ok x, t)"
  obtain y u where y: "m s = (Ok y, u)" "k y u = (Ok x, t)"
    by (rule bind_err_OkE [OF run])
  from yieldsD [OF assms(1) y(1)] have "yields Q (k y)" by (rule assms(2))
  then show "Q x" using y(2) by (rule yieldsD)
qed

lemma yields_open: "opens_by_name os \<Longrightarrow> yields (\<lambda>f. file_name f = p) (sys (os_open os p))"
  unfolding yields_def sys_def opens_by_name_def by (auto split: prod.splits sum.splits)

lemma yields_repo_get: "opens_by_name os \<Longrightarrow> yields (\<lambda>f. file_name f = path_of root name) (repo_get os root name)"
  unfolding repo_get_def repo_open_def path_of_def
  by (rule yields_bind_err_with [OF yields_open]) (simp_all add: yields_ret)

lemma yields_repo_create: "opens_by_name os \<Longrightarrow> yields (\<lambda>f. file_name f = path_of root name) (repo_create os root name)"
  unfolding repo_create_def Let_def
proof (rule yields_bind_err, rule yields_bind_err)
  fix r x
  assume os: "opens_by_name os"
  have "yields (\<lambda>f. file_name f = path_of root name) (bind_mount_file os p (path_of root name))" for p
    unfolding bind_mount_file_def by (intro yields_bind_err yields_attempt yields_fail yields_open os)
  then show "yields (\<lambda>f. file_name f = path_of root name)
      (bind_err (bind_mount_file os (path_join [''/var/run/netns'', ''ns-'' @ hex8 r]) (path_of root name))
        (\<lambda>file. bind_err (unlink_network_namespace os (path_join [''/var/run/netns'', ''ns-'' @ hex8 r])) (\<lambda>_. ret file)))"
    by (rule yields_bind_err_with) (simp add: yields_bind_err yields_ret)
qed

lemmas repo_get_name = yieldsD [OF yields_repo_get]
lemmas repo_create_name = yieldsD [OF yields_repo_create]

text \<open>A namespace of the right name becomes a registered sandbox.\<close>

lemma register_ok:
  assumes "sandboxes_ok root N s" "file_name ns = path_of root name"
    and rest: "\<And>r. keeps (sandboxes_ok root (insert name N)) (k r)"
  shows "sandboxes_ok root (insert name N) (snd (bind_err (sandbox_new ns) (\<lambda>r.
    bind_err (modify (\<lambda>s. s\<lparr>sandboxes := (sandboxes s)(name \<mapsto> r)\<rparr>)) (\<lambda>_. k r)) s))"
proof -
  let ?t = "s\<lparr>objects := objects s @ [\<lparr>sb_namespace = ns, sb_locked = False, sb_dns = None, sb_destroyed = False\<rparr>],
    sandboxes := (sandboxes s)(name \<mapsto> length (objects s))\<rparr>"
  have "sandboxes_ok root (insert name N) ?t"
    using sandboxes_ok_register [OF assms(1,2)] by (simp add: sandboxes_ok_insert)
  then show ?thesis
    using rest by (simp add: keeps_def bind_err_eval(1) sandbox_new_def modify_def)
qed

lemmas register_ok_weak = register_ok [THEN sandboxes_ok_weaken, OF _ _ _ subset_insertI]

lemma keeps_sandbox_ok [ok_intros]:
  "keeps (sandboxes_ok root N) (sandbox_namespace r)" "keeps (sandboxes_ok root N) (sandbox_setup os r)"
  "keeps (sandboxes_ok root N) (launch_dns os r runner)" "keeps (sandboxes_ok root N) (sandbox_veth_count os r)"
  "keeps (sandboxes_ok root N) (teardown os r)"
proof -
  show ns: "keeps (sandboxes_ok root N) (sandbox_namespace r)" for r
    by (simp add: sandbox_namespace_def keeps_intros)
  show "keeps (sandboxes_ok root N) (sandbox_setup os r)" "keeps (sandboxes_ok root N) (sandbox_veth_count os r)"
    unfolding sandbox_setup_def sandbox_veth_count_def
    by (intro keeps_intros ns keeps_ns_execute_ok keeps_system_ok system_intros)+
  have update: "keeps (sandboxes_ok root N) (modify (update_sandbox r f))" if "\<And>b. sb_namespace (f b) = sb_namespace b" for f
    by (rule keeps_modify) (simp add: sandboxes_ok_update that)
  have exited: "keeps (sandboxes_ok root N) (case x of None \<Rightarrow> ret () | Some None \<Rightarrow> fail e | Some (Some y) \<Rightarrow> fail (g y))"
    for x :: "goerror option option" and e g
    by (auto intro!: keeps_intros split: option.split)
  have kill: "keeps (sandboxes_ok root N) (case d of None \<Rightarrow> ret () | Some p \<Rightarrow> sys_do (f p))" for d f
    by (auto intro!: keeps_intros keeps_system_ok system_intros split: option.split)
  show "keeps (sandboxes_ok root N) (launch_dns os r runner)"
    unfolding launch_dns_def
    by (intro keeps_bind_err update exited keeps_gets keeps_system_ok system_only_basic) simp
  show "keeps (sandboxes_ok root N) (teardown os r)"
    unfolding teardown_def
    by (intro keeps_bind_err keeps_bind_wrap keeps_if keeps_fail keeps_gets sandboxes_ok_stop kill update) simp
qed

lemma keeps_sandboxes_get_ok [ok_intros]: "keeps (sandboxes_ok root N) (sandboxes_get name)"
  unfolding sandboxes_get_def
  by (rule keeps_repo_lock_ok) (simp add: keeps_def get_unlocked_def split: option.split)

lemma sandboxes_get_registered:
  assumes "sandboxes_get name s = (Ok r, t)"
  shows "sandboxes t name = Some r"
  using assms
  by (auto simp: sandboxes_get_def with_repo_lock_def deadlock_def deferring_def get_unlocked_def
      split: if_splits option.splits)

lemma keeps_sandboxes_create_ok [ok_intros]:
  assumes "opens_by_name os"
  shows "keeps (sandboxes_ok root N) (sandboxes_create os root name)"
proof -
  have rest: "keeps (sandboxes_ok root (insert name N)) (bind_wrap ''setup sandbox'' (sandbox_setup os r) (\<lambda>_. ret r))" for r
    by (intro keeps_intros keeps_sandbox_ok)
  show ?thesis
    unfolding sandboxes_create_def
  proof (intro keeps_repo_lock_ok keeps_bind_err keeps_gets keeps_if keeps_fail)
    show "keeps (sandboxes_ok root N) (bind_wrap ''create namespace'' (repo_create os root name) (\<lambda>ns.
         bind_err (sandbox_new ns) (\<lambda>r.
         bind_err (modify (\<lambda>s. s\<lparr>sandboxes := (sandboxes s)(name \<mapsto> r)\<rparr>)) (\<lambda>_.
         bind_wrap ''setup sandbox'' (sandbox_setup os r) (\<lambda>_. ret r)))))"
      by (rule keeps_bind_wrap_result [where Q = "\<lambda>ns t. file_name ns = path_of root name"])
         (auto intro: keeps_system_ok system_intros repo_create_name [OF assms]
           register_ok_weak [OF _ _ rest])
  qed
qed

lemma keeps_load_files_ok:
  assumes "opens_by_name os"
  shows "keeps (sandboxes_ok root N :: ('k, 'z) sandbox_world_scheme \<Rightarrow> bool) (load_files os root dir ps)"
proof (induction ps arbitrary: N)
  case (Cons p ps)
  have rest: "keeps (sandboxes_ok root (insert (path_base p) N) :: ('k, 'z) sandbox_world_scheme \<Rightarrow> bool) (load_files os root dir ps)"
    by (rule Cons.IH)
  have "keeps (sandboxes_ok root N :: ('k, 'z) sandbox_world_scheme \<Rightarrow> bool) (bind_wrap ''loading sandbox repo'' (repo_get os root (path_base p)) (\<lambda>ns.
      bind_err (sandbox_new ns) (\<lambda>r.
      bind_err (modify (\<lambda>s. s\<lparr>sandboxes := (sandboxes s)(path_base p \<mapsto> r)\<rparr>)) (\<lambda>_.
      load_files os root dir ps))))"
    by (rule keeps_bind_wrap_result [where Q = "\<lambda>ns t. file_name ns = path_of root (path_base p)"])
       (auto intro: keeps_system_ok system_intros repo_get_name [OF assms]
         register_ok_weak [OF _ _ rest])
  then show ?case
    unfolding load_files.simps by (intro keeps_if Cons.IH)
qed (simp add: keeps_intros)

lemma keeps_sandboxes_load_ok [ok_intros]:
  assumes "opens_by_name os"
  shows "keeps (sandboxes_ok root N) (sandboxes_load os root dir)"
  unfolding sandboxes_load_def
proof (rule keeps_repo_lock_ok, rule keepsI)
  fix s :: "('a, 'b) sandbox_world_scheme"
  show "sandboxes_ok root N s \<Longrightarrow>
      sandboxes_ok root N (snd (load_files os root dir (os_walk os dir (kernel s)) s))"
    by (rule keeps_load_files_ok [OF assms, unfolded keeps_def, rule_format])
qed

text \<open>Destroying: the monitor is stopped before the sandbox is forgotten.\<close>

lemma teardown_stops:
  assumes "teardown os r s = (Ok u, t)"
  shows "done_chans t = (done_chans s)(file_name (sb_namespace (the_sandbox r s)) := None) \<and>
    map sb_namespace (objects t) = map sb_namespace (objects s) \<and> sandboxes t = sandboxes s"
proof -
  let ?b = "the_sandbox r s"
  have "(bind_wrap ''stop monitor'' (stop_monitor (sb_namespace ?b)) (\<lambda>_.
       bind_err (case sb_dns ?b of None \<Rightarrow> ret () | Some p \<Rightarrow> sys_do (\<lambda>k. ((), os_kill os p k))) (\<lambda>_.
       modify (update_sandbox r (\<lambda>b. b\<lparr>sb_destroyed := True\<rparr>))))) s = (Ok u, t)"
    using assms by (auto simp: teardown_def bind_err_eval(1) gets_def fail_def split: if_splits)
  then obtain v s1 s2 w where s1: "stop_monitor (sb_namespace ?b) s = (Ok v, s1)"
      "(case sb_dns ?b of None \<Rightarrow> ret () | Some p \<Rightarrow> sys_do (\<lambda>k. ((), os_kill os p k))) s1 = (Ok w, s2)"
      "modify (update_sandbox r (\<lambda>b. b\<lparr>sb_destroyed := True\<rparr>)) s2 = (Ok u, t)"
    by (auto elim!: bind_wrap_OkE bind_err_OkE)
  have "\<exists>k. s2 = s1\<lparr>kernel := k\<rparr>"
    using s1(2) by (auto simp: ret_def sys_do_def split: option.splits intro: exI [of _ "kernel s1"])
  then have s2: "done_chans s2 = done_chans s1" "objects s2 = objects s1" "sandboxes s2 = sandboxes s1"
    by auto
  have "map sb_namespace ((objects s1)[r := (objects s1 ! r)\<lparr>sb_destroyed := True\<rparr>]) = map sb_namespace (objects s1)"
    by (cases "r < length (objects s1)") (simp_all add: map_update list_update_same_conv list_update_beyond)
  moreover have "t = update_sandbox r (\<lambda>b. b\<lparr>sb_destroyed := True\<rparr>) s2"
    using s1(3) by (simp add: modify_def)
  ultimately show ?thesis
    using s2 stop_monitor_frame [OF s1(1)] stop_monitor_chans [of "sb_namespace ?b" s] s1(1)
    by (simp add: update_sandbox_def)
qed

lemma keeps_sandboxes_destroy_ok [ok_intros]:
  "keeps (sandboxes_ok root {}) (sandboxes_destroy os root' name)"
  unfolding sandboxes_destroy_def
proof (rule keeps_repo_lock_ok, rule keepsI)
  fix s :: "('a, 'b) sandbox_world_scheme"
  let ?after = "\<lambda>r. bind_err (sandbox_namespace r) (\<lambda>ns. bind_wrap ''namespace destroy'' (repo_destroy os root' ns) (\<lambda>_.
       modify (\<lambda>s. s\<lparr>sandboxes := (sandboxes s)(name := None)\<rparr>)))"
  assume ok: "sandboxes_ok root {} s"
  show "sandboxes_ok root {} (snd (bind_err (get_unlocked name) (\<lambda>r.
       bind_wrap ''teardown'' (teardown os r) (\<lambda>_. ?after r)) s))"
  proof (cases "sandboxes s name")
    case None
    with ok show ?thesis by (simp add: bind_err_eval(2) get_unlocked_def fail_def)
  next
    case (Some r)
    have eval: "bind_err (get_unlocked name) (\<lambda>r. bind_wrap ''teardown'' (teardown os r) (\<lambda>_. ?after r)) s =
        bind_wrap ''teardown'' (teardown os r) (\<lambda>_. ?after r) s"
      using Some by (simp add: bind_err_eval(1) get_unlocked_def)
    obtain q t where t: "teardown os r s = (q, t)" by fastforce
    have t_ok: "sandboxes_ok root {} t"
      using keeps_sandbox_ok(5) ok t by (rule keepsD)
    have "sandboxes_ok root {} (snd (?after r t))" if q: "q = Ok u" for u
    proof -
      let ?Q = "\<lambda>s :: ('a, 'b) sandbox_world_scheme. sandboxes_ok root {} s \<and> done_chans s (path_of root name) = None"
      have "?Q t"
        using t_ok teardown_stops [OF t [unfolded q]] sandboxes_ok_file [OF ok Some] by simp
      moreover have "keeps ?Q (sandbox_namespace r)"
        by (simp add: sandbox_namespace_def keeps_intros)
      moreover have "keeps ?Q (repo_destroy os root' ns)" for ns
        by (rule keeps_system [OF system_only_namespace(7)]) simp
      moreover have "keeps ?Q (modify (\<lambda>s. s\<lparr>sandboxes := (sandboxes s)(name := None)\<rparr>))"
        by (rule keeps_modify) (simp add: sandboxes_ok_unregister)
      ultimately have "keeps ?Q (?after r)"
        by (intro keeps_intros)
      with \<open>?Q t\<close> show ?thesis by (simp add: keeps_def)
    qed
    with t_ok show ?thesis
      unfolding eval using t by (cases q) (simp_all add: bind_wrap_eval)
  qed
qed

section \<open>Commands\<close>

text \<open>The sandboxes for which a command starts monitors, and whether it may destroy a sandbox.\<close>

fun monitored :: "command \<Rightarrow> string set" where
  "monitored (Group cs) = (\<Union>c \<in> set cs. monitored c)"
| "monitored (Unless b c) = monitored c"
| "monitored (InNamespace ns c) = monitored c"
| "monitored (StartMonitor h s v) = {s}"
| "monitored _ = {}"

fun destroys :: "command \<Rightarrow> bool" where
  "destroys (Group cs) = list_ex destroys cs"
| "destroys (Unless b c) = destroys c"
| "destroys (InNamespace ns c) = destroys c"
| "destroys (CleanupSandbox s v) = True"
| "destroys _ = False"

lemma keeps_labelled: "keeps P m \<Longrightarrow> keeps P (labelled p m)"
  unfolding labelled_def by (intro keeps_intros)

lemma keeps_satisfied_ok [ok_intros]: "keeps (sandboxes_ok root N) (satisfied env b)"
  unfolding satisfied_defs
  by (cases b) (simp_all add: keeps_intros ok_intros system_intros)

lemma keeps_move_link_ok [ok_intros]: "keeps (sandboxes_ok root N) (move_link os name sandbox)"
  unfolding move_link_def
  by (intro keeps_intros keeps_sandboxes_get_ok keeps_sandbox_ok keeps_system_ok system_intros)

lemma keeps_start_dns_ok [ok_intros]: "keeps (sandboxes_ok root N) (start_dns_server env addr name)"
  unfolding start_dns_server_def Let_def
  by (intro keeps_intros keeps_sandboxes_get_ok keeps_sandbox_lock_ok keeps_sandbox_ok keeps_ns_execute_ok keeps_system_ok system_intros)

lemma keeps_cleanup_ok [ok_intros]: "keeps (sandboxes_ok root {}) (cleanup_sandbox env name device)"
  unfolding cleanup_sandbox_def Let_def
  by (intro keeps_intros keeps_sandboxes_get_ok keeps_sandbox_lock_ok keeps_sandbox_ok keeps_ns_execute_ok
      keeps_sandboxes_destroy_ok keeps_system_ok system_intros)

text \<open>A monitor is started for a sandbox that is registered.\<close>

lemma keeps_monitor_command_ok [ok_intros]:
  assumes "opens_by_name (env_os env)" "name \<in> N"
  shows "keeps (sandboxes_ok (env_root env) N) (monitor_command env host name vxlan)"
  unfolding monitor_command_def Let_def
proof (rule keeps_bind_wrap_result [where Q = "\<lambda>ns t. file_name ns = path_of (env_root env) name"])
  fix ns :: go_file and s :: "('a, 'b) exec_world_scheme"
  assume s: "sandboxes_ok (env_root env) N s" and ns: "file_name ns = path_of (env_root env) name"
  have "keeps (sandboxes_ok (env_root env) N :: ('a, 'b) exec_world_scheme \<Rightarrow> bool) (start_monitor (env_os env) ns vxlan)"
    by (rule keepsI, rule keeps_start_monitor_ok [OF _ _ ns]) (use assms(2) in \<open>auto simp: sandboxes_ok_def\<close>)
  then have "keeps (sandboxes_ok (env_root env) N :: ('a, 'b) exec_world_scheme \<Rightarrow> bool) (ns_execute (env_os env) host
      (\<lambda>_. bind_wrap ''watcher start monitor'' (start_monitor (env_os env) ns vxlan) (\<lambda>_. ret ())))"
    by (intro keeps_ns_execute_ok keeps_intros)
  with s show "sandboxes_ok (env_root env) N (snd (ns_execute (env_os env) host
      (\<lambda>_. bind_wrap ''watcher start monitor'' (start_monitor (env_os env) ns vxlan) (\<lambda>_. ret ())) s))"
    by (simp add: keeps_def)
qed (auto intro: keeps_system_ok system_intros repo_get_name [OF assms(1)])

lemma keeps_store_hw_ok [ok_intros]: "keeps (sandboxes_ok root N) (modify (\<lambda>s. s\<lparr>hw_result := a\<rparr>))"
  by (rule keeps_modify) simp

lemma keeps_exec_ok:
  fixes P :: "('k, 'z) exec_world_scheme \<Rightarrow> bool"
  assumes "opens_by_name (env_os env)" "P = sandboxes_ok (env_root env) N"
  shows "monitored c \<subseteq> N \<Longrightarrow> destroys c \<longrightarrow> N = {} \<Longrightarrow> keeps P (exec env c)"
    and "(\<Union>c \<in> set cs. monitored c) \<subseteq> N \<Longrightarrow> list_ex destroys cs \<longrightarrow> N = {} \<Longrightarrow> keeps P (exec_group env g i cs)"
  using assms
proof (induction env c and env g i cs rule: exec_exec_group.induct)
qed (simp_all add: execute_defs keeps_labelled keeps_intros ok_intros system_intros)

section \<open>Containers\<close>

lemma setup_monitors:
  "monitored (idempotently_create_vxlan h v s n) = {s}" "\<not> destroys (idempotently_create_vxlan h v s n)"
  "monitored (add_routes i cfg) = {}" "\<not> destroys (add_routes i cfg)"
  "monitored route = {} \<Longrightarrow> monitored (setup_veth n l i a s route) = {}"
  "\<not> destroys route \<Longrightarrow> \<not> destroys (setup_veth n l i a s route)"
  "monitored (idempotently_setup_bridge v l b n cfg) = {}" "\<not> destroys (idempotently_setup_bridge v l b n cfg)"
  "monitored (idempotently_create_sandbox s v vni dns) = {}" "\<not> destroys (idempotently_create_sandbox s v vni dns)"
  by (simp_all add: idempotently_create_vxlan_def add_routes_def setup_veth_def
      idempotently_setup_bridge_def idempotently_create_sandbox_def All_def add_route_command_def list_ex_iff)

lemma keeps_setup_in_sandbox_ok:
  assumes "opens_by_name (env_os (cr_env c))"
  shows "keeps (sandboxes_ok (env_root (cr_env c)) {sandbox_name (cc_vni config)})
    (setup_in_sandbox c config ip4 ns r)"
  unfolding setup_in_sandbox_def Let_def
  by (intro keeps_bind_err keeps_exec_ok(1) [OF assms refl] keeps_sandbox_ok keeps_store_hw_ok keeps_gets)
     (simp_all add: All_def setup_monitors)

text \<open>The sandbox of the container is registered while its monitor is started.\<close>

lemma keeps_creator_setup_ok:
  assumes "opens_by_name (env_os (cr_env c))"
  shows "keeps (sandboxes_ok (env_root (cr_env c)) {}) (creator_setup c config)"
proof -
  let ?name = "sandbox_name (cc_vni config)" and ?root = "env_root (cr_env c)"
  have found: "keeps (sandboxes_ok ?root {} :: ('a, 'b) exec_world_scheme \<Rightarrow> bool)
      (bind_wrap ''get sandbox'' (sandboxes_get ?name) (\<lambda>r. with_sandbox_lock r (setup_in_sandbox c config ip4 ns r)))"
    for ip4 ns
  proof (rule keeps_bind_wrap_result [where Q = "\<lambda>r t. sandboxes t ?name = Some r"])
    fix r and s :: "('a, 'b) exec_world_scheme"
    assume "sandboxes_ok ?root {} s" "sandboxes s ?name = Some r"
    then have "sandboxes_ok ?root {?name} s" by (simp add: sandboxes_ok_insert)
    moreover have "keeps (sandboxes_ok ?root {?name} :: ('a, 'b) exec_world_scheme \<Rightarrow> bool)
        (with_sandbox_lock r (setup_in_sandbox c config ip4 ns r))"
      by (intro ok_intros keeps_setup_in_sandbox_ok assms)
    ultimately have "sandboxes_ok ?root {?name} (snd (with_sandbox_lock r (setup_in_sandbox c config ip4 ns r) s))"
      by (simp add: keeps_def)
    then show "sandboxes_ok ?root {} (snd (with_sandbox_lock r (setup_in_sandbox c config ip4 ns r) s))"
      by (rule sandboxes_ok_weaken) simp
  qed (auto intro: ok_intros sandboxes_get_registered)
  have create: "keeps (sandboxes_ok ?root {} :: ('a, 'b) exec_world_scheme \<Rightarrow> bool)
      (exec (cr_env c) (idempotently_create_sandbox n v i a))" for n v i a
    by (rule keeps_exec_ok(1) [OF assms refl]) (simp_all add: setup_monitors)
  show ?thesis
    unfolding creator_setup_def Let_def
    by (cases "res_ip4 (cc_ipam_result config)") (simp_all add: keeps_intros ok_intros system_intros found create)
qed

lemma keeps_deletor_delete_ok:
  assumes "opens_by_name (env_os env)"
  shows "keeps (sandboxes_ok (env_root env) {}) (deletor_delete env i p s v)"
  unfolding deletor_delete_def
  by (intro keeps_intros keeps_exec_ok(1) [OF assms refl] keeps_system_ok system_intros) (simp_all add: All_def)

end
