(* ===== verification/Daemon_Invariant.thy ===== *)
theory Daemon_Invariant
  imports Startup_Props Sandbox_Inv
begin

text \<open>
  The invariant of the whole daemon: established by the start of the main program and kept by
  every request, whatever it asks for and however it ends.
\<close>

section \<open>The invariant\<close>

text \<open>
  Between requests: the sandboxes and their monitors are as they should be, no mutex is held, and
  the allocator is in a state that calls of its two operations can have brought about.
\<close>

definition daemon_ok :: "ip_config \<Rightarrow> string \<Rightarrow> ('k, 'z) daemon_scheme \<Rightarrow> bool" where
  "daemon_ok base root s \<longleftrightarrow> sandboxes_ok root {} s \<and> all_free s \<and> ipam_reached base (ipam_state s)"

lemma sandboxes_ok_ipam [simp]: "sandboxes_ok root N (s\<lparr>ipam_state := a\<rparr>) = sandboxes_ok root N s"
  by (rule sandboxes_ok_same) (simp_all add: object_files_def)

lemma keeps_on_ipam_ok [ok_intros]: "keeps (sandboxes_ok root N) (on_ipam m)"
  by (simp add: keeps_def on_ipam_def split: prod.split)

section \<open>Requests\<close>

definition wiring_root :: "'k wiring \<Rightarrow> string" where
  "wiring_root S = env_root (cr_env (su_creator S))"

lemma keeps_controllers_ok:
  assumes "opens_by_name (su_os S)"
  shows "keeps (sandboxes_ok (wiring_root S) {}) (cni_add S p)"
    and "keeps (sandboxes_ok (wiring_root S) {}) (cni_del S d)"
proof -
  have os: "opens_by_name (env_os (cr_env (su_creator S)))" using assms by (simp add: su_os_def)
  show "keeps (sandboxes_ok (wiring_root S) {}) (cni_add S p)"
    unfolding cni_add_def wiring_root_def
    by (intro keeps_intros keeps_creator_setup_ok [OF os] keeps_on_ipam_ok keeps_system_ok system_intros)
  show "keeps (sandboxes_ok (wiring_root S) {}) (cni_del S d)"
    unfolding cni_del_def wiring_root_def
    by (intro keeps_intros keeps_deletor_delete_ok [OF os] keeps_on_ipam_ok keeps_system_ok system_intros)
qed

text \<open>The requests that only read the datastore.\<close>

lemma system_only_reads:
  "system_only (handle_get_container os cd i)" "system_only (handle_networks_list os cd i)"
  "system_only (handle_list_containers os cd)"
  by (simp_all add: handle_get_container_def handle_networks_list_def handle_list_containers_def system_intros)

text \<open>What the two controllers keep, every request keeps.\<close>

lemma keeps_serve:
  assumes kernel: "\<And>s k. P (s\<lparr>kernel := k\<rparr>) = P s"
    and controllers: "\<And>p. keeps P (cni_add S p)" "\<And>d. keeps P (cni_del S d)"
  shows "keeps P (serve S cd router req_method req_path body)"
proof -
  have add: "keeps P (handle_cni_add S cd body)"
    unfolding handle_cni_add_def
    by (cases body) (simp_all add: keeps_intros controllers split: sum.split)
  have del: "keeps P (handle_cni_del S cd body)"
    unfolding handle_cni_del_def
    by (cases body) (simp_all add: keeps_intros controllers split: sum.split)
  have "keeps P (rata_handler S cd name param body)" for name param
    unfolding rata_handler_def
    by (intro keeps_if keeps_ret add del keeps_system [OF system_only_reads(1) kernel]
        keeps_system [OF system_only_reads(2) kernel] keeps_system [OF system_only_reads(3) kernel])
  then show ?thesis
    unfolding serve_def by (simp add: keeps_intros split: option.split)
qed

lemma lock_safe_reads:
  "lock_stable P \<Longrightarrow> lock_safe P (handle_get_container os cd i)"
  "lock_stable P \<Longrightarrow> lock_safe P (handle_networks_list os cd i)"
  "lock_stable P \<Longrightarrow> lock_safe P (handle_list_containers os cd)"
  by (simp_all add: handle_get_container_def handle_networks_list_def handle_list_containers_def lock_intros)

lemma lock_safe_rata_handler: "lock_safe all_free (rata_handler S cd name param body)"
  unfolding rata_handler_def
  by (intro lock_safe_if lock_safe_basic lock_safe_handlers lock_safe_reads stable_all_free)

lemma lock_safe_serve: "lock_safe all_free (serve S cd router req_method req_path body)"
  by (simp add: serve_def lock_intros lock_safe_rata_handler split: option.split)

text \<open>The allocator is only reached through its operations.\<close>

lemma keeps_confined_reached:
  "confined m \<Longrightarrow> keeps (\<lambda>s. ipam_reached base (ipam_state s)) m"
  by (simp add: keeps_def confined_def)

lemma keeps_ipam_reached:
  "keeps (\<lambda>s. ipam_reached base (ipam_state s)) (on_ipam (ducati_allocate base n c))"
  "keeps (\<lambda>s. ipam_reached base (ipam_state s)) (on_ipam (ducati_release n c))"
proof -
  show "keeps (\<lambda>s. ipam_reached base (ipam_state s)) (on_ipam (ducati_allocate base n c))"
    using ipam_reached_step [of base _ "AllocateIP n c"]
    by (auto simp: keeps_def on_ipam_def split: prod.split)
  show "keeps (\<lambda>s. ipam_reached base (ipam_state s)) (on_ipam (ducati_release n c))"
    using ipam_reached_step [of base _ "ReleaseIP n c"]
    by (auto simp: keeps_def on_ipam_def split: prod.split)
qed

lemma keeps_controllers_reached:
  "keeps (\<lambda>s. ipam_reached (su_base S) (ipam_state s)) (cni_add S p)"
  "keeps (\<lambda>s. ipam_reached (su_base S) (ipam_state s)) (cni_del S d)"
  unfolding cni_add_def cni_del_def
  by (intro keeps_bind_wrap keeps_bind_err keeps_ipam_reached keeps_confined_reached confined_intros)+

lemma keeps_serve_reached:
  "keeps (\<lambda>s. ipam_reached (su_base S) (ipam_state s)) (serve S cd router req_method req_path body)"
  by (rule keeps_serve [OF _ keeps_controllers_reached]) simp

lemma serve_daemon_ok:
  assumes os: "opens_by_name (su_os S)"
    and ok: "daemon_ok (su_base S) (wiring_root S) s"
    and served: "serve S cd router req_method req_path body s = (r, t)"
  shows "daemon_ok (su_base S) (wiring_root S) t \<and> r \<noteq> Abort Deadlock"
proof -
  have "sandboxes_ok (wiring_root S) {} t"
    using keepsD [OF keeps_serve [OF sandboxes_ok_frame(1) keeps_controllers_ok [OF os]] _ served] ok
    by (simp add: daemon_ok_def)
  moreover have "ipam_reached (su_base S) (ipam_state t)"
    using keeps_serve_reached [of S cd router req_method req_path body] ok served
    by (auto simp: daemon_ok_def keeps_def dest!: spec [of _ s])
  moreover have "all_free t \<and> r \<noteq> Abort Deadlock"
    using lock_safeD [OF lock_safe_serve _ served] ok stable_all_free
    unfolding daemon_ok_def lock_stable_def by blast
  ultimately show ?thesis by (simp add: daemon_ok_def)
qed

section \<open>The start\<close>

text \<open>Every visited sandbox is registered, so its monitor may be started.\<close>

lemma for_each_monitor_ok:
  "keeps (sandboxes_ok root {} :: ('k, 'z) sandbox_world_scheme \<Rightarrow> bool) (for_each_sandbox (reloader_callback os) names)"
proof (induction names)
  case (Cons n names)
  show ?case
  proof (rule keepsI)
    fix s :: "('k, 'z) sandbox_world_scheme"
    assume ok: "sandboxes_ok root {} s"
    show "sandboxes_ok root {} (snd (for_each_sandbox (reloader_callback os) (n # names) s))"
    proof (cases "sandboxes s n")
      case None
      with Cons ok show ?thesis by (simp add: bind_err_eval(1) gets_def keeps_def)
    next
      case (Some r)
      let ?file = "sb_namespace (the_sandbox r s)"
      obtain q t where t: "reloader_callback os ?file s = (q, t)" by fastforce
      have "sandboxes_ok root {} (snd (start_monitor os ?file v s))" for v
        using keeps_start_monitor_ok [OF ok _ sandboxes_ok_file [OF ok Some]] Some by simp
      then have "sandboxes_ok root {} t"
        using t ok
        by (auto simp: reloader_callback_def bind_wrap_def attempt_def pick_def fail_def ret_def
            split: sum.splits prod.splits outcome.splits) (metis snd_conv)+
      with Cons t Some show ?thesis
        by (cases q) (auto simp: bind_err_eval(1) bind_wrap_eval gets_def sandbox_namespace_def keeps_def)
    qed
  qed
qed (simp add: keeps_intros)

lemma keeps_restart_ok:
  assumes "opens_by_name os"
  shows "keeps (sandboxes_ok dir {}) (restart_monitors os order dir)"
  unfolding restart_monitors_def sandboxes_for_each_def
  by (intro keeps_intros keeps_sandboxes_load_ok [OF assms] keeps_repo_lock_ok for_each_monitor_ok)

lemma lock_safe_reloader: "lock_safe registered (reloader_callback os ns)"
  unfolding reloader_callback_def by (intro lock_intros stable_registered)

lemma lock_safe_for_each:
  "lock_safe registered (for_each_sandbox (reloader_callback os) names)"
proof (induction names)
  case (Cons n names)
  show ?case
    unfolding for_each_sandbox.simps
    by (intro lock_safe_bind lock_safe_basic stable_registered)
       (auto intro!: lock_safe_bind lock_safe_sandbox stable_registered lock_safe_reloader Cons split: option.split)
qed (simp add: lock_intros)

lemma lock_safe_restart: "lock_safe repo_free (restart_monitors os order dir)"
  unfolding restart_monitors_def sandboxes_for_each_def
  by (intro lock_safe_bind lock_safe_sandboxes lock_safe_basic stable_repo_free lock_safe_with_repo_lock lock_safe_for_each)

lemma sandboxes_ok_init: "sandboxes_ok root {} (daemon_init k)"
  by (simp add: sandboxes_ok_def watch_ok_def refs_ok_def names_ok_def monitors_ok_def daemon_init_def)

lemma all_free_repo: "all_free s \<Longrightarrow> lock_safe repo_free m \<Longrightarrow> m s = (r, t) \<Longrightarrow> all_free t"
proof -
  assume "all_free s" "lock_safe repo_free m" "m s = (r, t)"
  then have "settled s t"
    using lock_safeD [of repo_free m s r t] by (simp add: all_free_repo_free)
  with \<open>all_free s\<close> show "all_free t"
    using stable_all_free unfolding lock_stable_def by blast
qed

lemma lock_safe_main: "lock_safe repo_free (main os connect order config)"
  unfolding main_def overlay_check_def store_new_def setup_tables_def new_repository_def open_path_def
  by (intro lock_intros stable_repo_free lock_safe_restart)

lemma main_root:
  assumes "main os connect order (Inr conf) s = (Ok S, t)"
  shows "wiring_root S = vc_sandbox_dir conf \<and> su_os S = os \<and> su_base S = base_config conf"
  using main_wires [OF assms] by (auto simp: wiring_root_def su_os_def main_wiring_def main_env_def executor_new_def)

lemma bind_wrap_pick: "bind_wrap p (pick (Inr x)) k = k x"
  by (simp add: fun_eq_iff bind_wrap_def attempt_def pick_def)

lemma keeps_main_ok:
  assumes "opens_by_name os"
  shows "keeps (sandboxes_ok (vc_sandbox_dir conf) {}) (main os connect order (Inr conf))"
  unfolding main_def bind_wrap_pick overlay_check_def new_repository_def
  by (intro keeps_bind_wrap keeps_bind_err keeps_if keeps_ret keeps_fail keeps_restart_ok assms keeps_system_ok system_intros)

lemma main_daemon_ok:
  assumes os: "opens_by_name os" and started: "main os connect order (Inr conf) (daemon_init k) = (Ok S, s)"
  shows "daemon_ok (base_config conf) (vc_sandbox_dir conf) s"
proof -
  have "sandboxes_ok (vc_sandbox_dir conf) {} s"
    by (rule keepsD [OF keeps_main_ok [OF os] sandboxes_ok_init started])
  moreover have "all_free s"
    by (rule all_free_repo [OF all_free_daemon_init lock_safe_main started])
  moreover have "ipam_state s = new_allocator"
    using main_wires [OF started] by (simp add: daemon_init_def)
  ultimately show ?thesis
    by (simp add: daemon_ok_def ipam_reached_new)
qed

section \<open>The life of the daemon\<close>

text \<open>Requests are given by method, path and body, or the error of reading it.\<close>

fun serve_all ::
  "'k wiring \<Rightarrow> codec \<Rightarrow> (string \<Rightarrow> string \<Rightarrow> (string \<times> string) option) \<Rightarrow> (string \<times> string \<times> (goerror + string)) list \<Rightarrow>
   'k daemon \<Rightarrow> response outcome list \<times> 'k daemon" where
  "serve_all S cd router [] s = ([], s)"
| "serve_all S cd router ((req_method, req_path, body) # reqs) s =
     (case serve S cd router req_method req_path body s of
        (r, t) \<Rightarrow> (case serve_all S cd router reqs t of (rs, u) \<Rightarrow> (r # rs, u)))"

lemma serve_all_daemon_ok:
  "opens_by_name (su_os S) \<Longrightarrow> daemon_ok (su_base S) (wiring_root S) s \<Longrightarrow>
   serve_all S cd router reqs s = (rs, t) \<Longrightarrow>
   daemon_ok (su_base S) (wiring_root S) t \<and> Abort Deadlock \<notin> set rs"
proof (induction reqs arbitrary: s rs)
  case (Cons req reqs)
  obtain m p b where req: "req = (m, p, b)" by (cases req) auto
  obtain r u where u: "serve S cd router m p b s = (r, u)" by fastforce
  obtain qs where qs: "serve_all S cd router reqs u = (qs, t)" "rs = r # qs"
    using Cons.prems(3) u by (auto simp: req split: prod.splits)
  from serve_daemon_ok [OF Cons.prems(1,2) u] Cons.IH [OF Cons.prems(1) _ qs(1)] qs(2) show ?case by auto
qed simp

text \<open>
  C5: From the start of the daemon on, after any sequence of requests of any clients, however each of
  them ended: every registered sandbox is an object of its own, whose namespace is the file of its
  name in the sandbox directory; only namespaces of registered sandboxes have a monitor, each with
  an open channel of its own; no mutex is held, and no request has blocked on one; the allocator
  is as calls of \<open>AllocateIP\<close> and \<open>ReleaseIP\<close> with the daemon's subnet can have left it.
\<close>

theorem daemon_keeps_invariant:
  assumes os: "opens_by_name os"
    and started: "main os connect order (Inr conf) (daemon_init k) = (Ok S, s)"
    and served: "serve_all S cd router reqs s = (rs, t)"
  shows "daemon_ok (base_config conf) (vc_sandbox_dir conf) t \<and> Abort Deadlock \<notin> set rs"
  using serve_all_daemon_ok [OF _ _ served] main_daemon_ok [OF os started] main_root [OF started] os by simp

lemma sim_opens_by_name: "opens_by_name sim_os"
  by (auto simp: opens_by_name_def sim_os_def sim_open_def sim_try_def split: if_splits option.splits)

lemma daemon_keeps_invariant_witness:
  "\<exists>S s. main sim_os (\<lambda>url k. (Inr (), k)) [] (Inr demo_conf) (daemon_init two_containers) = (Ok S, s) \<and>
     daemon_ok (base_config demo_conf) ''/sb''
       (snd (serve_all S demo_codec (\<lambda>m p. Some (p, [])) [(''POST'', ''cni_add'', Inr ''a''), (''POST'', ''cni_del'', Inr ''d'')] s))"
proof -
  obtain s where started: "main sim_os (\<lambda>url k. (Inr (), k)) [] (Inr demo_conf) (daemon_init two_containers) =
      (Ok (main_wiring sim_os demo_conf demo_host), s)"
    using demo_main_ok [OF demo_first_life(1)] unfolding demo_main_def by blast
  have "vc_sandbox_dir demo_conf = ''/sb''" by (simp add: demo_conf_def)
  with daemon_keeps_invariant [OF sim_opens_by_name started prod.collapse [symmetric]] started show ?thesis
    by metis
qed

end
