(* ===== verification/Stuck_Sandboxes.thy ===== *)
theory Stuck_Sandboxes
  imports Daemon_Invariant
begin

text \<open>
  Sandboxes that get stuck (\<open>sandbox/repository.go\<close>, \<open>sandbox/sandbox.go\<close>): a sandbox that is
  marked as destroyed and still registered stays so, whatever the daemon is asked to do next.
\<close>

section \<open>Stuck sandboxes\<close>

definition stuck :: "string \<Rightarrow> sandbox_ref \<Rightarrow> ('k, 'z) sandbox_world_scheme \<Rightarrow> bool" where
  "stuck name r s \<longleftrightarrow> sandboxes s name = Some r \<and> r < length (objects s) \<and> sb_destroyed (the_sandbox r s)"

lemma stuck_same:
  "sandboxes t = sandboxes s \<Longrightarrow> objects t = objects s \<Longrightarrow> stuck name r t = stuck name r s"
  by (simp add: stuck_def the_sandbox_def)

lemma stuck_frame [simp]:
  "stuck name r (s\<lparr>kernel := k\<rparr>) = stuck name r s"
  "stuck name r (s\<lparr>inserters := is\<rparr>) = stuck name r s"
  "stuck name r (s\<lparr>subscriptions := ss\<rparr>) = stuck name r s"
  "stuck name r (s\<lparr>repo_locked := b\<rparr>) = stuck name r s"
  by (rule stuck_same; simp)+

lemma stuck_more [simp]:
  "stuck name r (s\<lparr>hw_result := a\<rparr>) = stuck name r s"
  by (rule stuck_same) simp_all

lemma stuck_ipam [simp]: "stuck name r (s\<lparr>ipam_state := a\<rparr>) = stuck name r s"
  by (rule stuck_same) simp_all


lemma stuck_lock [simp]: "stuck name r (update_sandbox q (\<lambda>b. b\<lparr>sb_locked := l\<rparr>) s) = stuck name r s"
  by (cases "q = r"; cases "q < length (objects s)")
    (auto simp: stuck_def update_sandbox_def the_sandbox_def nth_list_update)








section \<open>The repository\<close>







section \<open>Commands and requests\<close>






section \<open>The life of a stuck sandbox\<close>









section \<open>A failed Destroy\<close>

text \<open>The caller of \<open>Destroy\<close> may hold the mutex of the sandbox, as \<open>CleanupSandbox\<close> does.\<close>

definition unlock_sandbox :: "sandbox_ref \<Rightarrow> ('k, 'z) sandbox_world_scheme \<Rightarrow> ('k, 'z) sandbox_world_scheme" where
  "unlock_sandbox r = update_sandbox r (\<lambda>b. b\<lparr>sb_locked := False\<rparr>)"

lemma unlock_sandbox_simps [simp]:
  "repo_locked (unlock_sandbox r s) = repo_locked s" "sandboxes (unlock_sandbox r s) = sandboxes s"
  "length (objects (unlock_sandbox r s)) = length (objects s)" "registered (unlock_sandbox r s) = registered s"
  by (simp_all add: unlock_sandbox_def update_sandbox_def registered_def)









end
