(* ===== verification/Setup_Race.thy ===== *)
theory Setup_Race
  imports Sandbox_Inv
begin

text \<open>
  Two containers that are set up at the same time.  \<open>IdempotentlyCreateSandbox\<close> first asks whether
  the sandbox exists and then creates it, and \<open>Setup\<close> first gets the sandbox and then locks it; each of these calls
  holds the mutex of the repository for itself only, so another request can come in between.
\<close>

section \<open>The first two containers of a network\<close>

text \<open>
  A request at \<open>IdempotentlyCreateSandbox\<close>: before the condition of \<open>Unless\<close>, before its command, or
  done.
\<close>

datatype setup_pc =
    AtCondition
  | AtCommand
  | SetUp "unit outcome"

fun setup_step ::
  "'k env \<Rightarrow> condition \<Rightarrow> command \<Rightarrow> setup_pc \<Rightarrow> 'k exec_world \<Rightarrow> setup_pc \<times> 'k exec_world" where
  "setup_step env b c AtCondition s =
     (case satisfied env b s of
        (Ok holds, t) \<Rightarrow> (if holds then SetUp (Ok ()) else AtCommand, t)
      | (Err e, t) \<Rightarrow> (SetUp (Err (wrapf ''condition check'' e)), t)
      | (Abort x, t) \<Rightarrow> (SetUp (Abort x), t))"
| "setup_step env b c AtCommand s = (case labelled ''unless'' (exec env c) s of (r, t) \<Rightarrow> (SetUp r, t))"
| "setup_step env b c (SetUp r) s = (SetUp r, s)"

text \<open>Alone, the steps are those of the command \<open>Unless\<close>.\<close>

lemma setup_alone:
  "(case setup_step env b c AtCondition s of (pc, t) \<Rightarrow> setup_step env b c pc t) =
   (case exec env (Unless b c) s of (r, t) \<Rightarrow> (SetUp r, t))"
  by (auto simp: unless_execute_def bind_wrap_def attempt_def fail_def ret_def split: prod.splits outcome.splits)

text \<open>The program counters of all requests; a schedule says whose turn it is.\<close>

fun setup_run ::
  "'k env \<Rightarrow> condition \<Rightarrow> command \<Rightarrow> nat list \<Rightarrow> setup_pc list \<times> 'k exec_world \<Rightarrow> setup_pc list \<times> 'k exec_world" where
  "setup_run env b c [] q = q"
| "setup_run env b c (i # is) (pcs, s) =
     (case setup_step env b c (pcs ! i) s of (pc, t) \<Rightarrow> setup_run env b c is (pcs[i := pc], t))"

lemma second_create_fails:
  assumes "\<not> repo_locked s" "sandboxes s n \<noteq> None"
  shows "exec env (All (CreateSandbox n # cs)) s =
    (Err (GroupErr 0 (to_string (CreateSandbox n # cs) 0) (wrapf ''create sandbox'' (Sentinel AlreadyExistsError))), s)"
proof -
  have "sandboxes_create (env_os env) (env_root env) n s = (Err (Sentinel AlreadyExistsError), s)"
    using assms by (simp add: sandboxes_create_def with_repo_lock_def deferring_def bind_err_eval(1) gets_def fail_def)
  then show ?thesis
    by (simp add: All_def create_sandbox_execute_def bind_wrap_eval(2) attempt_eval fail_def)
qed

lemma satisfied_sandbox_exists:
  "\<not> repo_locked s \<Longrightarrow> satisfied env (SandboxExists n) s = (Ok (sandboxes s n \<noteq> None), s)"
  by (auto simp: satisfied_def sandbox_exists_satisfied_def attempt_def sandboxes_get_eval ret_def split: option.split)

text \<open>
  Two requests find that there is no sandbox for their network; the first creates it, and the
  second fails although the sandbox is there: its container is not set up.  Had the second asked
  after the first was done, it would have succeeded.
\<close>

theorem first_setups_collide:
  assumes s: "repo_free s" "sandboxes s n = None"
    and first: "exec env (All (CreateSandbox n # cs)) s = (Ok (), t)" "repo_free t" "sandboxes t n \<noteq> None"
  shows "setup_run env (SandboxExists n) (All (CreateSandbox n # cs)) [0, 1, 0, 1] ([AtCondition, AtCondition], s) =
      ([SetUp (Ok ()), SetUp (Err (wrapf ''unless'' (GroupErr 0 (to_string (CreateSandbox n # cs) 0)
          (wrapf ''create sandbox'' (Sentinel AlreadyExistsError)))))], t)"
    and "setup_run env (SandboxExists n) (All (CreateSandbox n # cs)) [0, 0, 1, 1] ([AtCondition, AtCondition], s) =
      ([SetUp (Ok ()), SetUp (Ok ())], t)"
  using s first second_create_fails [of t n env cs] satisfied_sandbox_exists [of s env n] satisfied_sandbox_exists [of t env n]
  by (simp_all add: repo_free_def labelled_def bind_wrap_eval ret_def)

section \<open>Adding while the last container is deleted\<close>

text \<open>
  A request that has got its sandbox and waits for its mutex goes on with a sandbox that another
  request has destroyed in the meantime; the next command that looks the sandbox up fails.
\<close>

theorem setup_after_destroy:
  assumes "repo_free s" and destroyed: "sandboxes_destroy os root n s = (Ok u, t)"
  shows "move_link os link n t = (Err (wrapf ''get sandbox'' (Sentinel NotFoundError)), t)"
proof -
  obtain v where v: "t = v\<lparr>repo_locked := False\<rparr>" "sandboxes v n = None"
    using assms
    by (auto simp: sandboxes_destroy_def with_repo_lock_def deferring_def modify_def repo_free_def deadlock_def
        split: prod.splits elim!: bind_err_OkE bind_wrap_OkE)
  then have "sandboxes_get n t = (Err (Sentinel NotFoundError), t)"
    by (simp add: sandboxes_get_eval)
  then show ?thesis
    by (simp add: move_link_def bind_wrap_eval(2))
qed

end
