(* ===== verification/Tasks.thy ===== *)
theory Tasks
  imports Go_Prelude
begin

text \<open>
  Goroutines that share mutexes.  A \<^emph>\<open>task\<close> is what a goroutine still has to do: steps that each happen
  at once, and calls of \<open>Lock\<close> and \<open>Unlock\<close>.  Run alone, a task is a program of the prelude; a pool of
  tasks is run by a scheduler that chooses who is next.  The second half is the theory of such pools over any mutexes that
  obey the laws of the locale \<open>mutex_laws\<close>: with mutexes taken in the order of their levels, no schedule can block them
  all, and every fair schedule brings all tasks to their end.
\<close>

section \<open>Tasks\<close>

text \<open>
  \<open>Act f k\<close> changes the state by \<open>f\<close> and goes on with \<open>k\<close> of the state before.  A task is a well-founded tree, so
  it has only finitely many steps whatever happens between them, but no bound on their number is
  known in advance.
\<close>

datatype ('s, 'l, 'a) task =
    Finished "'a outcome"
  | Act "'s \<Rightarrow> 's" "'s \<Rightarrow> ('s, 'l, 'a) task"
  | Acquire 'l "('s, 'l, 'a) task"
  | Release 'l "('s, 'l, 'a) task"

text \<open>How the state says whether a mutex is held.\<close>

record ('s, 'l) mutexes =
  mx_locked :: "'l \<Rightarrow> 's \<Rightarrow> bool"
  mx_lock :: "'l \<Rightarrow> 's \<Rightarrow> 's"
  mx_unlock :: "'l \<Rightarrow> 's \<Rightarrow> 's"

text \<open>Alone, a goroutine that locks a mutex that is held waits for ever.\<close>

primrec run_alone :: "('s, 'l) mutexes \<Rightarrow> ('s, 'l, 'a) task \<Rightarrow> ('s, 'a) prog" where
  "run_alone M (Finished r) = (\<lambda>s. (r, s))"
| "run_alone M (Act f k) = (\<lambda>s. run_alone M (k s) (f s))"
| "run_alone M (Acquire l k) = (\<lambda>s. if mx_locked M l s then deadlock s else run_alone M k (mx_lock M l s))"
| "run_alone M (Release l k) = (\<lambda>s. run_alone M k (mx_unlock M l s))"

section \<open>Combinators\<close>

text \<open>They mirror the combinators for programs.\<close>

primrec task_bind :: "('s, 'l, 'a) task \<Rightarrow> ('a outcome \<Rightarrow> ('s, 'l, 'b) task) \<Rightarrow> ('s, 'l, 'b) task" where
  "task_bind (Finished r) q = q r"
| "task_bind (Act f k) q = Act f (\<lambda>s. task_bind (k s) q)"
| "task_bind (Acquire l k) q = Acquire l (task_bind k q)"
| "task_bind (Release l k) q = Release l (task_bind k q)"

text \<open>A program as one step.\<close>

definition atomic :: "('s, 'a) prog \<Rightarrow> ('s, 'l, 'a) task" where
  "atomic m = Act (\<lambda>s. snd (m s)) (\<lambda>s. Finished (fst (m s)))"

definition task_ret :: "'a \<Rightarrow> ('s, 'l, 'a) task" where
  "task_ret x = Finished (Ok x)"

definition task_fail :: "goerror \<Rightarrow> ('s, 'l, 'a) task" where
  "task_fail e = Finished (Err e)"

definition task_attempt ::
  "('s, 'l, 'a) task \<Rightarrow> (goerror \<Rightarrow> ('s, 'l, 'b) task) \<Rightarrow> ('a \<Rightarrow> ('s, 'l, 'b) task) \<Rightarrow> ('s, 'l, 'b) task" where
  "task_attempt t h k =
     task_bind t (\<lambda>r. case r of Ok x \<Rightarrow> k x | Err e \<Rightarrow> h e | Abort a \<Rightarrow> Finished (Abort a))"

definition task_wrap ::
  "string \<Rightarrow> ('s, 'l, 'a) task \<Rightarrow> ('a \<Rightarrow> ('s, 'l, 'b) task) \<Rightarrow> ('s, 'l, 'b) task" where
  "task_wrap p t k = task_attempt t (\<lambda>e. task_fail (wrapf p e)) k"

definition task_err ::
  "('s, 'l, 'a) task \<Rightarrow> ('a \<Rightarrow> ('s, 'l, 'b) task) \<Rightarrow> ('s, 'l, 'b) task" where
  "task_err t k = task_attempt t task_fail k"

text \<open>A deferred call, which does not happen when the task is blocked for ever.\<close>

definition task_finally :: "('s, 'l, 'a) task \<Rightarrow> ('a outcome \<Rightarrow> ('s, 'l, 'a) task) \<Rightarrow> ('s, 'l, 'a) task" where
  "task_finally t d = task_bind t (\<lambda>r. if r = Abort Deadlock then Finished r else d r)"

definition task_deferring :: "('s \<Rightarrow> 's) \<Rightarrow> ('s, 'l, 'a) task \<Rightarrow> ('s, 'l, 'a) task" where
  "task_deferring d t = task_finally t (\<lambda>r. Act d (\<lambda>_. Finished r))"

text \<open>\<open>l.Lock(); defer l.Unlock()\<close>\<close>

definition task_locked :: "'l \<Rightarrow> ('s, 'l, 'a) task \<Rightarrow> ('s, 'l, 'a) task" where
  "task_locked l t = Acquire l (task_finally t (\<lambda>r. Release l (Finished r)))"

lemmas task_combinators = task_ret_def task_fail_def task_attempt_def task_wrap_def task_err_def
  task_finally_def task_deferring_def task_locked_def

text \<open>Alone, a combination of tasks is the combination of the programs that they are alone.\<close>

named_theorems alone_simps \<open>what tasks do when they run alone\<close>

lemma run_alone_bind:
  "q (Abort Deadlock) = Finished (Abort Deadlock) \<Longrightarrow>
   run_alone M (task_bind t q) s =
     (case run_alone M t s of (r, u) \<Rightarrow> if r = Abort Deadlock then (Abort Deadlock, u) else run_alone M (q r) u)"
  by (induction t arbitrary: s) (simp_all add: deadlock_def)

lemma alone_atomic [alone_simps]: "run_alone M (atomic m) = m"
  by (rule ext) (simp add: atomic_def)

lemma alone_ret [alone_simps]: "run_alone M (task_ret x) = ret x"
  by (rule ext) (simp add: task_ret_def ret_def)

lemma alone_fail [alone_simps]: "run_alone M (task_fail e) = fail e"
  by (rule ext) (simp add: task_fail_def fail_def)

lemma alone_attempt [alone_simps]:
  "run_alone M (task_attempt t h k) =
   attempt (run_alone M t) (\<lambda>e. run_alone M (h e)) (\<lambda>x. run_alone M (k x))"
  by (rule ext) (simp add: task_attempt_def run_alone_bind attempt_def split: prod.split outcome.split)

lemma alone_wrap [alone_simps]:
  "run_alone M (task_wrap p t k) = bind_wrap p (run_alone M t) (\<lambda>x. run_alone M (k x))"
  by (simp add: task_wrap_def bind_wrap_def alone_simps)

lemma alone_err [alone_simps]:
  "run_alone M (task_err t k) = bind_err (run_alone M t) (\<lambda>x. run_alone M (k x))"
  by (simp add: task_err_def bind_err_def alone_simps)

lemma alone_deferring [alone_simps]:
  "run_alone M (task_deferring d t) = deferring d (run_alone M t)"
  by (rule ext) (auto simp: task_deferring_def task_finally_def run_alone_bind deferring_def split: prod.split)

lemma alone_locked:
  "run_alone M (task_locked l t) =
   (\<lambda>s. if mx_locked M l s then deadlock s else deferring (mx_unlock M l) (run_alone M t) (mx_lock M l s))"
  by (rule ext) (auto simp: task_locked_def task_finally_def run_alone_bind deferring_def split: prod.split)

lemma alone_if [alone_simps]:
  "run_alone M (if b then t else u) = (if b then run_alone M t else run_alone M u)"
  by simp

section \<open>Pools\<close>

text \<open>A goroutine with the mutexes that it holds, and one turn of it.\<close>

type_synonym ('s, 'l, 'a) goroutine = "('s, 'l, 'a) task \<times> 'l list"

fun advance ::
  "('s, 'l) mutexes \<Rightarrow> ('s, 'l, 'a) goroutine \<Rightarrow> 's \<Rightarrow> ('s, 'l, 'a) goroutine \<times> 's" where
  "advance M (Finished r, h) s = ((Finished r, h), s)"
| "advance M (Act f k, h) s = ((k s, h), f s)"
| "advance M (Acquire l k, h) s =
     (if mx_locked M l s then ((Acquire l k, h), s) else ((k, l # h), mx_lock M l s))"
| "advance M (Release l k, h) s = ((k, remove1 l h), mx_unlock M l s)"

definition pool_turn ::
  "('s, 'l) mutexes \<Rightarrow> nat \<Rightarrow> ('s, 'l, 'a) goroutine list \<times> 's \<Rightarrow> ('s, 'l, 'a) goroutine list \<times> 's" where
  "pool_turn M i p =
     (case p of (ts, s) \<Rightarrow>
        if i < length ts then (case advance M (ts ! i) s of (t, u) \<Rightarrow> (ts[i := t], u)) else (ts, s))"

definition run_pool ::
  "('s, 'l) mutexes \<Rightarrow> nat list \<Rightarrow> ('s, 'l, 'a) goroutine list \<times> 's \<Rightarrow> ('s, 'l, 'a) goroutine list \<times> 's" where
  "run_pool M sched p = fold (pool_turn M) sched p"

definition start_pool :: "('s, 'l, 'a) task list \<Rightarrow> 's \<Rightarrow> ('s, 'l, 'a) goroutine list \<times> 's" where
  "start_pool ts s = (map (\<lambda>t. (t, [])) ts, s)"

fun finished :: "('s, 'l, 'a) goroutine \<Rightarrow> bool" where
  "finished (Finished r, h) = True"
| "finished (t, h) = False"

text \<open>A schedule is fair to a pool of \<open>n\<close> goroutines if each of them has a turn again and again.\<close>

definition fair :: "nat \<Rightarrow> (nat \<Rightarrow> nat) \<Rightarrow> bool" where
  "fair n sched \<longleftrightarrow> (\<forall>i < n. \<forall>k. \<exists>j \<ge> k. sched j = i)"

section \<open>Tasks get smaller\<close>

inductive next_task :: "('s, 'l, 'a) task \<Rightarrow> ('s, 'l, 'a) task \<Rightarrow> bool" where
  "next_task (k s) (Act f k)"
| "next_task k (Acquire l k)"
| "next_task k (Release l k)"

inductive_cases next_taskE:
  "next_task t (Finished r)" "next_task t (Act f k)" "next_task t (Acquire l k)" "next_task t (Release l k)"

lemma wf_next_task: "wfP (next_task :: ('s, 'l, 'a) task \<Rightarrow> ('s, 'l, 'a) task \<Rightarrow> bool)"
proof (rule wfpUNIVI)
  fix P :: "('s, 'l, 'a) task \<Rightarrow> bool" and t :: "('s, 'l, 'a) task"
  assume step: "\<forall>t. (\<forall>u. next_task u t \<longrightarrow> P u) \<longrightarrow> P t"
  show "P t" by (induction t; rule step [rule_format]; auto elim: next_taskE)
qed

lemma next_task_neq: "next_task t u \<Longrightarrow> t \<noteq> u"
  using wf_next_task by (metis wfp_imp_irreflp irreflpD)

text \<open>A sequence that only ever stays or descends in a well-founded order comes to rest.\<close>

lemma wf_comes_to_rest:
  assumes "wfP r" "\<And>n::nat. x (Suc n) = x n \<or> r (x (Suc n)) (x n)"
  shows "\<exists>N. \<forall>n \<ge> N. x n = x N"
proof -
  obtain y where y: "y \<in> range x" "\<And>z. r z y \<Longrightarrow> z \<notin> range x"
    using assms(1) by (metis wfp_eq_minimal rangeI)
  then obtain N where N: "y = x N" by blast
  have "x n = x N" if "n \<ge> N" for n
    using that
  proof (induction rule: dec_induct)
    case (step n)
    then show ?case using assms(2) [of n] y(2) [of "x (Suc n)"] N by auto
  qed simp
  then show ?thesis by blast
qed

lemma advance_cases:
  assumes "advance M (t, h) s = ((t', h'), s')"
  obtains (stays) "t' = t" "h' = h" "s' = s" "(\<exists>r. t = Finished r) \<or> (\<exists>l k. t = Acquire l k \<and> mx_locked M l s)"
  | (act) f k where "t = Act f k" "t' = k s" "h' = h" "s' = f s"
  | (acquire) l where "t = Acquire l t'" "\<not> mx_locked M l s" "h' = l # h" "s' = mx_lock M l s"
  | (release) l where "t = Release l t'" "h' = remove1 l h" "s' = mx_unlock M l s"
  using assms by (cases t) (auto split: if_splits)

lemma pool_turn_cases:
  assumes "pool_turn M i (ts, s) = (ts', s')"
  obtains (idle) "length ts \<le> i" "ts' = ts" "s' = s"
  | (turn) t h t' h' where "i < length ts" "ts ! i = (t, h)" "advance M (t, h) s = ((t', h'), s')" "ts' = ts[i := (t', h')]"
  using assms
  by (cases "i < length ts"; cases "ts ! i"; cases "advance M (ts ! i) s") (auto simp: pool_turn_def)

lemma pool_turn_length: "pool_turn M i (ts, s) = (ts', s') \<Longrightarrow> length ts' = length ts"
  by (erule pool_turn_cases) auto

lemma pool_turn_task:
  assumes "pool_turn M i (ts, s) = (ts', s')" "j < length ts"
  shows "fst (ts' ! j) = fst (ts ! j) \<or> next_task (fst (ts' ! j)) (fst (ts ! j))"
  using assms(1)
proof (cases rule: pool_turn_cases)
  case (turn t h t' h')
  from turn(3) have "t' = t \<or> next_task t' t"
    by (cases rule: advance_cases) (auto intro: next_task.intros)
  with turn assms(2) show ?thesis by (cases "i = j") auto
qed simp


section \<open>Mutexes in order\<close>

text \<open>
  The laws of mutexes.  \<open>known s\<close> is what is known of a state and stays true; \<open>exist l\<close> are the facts that make
  \<open>l\<close> a mutex; \<open>inv\<close> is an invariant, \<open>level\<close> the order in which mutexes are taken.
\<close>

locale mutex_laws =
  fixes M :: "('s, 'l) mutexes" and exist :: "'l \<Rightarrow> 'f set" and known :: "'s \<Rightarrow> 'f set" and inv :: "'s \<Rightarrow> bool"
    and level :: "'l \<Rightarrow> nat"
  assumes lock: "exist l \<subseteq> known s \<Longrightarrow> inv s \<Longrightarrow> mx_locked M l' (mx_lock M l s) \<longleftrightarrow> l' = l \<or> mx_locked M l' s"
    and unlock: "exist l \<subseteq> known s \<Longrightarrow> inv s \<Longrightarrow> mx_locked M l' (mx_unlock M l s) \<longleftrightarrow> l' \<noteq> l \<and> mx_locked M l' s"
    and known_lock: "known (mx_lock M l s) = known s" "known (mx_unlock M l s) = known s"
    and inv_lock: "inv (mx_lock M l s) = inv s" "inv (mx_unlock M l s) = inv s"
begin

text \<open>A step leaves the mutexes alone, but it may make new ones.\<close>

definition steady :: "'s \<Rightarrow> 's \<Rightarrow> bool" where
  "steady s t \<longleftrightarrow> inv t \<and> known s \<subseteq> known t \<and>
     (\<forall>l. exist l \<subseteq> known t \<longrightarrow> mx_locked M l t = (exist l \<subseteq> known s \<and> mx_locked M l s))"

text \<open>
  \<open>proper t H K Q\<close>: started with the mutexes \<open>H\<close> and the knowledge \<open>K\<close>, the task takes mutexes in order, keeps the
  invariant, and ends with an outcome, mutexes and knowledge as \<open>Q\<close> says, whatever other tasks do in between.
\<close>

primrec proper ::
  "('s, 'l, 'a) task \<Rightarrow> 'l set \<Rightarrow> 'f set \<Rightarrow> ('a outcome \<Rightarrow> 'l set \<Rightarrow> 'f set \<Rightarrow> bool) \<Rightarrow> bool" where
  "proper (Finished r) H K Q = Q r H K"
| "proper (Act f k) H K Q =
     (\<forall>s. inv s \<and> K \<subseteq> known s \<longrightarrow> steady s (f s) \<and> proper (k s) H (known (f s)) Q)"
| "proper (Acquire l k) H K Q =
     (exist l \<subseteq> K \<and> (\<forall>h \<in> H. level h < level l) \<and> proper k (insert l H) K Q)"
| "proper (Release l k) H K Q = (l \<in> H \<and> proper k (H - {l}) K Q)"

lemma proper_bind: "proper (task_bind t q) H K Q = proper t H K (\<lambda>r H' K'. proper (q r) H' K' Q)"
  by (induction t arbitrary: H K) simp_all

lemma proper_mono:
  assumes "proper t H K Q" "K \<subseteq> K'" "\<And>r H K L. Q r H K \<Longrightarrow> K \<subseteq> L \<Longrightarrow> Q' r H L"
  shows "proper t H K' Q'"
  using assms(1,2)
proof (induction t arbitrary: H K K')
  case (Finished r)
  then show ?case using assms(3) by simp
next
  case (Act f k)
  have "steady s (f s) \<and> proper (k s) H (known (f s)) Q'" if "inv s" "K' \<subseteq> known s" for s
    using Act.prems that Act.IH [of "k s" H "known (f s)" "known (f s)"] by auto
  then show ?case by simp
qed auto

text \<open>The discipline of a part of a goroutine: it gives back what it takes, and takes nothing below \<open>n\<close>.\<close>

definition ends ::
  "'l set \<Rightarrow> 'f set \<Rightarrow> ('a \<Rightarrow> 'f set \<Rightarrow> bool) \<Rightarrow> 'a outcome \<Rightarrow> 'l set \<Rightarrow> 'f set \<Rightarrow> bool" where
  "ends H K V r H' K' \<longleftrightarrow>
     H' = H \<and> K \<subseteq> K' \<and> r \<noteq> Abort Deadlock \<and> (\<forall>x. r = Ok x \<longrightarrow> (\<forall>L. K' \<subseteq> L \<longrightarrow> V x L))"

definition orderly :: "nat \<Rightarrow> 'f set \<Rightarrow> ('s, 'l, 'a) task \<Rightarrow> ('a \<Rightarrow> 'f set \<Rightarrow> bool) \<Rightarrow> bool" where
  "orderly n F t V \<longleftrightarrow>
     (\<forall>H K. (\<forall>h \<in> H. level h < n) \<and> F \<subseteq> K \<longrightarrow> proper t H K (ends H K V))"

lemma orderlyI:
  "(\<And>H K. (\<And>h. h \<in> H \<Longrightarrow> level h < n) \<Longrightarrow> F \<subseteq> K \<Longrightarrow> proper t H K (ends H K V)) \<Longrightarrow> orderly n F t V"
  by (simp add: orderly_def)

lemma orderlyD:
  "orderly n F t V \<Longrightarrow> (\<And>h. h \<in> H \<Longrightarrow> level h < n) \<Longrightarrow> F \<subseteq> K \<Longrightarrow> proper t H K (ends H K V)"
  by (simp add: orderly_def)

lemma ends_mono:
  assumes "ends H K V r H' K'" "K' \<subseteq> L" "\<And>x L. V x L \<Longrightarrow> W x L"
  shows "ends H K W r H' L"
  using assms(1,2) assms(3) unfolding ends_def by blast

lemma proper_ends:
  assumes "proper t H K' (ends H K' V)" "K \<subseteq> K'"
  shows "proper t H K' (ends H K V)"
  by (rule proper_mono [OF assms(1) subset_refl]) (use assms(2) in \<open>unfold ends_def, blast\<close>)

lemma orderly_weaken:
  assumes "orderly n F t V" "m \<le> n" "F \<subseteq> G" "\<And>x K. V x K \<Longrightarrow> W x K"
  shows "orderly m G t W"
proof (rule orderlyI)
  fix H K assume H: "\<And>h. h \<in> H \<Longrightarrow> level h < m" and "G \<subseteq> K"
  then have "proper t H K (ends H K V)"
    using orderlyD [OF assms(1), of H K] assms(2,3) by fastforce
  then show "proper t H K (ends H K W)"
    by (rule proper_mono) (auto intro: ends_mono assms(4))
qed

lemma orderly_ret: "(\<And>L. F \<subseteq> L \<Longrightarrow> V x L) \<Longrightarrow> orderly n F (task_ret x) V"
  by (auto simp: orderly_def ends_def task_ret_def)

lemma orderly_fail: "orderly n F (task_fail e) V"
  by (simp add: orderly_def ends_def task_fail_def)

lemma orderly_abort: "a \<noteq> Deadlock \<Longrightarrow> orderly n F (Finished (Abort a)) V"
  by (simp add: orderly_def ends_def)

text \<open>What is known before a task is known after it.\<close>

lemma orderly_bind:
  assumes t: "orderly n F t V"
    and q: "\<And>r G. F \<subseteq> G \<Longrightarrow> r \<noteq> Abort Deadlock \<Longrightarrow> (\<And>x. r = Ok x \<Longrightarrow> V x G) \<Longrightarrow> orderly n G (q r) W"
  shows "orderly n F (task_bind t q) W"
proof (rule orderlyI)
  fix H K assume H: "\<And>h. h \<in> H \<Longrightarrow> level h < n" and K: "F \<subseteq> K"
  show "proper (task_bind t q) H K (ends H K W)"
    unfolding proper_bind
  proof (rule proper_mono [OF orderlyD [OF t H K] subset_refl])
    fix r H' K' L
    assume r: "ends H K V r H' K'" and L: "K' \<subseteq> L"
    then have H': "H' = H" "K \<subseteq> L" "r \<noteq> Abort Deadlock" "\<And>x. r = Ok x \<Longrightarrow> V x L"
      unfolding ends_def by blast+
    with K have "orderly n L (q r) W" by (intro q) auto
    from orderlyD [OF this H subset_refl] have "proper (q r) H L (ends H L W)" .
    then show "proper (q r) H' L (ends H K W)"
      unfolding H'(1) using H'(2) by (rule proper_ends)
  qed assumption
qed

lemma orderly_attempt:
  assumes "orderly n F t V" "\<And>e. orderly n F (h e) W" "\<And>x G. F \<subseteq> G \<Longrightarrow> V x G \<Longrightarrow> orderly n G (k x) W"
  shows "orderly n F (task_attempt t h k) W"
  unfolding task_attempt_def
proof (rule orderly_bind [OF assms(1)])
  fix r G assume "F \<subseteq> G" "r \<noteq> Abort Deadlock" "\<And>x. r = Ok x \<Longrightarrow> V x G"
  then show "orderly n G (case r of Ok x \<Rightarrow> k x | Err e \<Rightarrow> h e | Abort a \<Rightarrow> Finished (Abort a)) W"
    by (cases r) (auto intro: assms(3) orderly_abort orderly_weaken [OF assms(2)])
qed

lemma orderly_wrap:
  "orderly n F t V \<Longrightarrow> (\<And>x G. F \<subseteq> G \<Longrightarrow> V x G \<Longrightarrow> orderly n G (k x) W) \<Longrightarrow> orderly n F (task_wrap p t k) W"
  unfolding task_wrap_def by (rule orderly_attempt [OF _ orderly_fail])

lemma orderly_err:
  "orderly n F t V \<Longrightarrow> (\<And>x G. F \<subseteq> G \<Longrightarrow> V x G \<Longrightarrow> orderly n G (k x) W) \<Longrightarrow> orderly n F (task_err t k) W"
  unfolding task_err_def by (rule orderly_attempt [OF _ orderly_fail])

lemma orderly_act:
  assumes "\<And>s. inv s \<Longrightarrow> F \<subseteq> known s \<Longrightarrow> steady s (f s)"
    and "\<And>s. inv s \<Longrightarrow> F \<subseteq> known s \<Longrightarrow> orderly n (known (f s)) (k s) V"
  shows "orderly n F (Act f k) V"
proof (rule orderlyI)
  fix H K assume H: "\<And>h. h \<in> H \<Longrightarrow> level h < n" and K: "F \<subseteq> K"
  have "steady s (f s) \<and> proper (k s) H (known (f s)) (ends H K V)" if s: "inv s" "K \<subseteq> known s" for s
  proof
    show "steady s (f s)" using s K by (intro assms(1)) auto
    then have "K \<subseteq> known (f s)" using s(2) by (auto simp: steady_def)
    moreover have "orderly n (known (f s)) (k s) V" using s K by (intro assms(2)) auto
    from orderlyD [OF this H subset_refl] have "proper (k s) H (known (f s)) (ends H (known (f s)) V)" .
    ultimately show "proper (k s) H (known (f s)) (ends H K V)" by (rule proper_ends [rotated])
  qed
  then show "proper (Act f k) H K (ends H K V)" by simp
qed

text \<open>A program that is one step.\<close>

definition calm :: "'f set \<Rightarrow> ('s, 'a) prog \<Rightarrow> ('a \<Rightarrow> 'f set \<Rightarrow> bool) \<Rightarrow> bool" where
  "calm F m V \<longleftrightarrow>
     (\<forall>s. inv s \<and> F \<subseteq> known s \<longrightarrow> steady s (snd (m s)) \<and> fst (m s) \<noteq> Abort Deadlock \<and>
       (\<forall>x. fst (m s) = Ok x \<longrightarrow> (\<forall>L. known (snd (m s)) \<subseteq> L \<longrightarrow> V x L)))"

lemma orderly_atomic: "calm F m V \<Longrightarrow> orderly n F (atomic m) V"
  unfolding atomic_def calm_def by (rule orderly_act) (auto simp: orderly_def ends_def)

lemma orderly_finally:
  assumes "orderly n F t V"
    and "\<And>r G. F \<subseteq> G \<Longrightarrow> r \<noteq> Abort Deadlock \<Longrightarrow> (\<And>x. r = Ok x \<Longrightarrow> V x G) \<Longrightarrow> orderly n G (d r) W"
  shows "orderly n F (task_finally t d) W"
  unfolding task_finally_def
  by (rule orderly_bind [OF assms(1)]) (simp add: assms(2))

lemma orderly_finished:
  "r \<noteq> Abort Deadlock \<Longrightarrow> (\<And>x L. r = Ok x \<Longrightarrow> F \<subseteq> L \<Longrightarrow> V x L) \<Longrightarrow> orderly n F (Finished r) V"
  unfolding orderly_def ends_def by auto

lemma orderly_deferring:
  assumes "orderly n F t V" "\<And>s. inv s \<Longrightarrow> steady s (d s)" "\<And>x G L. V x G \<Longrightarrow> G \<subseteq> L \<Longrightarrow> V x L"
  shows "orderly n F (task_deferring d t) V"
  unfolding task_deferring_def task_finally_def
proof (rule orderly_bind [OF assms(1)])
  fix r G assume r: "F \<subseteq> G" "r \<noteq> Abort Deadlock" "\<And>x. r = Ok x \<Longrightarrow> V x G"
  have "orderly n (known (d s)) (Finished r) V" if "inv s" "G \<subseteq> known s" for s
  proof (rule orderly_finished [OF r(2)])
    have "G \<subseteq> known (d s)" using assms(2) [OF that(1)] that(2) by (auto simp: steady_def)
    then show "V x L" if "r = Ok x" "known (d s) \<subseteq> L" for x L
      using r(3) [OF that(1)] assms(3) that(2) by blast
  qed
  then show "orderly n G (if r = Abort Deadlock then Finished r else Act d (\<lambda>_. Finished r)) V"
    using r(2) assms(2) by (auto intro: orderly_act)
qed

lemma orderly_locked:
  assumes "orderly (Suc (level l)) F t V" "exist l \<subseteq> F" "n \<le> level l" "\<And>x G L. V x G \<Longrightarrow> G \<subseteq> L \<Longrightarrow> V x L"
  shows "orderly n F (task_locked l t) V"
proof (rule orderlyI)
  fix H K assume H: "\<And>h. h \<in> H \<Longrightarrow> level h < n" and K: "F \<subseteq> K"
  have below: "level h < level l" if "h \<in> H" for h using H [OF that] assms(3) by simp
  have "proper (task_finally t (\<lambda>r. Release l (Finished r))) (insert l H) K (ends H K V)"
    unfolding task_finally_def proper_bind
  proof (rule proper_mono [OF orderlyD [OF assms(1) _ K] subset_refl])
    fix r H' K' L
    assume "ends (insert l H) K V r H' K'" "K' \<subseteq> L"
    then show "proper (if r = Abort Deadlock then Finished r else Release l (Finished r)) H' L (ends H K V)"
      using below unfolding ends_def by auto
  qed (use below in \<open>auto simp: less_Suc_eq\<close>)
  then show "proper (task_locked l t) H K (ends H K V)"
    using assms(2) K below by (auto simp: task_locked_def)
qed

end

end
