(* ===== verification/Request_Tasks.thy ===== *)
theory Request_Tasks
  imports Cni Ipam_Concurrent Tasks
begin

text \<open>
  Add and Del requests as tasks, so that any number of them can run at the same time.  The programs are those of
  \<open>Sandboxes\<close>, \<open>Commands\<close>, \<open>Container\<close> and \<open>Cni\<close>, cut at every call that another goroutine can come before: each
  \<open>Lock\<close> and \<open>Unlock\<close>, the \<open>SetNS\<close> calls of \<open>Execute\<close>, each call of the link factory, of the two
  repositories and of the monitors, and the steps of the allocator.  The last section shows that a request that runs alone
  does what the program does.

  A task has the system as an argument, as programs have, so requests on different threads may see
  the system differently.
\<close>

section \<open>The mutexes\<close>

datatype mutex =
    RepoMutex
  | SandboxMutex sandbox_ref

definition daemon_mutexes :: "(('k, 'z) sandbox_world_scheme, mutex) mutexes" where
  "daemon_mutexes =
     \<lparr>mx_locked = (\<lambda>l s. case l of RepoMutex \<Rightarrow> repo_locked s | SandboxMutex r \<Rightarrow> sb_locked (the_sandbox r s)),
      mx_lock = (\<lambda>l. case l of RepoMutex \<Rightarrow> (\<lambda>s. s\<lparr>repo_locked := True\<rparr>)
        | SandboxMutex r \<Rightarrow> update_sandbox r (\<lambda>b. b\<lparr>sb_locked := True\<rparr>)),
      mx_unlock = (\<lambda>l. case l of RepoMutex \<Rightarrow> (\<lambda>s. s\<lparr>repo_locked := False\<rparr>)
        | SandboxMutex r \<Rightarrow> update_sandbox r (\<lambda>b. b\<lparr>sb_locked := False\<rparr>))\<rparr>"

section \<open>Namespaces and sandboxes\<close>

definition task_restoring :: "('s, unit) prog \<Rightarrow> ('s, 'l, 'a) task \<Rightarrow> ('s, 'l, 'a) task" where
  "task_restoring d t =
     task_finally t (\<lambda>r. task_bind (atomic d) (\<lambda>q. case q of
       Ok _ \<Rightarrow> Finished r
     | Err e \<Rightarrow> Finished (Abort (Panic (error_text e)))
     | Abort a \<Rightarrow> Finished (Abort a)))"

definition ns_execute_task ::
  "'k os \<Rightarrow> go_file \<Rightarrow> (go_file \<Rightarrow> (('k, 'z) world_scheme, mutex, 'a) task) \<Rightarrow> (('k, 'z) world_scheme, mutex, 'a) task" where
  "ns_execute_task os ns callback =
     task_wrap ''open failed'' (atomic (\<lambda>s. sys (os_open os (task_namespace_path os (kernel s))) s)) (\<lambda>original.
     task_deferring (close_file os original)
       (task_wrap ''set ns failed'' (atomic (sys (os_set_ns os ns))) (\<lambda>_.
        task_restoring (sys (os_set_ns os original)) (callback original))))"

definition sandbox_setup_task :: "'k os \<Rightarrow> sandbox_ref \<Rightarrow> (('k, 'z) sandbox_world_scheme, mutex, unit) task" where
  "sandbox_setup_task os r =
     task_err (atomic (sandbox_namespace r)) (\<lambda>ns.
     task_wrap ''setup failed''
       (ns_execute_task os ns (\<lambda>_. atomic (bind_wrap ''set link up'' (set_up os ''lo'') (\<lambda>_. ret ()))))
       (\<lambda>_. task_ret ()))"

definition launch_dns_task ::
  "'k os \<Rightarrow> sandbox_ref \<Rightarrow> dns_runner \<Rightarrow> (('k, 'z) sandbox_world_scheme, mutex, unit) task" where
  "launch_dns_task os r runner =
     task_err (atomic (sys_do (os_invoke os runner))) (\<lambda>p.
     task_err (atomic (modify (update_sandbox r (\<lambda>b. b\<lparr>sb_dns := Some p\<rparr>)))) (\<lambda>_.
     task_err (atomic (gets (\<lambda>s. os_exited os p (kernel s)))) (\<lambda>exited.
     case exited of
       None \<Rightarrow> task_ret ()
     | Some None \<Rightarrow> task_fail (wrapf ''launch dns'' (Errorf ''unexpected server exit''))
     | Some (Some e) \<Rightarrow> task_fail (wrapf ''launch dns'' e))))"

definition sandbox_veth_count_task :: "'k os \<Rightarrow> sandbox_ref \<Rightarrow> (('k, 'z) sandbox_world_scheme, mutex, nat) task" where
  "sandbox_veth_count_task os r =
     task_err (atomic (sandbox_namespace r)) (\<lambda>ns.
     task_wrap ''namespace execute''
       (ns_execute_task os ns (\<lambda>_. atomic (attempt (veth_device_count os) (\<lambda>e. ret (Inl e)) (\<lambda>n. ret (Inr n)))))
       (\<lambda>result. task_wrap ''veth device count'' (atomic (pick result)) task_ret))"

definition teardown_task :: "'k os \<Rightarrow> sandbox_ref \<Rightarrow> (('k, 'z) sandbox_world_scheme, mutex, unit) task" where
  "teardown_task os r =
     task_err (atomic (gets (\<lambda>s. sb_destroyed (the_sandbox r s)))) (\<lambda>destroyed.
     if destroyed then task_fail (Sentinel AlreadyDestroyedError)
     else
       task_err (atomic (sandbox_namespace r)) (\<lambda>ns.
       task_wrap ''stop monitor'' (atomic (stop_monitor ns)) (\<lambda>_.
       task_err (atomic (gets (\<lambda>s. sb_dns (the_sandbox r s)))) (\<lambda>dns.
       task_err
         (atomic (case dns of None \<Rightarrow> ret () | Some p \<Rightarrow> sys_do (\<lambda>k. ((), os_kill os p k)))) (\<lambda>_.
       atomic (modify (update_sandbox r (\<lambda>b. b\<lparr>sb_destroyed := True\<rparr>))))))))"

section \<open>The repository of sandboxes\<close>

text \<open>A new sandbox is in the hands of one goroutine until it is in the map.\<close>

definition register_sandbox :: "string \<Rightarrow> go_file \<Rightarrow> (('k, 'z) sandbox_world_scheme, sandbox_ref) prog" where
  "register_sandbox name ns =
     bind_err (sandbox_new ns) (\<lambda>r. bind_err (modify (\<lambda>s. s\<lparr>sandboxes := (sandboxes s)(name \<mapsto> r)\<rparr>)) (\<lambda>_. ret r))"

definition sandboxes_create_task ::
  "'k os \<Rightarrow> string \<Rightarrow> string \<Rightarrow> (('k, 'z) sandbox_world_scheme, mutex, sandbox_ref) task" where
  "sandboxes_create_task os root name =
     task_locked RepoMutex (
       task_err (atomic (gets (\<lambda>s. sandboxes s name))) (\<lambda>exists.
       if exists \<noteq> None then task_fail (Sentinel AlreadyExistsError)
       else
         task_wrap ''create namespace'' (atomic (repo_create os root name)) (\<lambda>ns.
         task_err (atomic (register_sandbox name ns)) (\<lambda>r.
         task_wrap ''setup sandbox'' (sandbox_setup_task os r) (\<lambda>_. task_ret r)))))"

definition sandboxes_get_task :: "string \<Rightarrow> (('k, 'z) sandbox_world_scheme, mutex, sandbox_ref) task" where
  "sandboxes_get_task name = task_locked RepoMutex (atomic (get_unlocked name))"

definition sandboxes_destroy_task ::
  "'k os \<Rightarrow> string \<Rightarrow> string \<Rightarrow> (('k, 'z) sandbox_world_scheme, mutex, unit) task" where
  "sandboxes_destroy_task os root name =
     task_locked RepoMutex (
       task_err (atomic (get_unlocked name)) (\<lambda>r.
       task_wrap ''teardown'' (teardown_task os r) (\<lambda>_.
       task_err (atomic (sandbox_namespace r)) (\<lambda>ns.
       task_wrap ''namespace destroy'' (atomic (repo_destroy os root ns)) (\<lambda>_.
       atomic (modify (\<lambda>s. s\<lparr>sandboxes := (sandboxes s)(name := None)\<rparr>)))))))"

section \<open>Commands\<close>

definition satisfied_task :: "'k env \<Rightarrow> condition \<Rightarrow> (('k, 'z) exec_world_scheme, mutex, bool) task" where
  "satisfied_task env b =
     (case b of
        SandboxExists n \<Rightarrow>
          task_attempt (sandboxes_get_task n)
            (\<lambda>e. if e = Sentinel NotFoundError then task_ret False else task_fail (wrapf ''sandbox get'' e))
            (\<lambda>_. task_ret True)
      | LinkExists n \<Rightarrow> atomic (link_exists_satisfied env n))"

definition move_link_task :: "'k os \<Rightarrow> string \<Rightarrow> string \<Rightarrow> (('k, 'z) exec_world_scheme, mutex, unit) task" where
  "move_link_task os name sandbox =
     task_wrap ''get sandbox'' (sandboxes_get_task sandbox) (\<lambda>r.
     task_err (atomic (sandbox_namespace r)) (\<lambda>ns.
     task_wrap ''move link'' (atomic (set_namespace os name (file_fd ns))) (\<lambda>_. task_ret ())))"

definition start_dns_server_task :: "'k env \<Rightarrow> string \<Rightarrow> string \<Rightarrow> (('k, 'z) exec_world_scheme, mutex, unit) task" where
  "start_dns_server_task env listen_address sandbox =
     (let os = env_os env in
      task_wrap ''resolve udp address'' (atomic (sys (os_resolve_udp os listen_address))) (\<lambda>addr.
      task_wrap ''get sandbox'' (sandboxes_get_task sandbox) (\<lambda>r.
      task_locked (SandboxMutex r) (
        task_err (atomic (sandbox_namespace r)) (\<lambda>ns.
        task_wrap ''namespace execute''
          (ns_execute_task os ns (\<lambda>_.
             task_wrap ''create dummy'' (atomic (create_dummy os dns_interface_name)) (\<lambda>_.
             task_wrap ''add address''
               (atomic (add_address os dns_interface_name \<lparr>net_ip = udp_ip addr, net_mask = cidr_mask 32 32\<rparr>)) (\<lambda>_.
             task_wrap ''set up'' (atomic (set_up os dns_interface_name)) (\<lambda>_.
             task_wrap ''listen udp'' (atomic (sys (os_listen_udp os addr))) task_ret))))) (\<lambda>conn.
        task_wrap ''sandbox launch dns'' (launch_dns_task os r (dns_factory_new (env_dns_factory env) conn ns))
          (\<lambda>_. task_ret ())))))))"

definition cleanup_sandbox_task :: "'k env \<Rightarrow> string \<Rightarrow> string \<Rightarrow> (('k, 'z) exec_world_scheme, mutex, unit) task" where
  "cleanup_sandbox_task env name device =
     (let os = env_os env in
      task_attempt (sandboxes_get_task name)
        (\<lambda>e. if e = Sentinel NotFoundError then task_ret () else task_fail (wrapf ''get sandbox'' e)) (\<lambda>r.
      task_locked (SandboxMutex r) (
        task_wrap ''counting veth devices'' (sandbox_veth_count_task os r) (\<lambda>n.
        if n = 0 then
          task_err (atomic (sandbox_namespace r)) (\<lambda>ns.
          task_wrap (''in namespace '' @ name)
            (ns_execute_task os ns (\<lambda>_.
               task_attempt (atomic (delete_link_by_name os device))
                 (\<lambda>e. task_err (atomic (link_exists os device)) (\<lambda>there.
                    if there then task_fail (wrapf (''destroying vxlan '' @ device) e) else task_ret ())) task_ret)) (\<lambda>_.
          task_attempt (sandboxes_destroy_task os (env_root env) name)
            (\<lambda>e. if e = Sentinel AlreadyDestroyedError then task_ret ()
                 else if e = Sentinel NotFoundError then task_ret ()
                 else task_fail (wrapf ''sandbox destroy'' e)) task_ret))
        else task_ret ()))))"

text \<open>The mutex of the watcher is held for single accesses of its map only.\<close>

definition start_monitor_task :: "'k os \<Rightarrow> go_file \<Rightarrow> string \<Rightarrow> (('k, 'z) watch_world_scheme, mutex, unit) task" where
  "start_monitor_task os ns vxlan =
     task_err (atomic (new_done_chan ns)) (\<lambda>chan.
     task_wrap ''arp inserter failed'' (atomic (start_arp_inserter os chan ns vxlan)) (\<lambda>_.
     task_wrap (''subscribe in '' @ file_name ns) (atomic (subscribe os ns)) (\<lambda>sock.
     atomic (modify (\<lambda>s. s\<lparr>subscriptions := (chan, sock) # subscriptions s\<rparr>)))))"

definition monitor_command_task ::
  "'k env \<Rightarrow> go_file \<Rightarrow> string \<Rightarrow> string \<Rightarrow> (('k, 'z) exec_world_scheme, mutex, unit) task" where
  "monitor_command_task env host sandbox vxlan =
     (let os = env_os env in
      task_wrap ''getting sandbox namespace'' (atomic (repo_get os (env_root env) sandbox)) (\<lambda>ns.
      ns_execute_task os host (\<lambda>_.
        task_wrap ''watcher start monitor'' (start_monitor_task os ns vxlan) (\<lambda>_. task_ret ()))))"

definition task_labelled :: "string \<Rightarrow> ('s, mutex, unit) task \<Rightarrow> ('s, mutex, unit) task" where
  "task_labelled p t = task_wrap p t (\<lambda>_. task_ret ())"

text \<open>A command that is one call of the link factory or of one of the managers is one step.\<close>

fun exec_task :: "'k env \<Rightarrow> command \<Rightarrow> (('k, 'z) exec_world_scheme, mutex, unit) task"
  and exec_group_task ::
    "'k env \<Rightarrow> command list \<Rightarrow> nat \<Rightarrow> command list \<Rightarrow> (('k, 'z) exec_world_scheme, mutex, unit) task" where
  "exec_task env (Group cs) = exec_group_task env cs 0 cs"
| "exec_task env (Unless b c) =
     task_wrap ''condition check'' (satisfied_task env b) (\<lambda>holds.
       if holds then task_ret () else task_labelled ''unless'' (exec_task env c))"
| "exec_task env (InNamespace ns c) =
     task_labelled ''execute in namespace'' (ns_execute_task (env_os env) ns (\<lambda>_. exec_task env c))"
| "exec_task env (CleanupSandbox s v) = cleanup_sandbox_task env s v"
| "exec_task env (CreateSandbox n) =
     task_wrap ''create sandbox'' (sandboxes_create_task (env_os env) (env_root env) n) (\<lambda>_. task_ret ())"
| "exec_task env (MoveLink n s) = move_link_task (env_os env) n s"
| "exec_task env (StartDNSServer a s) = start_dns_server_task env a s"
| "exec_task env (StartMonitor h s v) = monitor_command_task env h s v"
| "exec_task env (AddAddress i a) = atomic (exec env (AddAddress i a))"
| "exec_task env (AddRoute i d g) = atomic (exec env (AddRoute i d g))"
| "exec_task env (CreateBridge n) = atomic (exec env (CreateBridge n))"
| "exec_task env (CreateDummy n) = atomic (exec env (CreateDummy n))"
| "exec_task env (CreateVeth n p m) = atomic (exec env (CreateVeth n p m))"
| "exec_task env (CreateVxlan n v) = atomic (exec env (CreateVxlan n v))"
| "exec_task env (DeleteLink n) = atomic (exec env (DeleteLink n))"
| "exec_task env (GetHardwareAddress n) = atomic (exec env (GetHardwareAddress n))"
| "exec_task env (SetLinkMaster m s) = atomic (exec env (SetLinkMaster m s))"
| "exec_task env (SetLinkUp n) = atomic (exec env (SetLinkUp n))"
| "exec_group_task env g i [] = task_ret ()"
| "exec_group_task env g i (c # cs) =
     task_attempt (exec_task env c) (\<lambda>e. task_fail (GroupErr i (to_string g (int i)) e))
       (\<lambda>_. exec_group_task env g (i + 1) cs)"

section \<open>Containers\<close>

text \<open>
  Every request has a \<open>GetHardwareAddress\<close> object of its own, so the address is handed on as a value;
  \<open>hw_result\<close> is written as the command writes it, and not read.
\<close>

definition hardware_address_task ::
  "'k env \<Rightarrow> go_file \<Rightarrow> string \<Rightarrow> (('k, 'z) exec_world_scheme, mutex, hardware_addr) task" where
  "hardware_address_task env ns interface =
     task_wrap ''execute in namespace''
       (ns_execute_task (env_os env) ns (\<lambda>_.
          task_wrap ''get hardware address'' (atomic (hardware_address (env_os env) interface)) (\<lambda>a.
          task_err (atomic (modify (\<lambda>s. s\<lparr>hw_result := a\<rparr>))) (\<lambda>_. task_ret a)))) task_ret"

definition setup_in_sandbox_task ::
  "'k creator \<Rightarrow> creator_config \<Rightarrow> ip_config \<Rightarrow> go_file \<Rightarrow> sandbox_ref \<Rightarrow>
   (('k, 'z) exec_world_scheme, mutex, container) task" where
  "setup_in_sandbox_task c config ip4 container_ns r =
     (let vxlan = vxlan_name (cc_vni config);
          sandbox = sandbox_name (cc_vni config);
          bridge = bridge_name (cc_vni config);
          link = name_sandbox_link (cc_container_id config);
          interface = cc_interface_name config
      in task_err (atomic (sandbox_namespace r)) (\<lambda>sandbox_ns.
         task_err (exec_task (cr_env c)
           (All [idempotently_create_vxlan (cr_host_namespace c) vxlan sandbox sandbox_ns,
                 setup_veth container_ns link interface (cfg_ip ip4) sandbox (add_routes interface ip4),
                 idempotently_setup_bridge vxlan link bridge sandbox_ns ip4])) (\<lambda>_.
         task_err (atomic (modify (\<lambda>s. s\<lparr>hw_result := []\<rparr>))) (\<lambda>_.
         task_err (hardware_address_task (cr_env c) container_ns interface) (\<lambda>mac.
         task_ret (container_record c config ip4 mac))))))"

definition creator_setup_task ::
  "'k creator \<Rightarrow> creator_config \<Rightarrow> (('k, 'z) exec_world_scheme, mutex, container) task" where
  "creator_setup_task c config =
     (let vxlan = vxlan_name (cc_vni config);
          sandbox = sandbox_name (cc_vni config)
      in task_wrap ''open container netns'' (atomic (open_path (env_os (cr_env c)) (cc_container_ns_path config))) (\<lambda>container_ns.
         case res_ip4 (cc_ipam_result config) of
           None \<Rightarrow> Finished (Abort (Panic ''nil pointer dereference''))
         | Some ip4 \<Rightarrow>
             task_wrap ''executing command: create sandbox''
               (exec_task (cr_env c) (idempotently_create_sandbox sandbox vxlan (cc_vni config) (cr_dns_address c))) (\<lambda>_.
             task_wrap ''get sandbox'' (sandboxes_get_task sandbox) (\<lambda>r.
             task_locked (SandboxMutex r) (setup_in_sandbox_task c config ip4 container_ns r)))))"

definition deletor_delete_task ::
  "'k env \<Rightarrow> string \<Rightarrow> string \<Rightarrow> string \<Rightarrow> string \<Rightarrow> (('k, 'z) exec_world_scheme, mutex, unit) task" where
  "deletor_delete_task env interface container_ns_path sandbox vxlan =
     task_wrap ''open container netns'' (atomic (open_path (env_os env) container_ns_path)) (\<lambda>container_ns.
     task_err (exec_task env
       (All [InNamespace container_ns (DeleteLink interface),
             CleanupSandbox sandbox vxlan])) (\<lambda>_. task_ret ()))"

section \<open>The allocator\<close>

text \<open>
  The steps of a request are those of \<open>Ipam_Concurrent\<close>.  The loop over the subnet ends whatever happens in
  between: its address grows, and it is below \<open>2 ^ 32\<close>.
\<close>

fun pc_bound :: "request_pc \<Rightarrow> nat" where
  "pc_bound AtConfig = 2 ^ 32 + 6"
| "pc_bound AtStore = 2 ^ 32 + 5"
| "pc_bound AtContains = 2 ^ 32 + 4"
| "pc_bound AtGateway = 2 ^ 32 + 3"
| "pc_bound AtSetGateway = 2 ^ 32 + 2"
| "pc_bound (AtLoop x) = (2 ^ 32 - set_bytes (to4 x)) + 1"
| "pc_bound AtRelease = 1"
| "pc_bound (Returned r) = 0"

lemma loop_step_bound: "pc_bound (fst (loop_step req cfg x s a)) < pc_bound (AtLoop x)"
  using contains_next_ip_bound [of "cfg_ip cfg" x]
  by (auto simp: loop_step_def split: prod.splits outcome.splits)

text \<open>The answer of a request that has returned.\<close>

fun answer_at :: "request_pc \<Rightarrow> ipam_answer option" where
  "answer_at (Returned r) = Some r"
| "answer_at pc = None"

lemma request_step_bound:
  assumes "answer_at pc = None"
  shows "pc_bound (fst (request_step base req pc a)) < pc_bound pc"
proof (cases pc)
  case (AtLoop x)
  have "0 < pc_bound (AtLoop x)" by simp
  then show ?thesis
    using loop_step_bound [of req _ x]
    by (auto simp del: pc_bound.simps(6) simp: AtLoop with_config_def with_store_def split: option.split)
qed (use assms in \<open>auto simp: after_call_def with_store_def with_config_def
      split: prod.splits outcome.splits option.splits ipam_call.splits\<close>)

definition ipam_act ::
  "ip_config \<Rightarrow> ipam_call \<Rightarrow> request_pc \<Rightarrow> ('k, 'z) daemon_scheme \<Rightarrow> request_pc \<times> ('k, 'z) daemon_scheme" where
  "ipam_act base req pc s =
     (case request_step base req pc (ipam_state s) of (pc', a) \<Rightarrow> (pc', s\<lparr>ipam_state := a\<rparr>))"

lemma ipam_act_pc: "fst (ipam_act base req pc s) = fst (request_step base req pc (ipam_state s))"
  by (simp add: ipam_act_def split: prod.split)

function ipam_task ::
  "ip_config \<Rightarrow> ipam_call \<Rightarrow> (ipam_answer \<Rightarrow> (('k, 'z) daemon_scheme, mutex, 'a) task) \<Rightarrow> request_pc \<Rightarrow>
   (('k, 'z) daemon_scheme, mutex, 'a) task" where
  "ipam_task base req k pc =
     (case answer_at pc of
        Some r \<Rightarrow> k r
      | None \<Rightarrow> Act (\<lambda>s. snd (ipam_act base req pc s)) (\<lambda>s. ipam_task base req k (fst (ipam_act base req pc s))))"
  by pat_completeness auto
termination
  by (relation "measure (\<lambda>(base, req, k, pc). pc_bound pc)") (simp_all add: ipam_act_pc request_step_bound)

declare ipam_task.simps [simp del]

text \<open>A call of one kind gets an answer of that kind.\<close>

definition allocate_task :: "ip_config \<Rightarrow> string \<Rightarrow> string \<Rightarrow> (('k, 'z) daemon_scheme, mutex, cni_result) task" where
  "allocate_task base n c =
     ipam_task base (AllocateIP n c)
       (\<lambda>q. case q of Allocated r \<Rightarrow> Finished r | Released r \<Rightarrow> Finished (Abort nil_dereference)) AtConfig"

definition release_task :: "ip_config \<Rightarrow> string \<Rightarrow> string \<Rightarrow> (('k, 'z) daemon_scheme, mutex, unit) task" where
  "release_task base n c =
     ipam_task base (ReleaseIP n c)
       (\<lambda>q. case q of Released r \<Rightarrow> Finished r | Allocated r \<Rightarrow> Finished (Abort nil_dereference)) AtStore"

section \<open>Requests\<close>

definition cni_add_task :: "'k wiring \<Rightarrow> cni_add_payload \<Rightarrow> (('k, 'z) daemon_scheme, mutex, cni_result) task" where
  "cni_add_task S p =
     task_wrap ''get network id'' (atomic (pick (get_network_id (su_default_network S) (ap_network p)))) (\<lambda>network.
     task_wrap ''get vni'' (atomic (pick (get_vni network))) (\<lambda>vni.
     task_err (allocate_task (su_base S) network (ap_container_id p)) (\<lambda>result.
     task_wrap ''container setup'' (creator_setup_task (su_creator S) (creator_config_of p network vni result)) (\<lambda>c.
     task_wrap ''datastore create'' (atomic (store_create (su_os S) c)) (\<lambda>_. task_ret result)))))"

definition cni_del_task :: "'k wiring \<Rightarrow> cni_del_payload \<Rightarrow> (('k, 'z) daemon_scheme, mutex, unit) task" where
  "cni_del_task S p =
     task_wrap ''datastore get'' (atomic (store_get (su_os S) (dp_container_id p))) (\<lambda>record.
     task_wrap ''get vni'' (atomic (pick (get_vni (ctr_network_id record)))) (\<lambda>vni.
     task_wrap ''deletor''
       (deletor_delete_task (cr_env (su_creator S)) (dp_interface_name p) (dp_container_namespace p)
          (sandbox_name vni) (vxlan_name vni)) (\<lambda>_.
     task_wrap ''datastore delete'' (atomic (store_delete (su_os S) (dp_container_id p))) (\<lambda>_.
     task_wrap ''release ip'' (release_task (su_base S) (ctr_network_id record) (dp_container_id p)) (\<lambda>_. task_ret ())))))"

text \<open>The two kinds of requests that change the daemon; an answer carries the result of an Add.\<close>

datatype cni_request =
    AddRequest cni_add_payload
  | DelRequest cni_del_payload

fun request_task :: "'k wiring \<Rightarrow> cni_request \<Rightarrow> (('k, 'z) daemon_scheme, mutex, cni_result option) task" where
  "request_task S (AddRequest p) = task_err (cni_add_task S p) (\<lambda>r. task_ret (Some r))"
| "request_task S (DelRequest p) = task_err (cni_del_task S p) (\<lambda>_. task_ret None)"

end
