(* ===== verification/Request_Alone.thy ===== *)
theory Request_Alone
  imports Request_Tasks
begin

text \<open>
  A request that runs alone: its task does, step by step, what the program of the request does at once.
\<close>

section \<open>Namespaces, sandboxes and commands\<close>

lemma alone_repo_lock [alone_simps]:
  "run_alone daemon_mutexes (task_locked RepoMutex t) = with_repo_lock (run_alone daemon_mutexes t)"
  by (rule ext) (simp add: alone_locked daemon_mutexes_def with_repo_lock_def)

lemma alone_sandbox_lock [alone_simps]:
  "run_alone daemon_mutexes (task_locked (SandboxMutex r) t) = with_sandbox_lock r (run_alone daemon_mutexes t)"
  by (rule ext) (simp add: alone_locked daemon_mutexes_def with_sandbox_lock_def)

lemma alone_restoring [alone_simps]: "run_alone M (task_restoring d t) = restoring d (run_alone M t)"
  by (rule ext)
     (auto simp: task_restoring_def task_finally_def run_alone_bind restoring_def alone_atomic
       split: prod.split outcome.split)

lemma alone_ns_execute [alone_simps]:
  "run_alone M (ns_execute_task os ns callback) = ns_execute os ns (\<lambda>f. run_alone M (callback f))"
  by (simp add: ns_execute_task_def ns_execute_def alone_simps)

lemma bind_err_assoc: "bind_err (bind_err m k) h = bind_err m (\<lambda>x. bind_err (k x) h)"
  by (rule ext) (auto simp: bind_err_def attempt_def fail_def split: prod.split outcome.split)

lemma register_sandbox_bind:
  "bind_err (register_sandbox name ns) k =
   bind_err (sandbox_new ns) (\<lambda>r. bind_err (modify (\<lambda>s. s\<lparr>sandboxes := (sandboxes s)(name \<mapsto> r)\<rparr>)) (\<lambda>_. k r))"
  by (simp add: register_sandbox_def bind_err_assoc)

lemma alone_option [alone_simps]:
  "run_alone M (case x of None \<Rightarrow> t | Some y \<Rightarrow> u y) =
   (case x of None \<Rightarrow> run_alone M t | Some y \<Rightarrow> run_alone M (u y))"
  by (simp split: option.split)

lemma alone_sandbox [alone_simps]:
  "run_alone M (sandbox_setup_task os r) = sandbox_setup os r"
  "run_alone M (launch_dns_task os r runner) = launch_dns os r runner"
  "run_alone M (sandbox_veth_count_task os r) = sandbox_veth_count os r"
  by (simp_all add: sandbox_setup_task_def sandbox_setup_def launch_dns_task_def launch_dns_def
      sandbox_veth_count_task_def sandbox_veth_count_def alone_simps cong: option.case_cong)

text \<open>Nobody else changes the sandbox between the steps of \<open>Teardown\<close>.\<close>

lemma alone_teardown [alone_simps]: "run_alone M (teardown_task os r) = teardown os r"
proof -
  have sandbox: "the_sandbox r t = the_sandbox r s" if "stop_monitor (sb_namespace (the_sandbox r s)) s = (q, t)" for s q t
    using stop_monitor_frame [OF that] by (simp add: the_sandbox_def)
  show ?thesis
    by (rule ext) (auto simp: teardown_task_def teardown_def alone_simps sandbox_namespace_def gets_def bind_err_def bind_wrap_def
        attempt_def sandbox split: prod.split outcome.split)
qed

lemma alone_repository [alone_simps]:
  "run_alone daemon_mutexes (sandboxes_create_task os root name) = sandboxes_create os root name"
  "run_alone daemon_mutexes (sandboxes_get_task name) = sandboxes_get name"
  "run_alone daemon_mutexes (sandboxes_destroy_task os root name) = sandboxes_destroy os root name"
  by (simp_all add: sandboxes_create_task_def sandboxes_create_def sandboxes_get_task_def sandboxes_get_def
      sandboxes_destroy_task_def sandboxes_destroy_def alone_simps register_sandbox_bind cong: if_cong)

lemma alone_start_monitor [alone_simps]: "run_alone M (start_monitor_task os ns vxlan) = start_monitor os ns vxlan"
  by (simp add: start_monitor_task_def start_monitor_def alone_simps)

lemma alone_commands [alone_simps]:
  "run_alone daemon_mutexes (satisfied_task env b) = satisfied env b"
  "run_alone daemon_mutexes (move_link_task os n sandbox) = move_link os n sandbox"
  "run_alone daemon_mutexes (start_dns_server_task env a sandbox) = start_dns_server env a sandbox"
  "run_alone daemon_mutexes (cleanup_sandbox_task env sandbox v) = cleanup_sandbox env sandbox v"
  "run_alone daemon_mutexes (monitor_command_task env h sandbox v) = monitor_command env h sandbox v"
  "run_alone daemon_mutexes (task_labelled p t) = labelled p (run_alone daemon_mutexes t)"
  by (simp_all add: satisfied_task_def satisfied_defs move_link_task_def move_link_def start_dns_server_task_def
      start_dns_server_def cleanup_sandbox_task_def cleanup_sandbox_def monitor_command_task_def monitor_command_def
      task_labelled_def labelled_def alone_simps Let_def split: condition.split cong: if_cong)

lemma alone_exec [alone_simps]:
  fixes env :: "'k env"
  shows "run_alone daemon_mutexes (exec_task env c) = (exec env c :: (('k, 'z) exec_world_scheme, unit) prog)"
    and "run_alone daemon_mutexes (exec_group_task env g i cs) =
      (exec_group env g i cs :: (('k, 'z) exec_world_scheme, unit) prog)"
  by (induction env c and env g i cs rule: exec_task_exec_group_task.induct)
     (simp_all add: alone_simps unless_execute_def in_namespace_execute_def create_sandbox_execute_def cong: if_cong)

section \<open>Containers\<close>

text \<open>The address that is handed on is the one that the command has written.\<close>

lemma hardware_address_alone:
  "bind_err (run_alone daemon_mutexes (hardware_address_task env ns interface)) (\<lambda>mac. ret (f mac)) =
   bind_err (exec env (InNamespace ns (GetHardwareAddress interface))) (\<lambda>_. gets (\<lambda>s. f (hw_result s)))"
  by (rule ext)
     (auto simp: hardware_address_task_def alone_simps in_namespace_execute_def labelled_def get_hardware_address_execute_def
       ns_execute_def bind_err_def bind_wrap_def attempt_def deferring_def restoring_def modify_def gets_def ret_def fail_def
       close_file_def sys_def split: prod.split outcome.split sum.split)

lemma alone_container [alone_simps]:
  "run_alone daemon_mutexes (setup_in_sandbox_task c config ip4 ns r) = setup_in_sandbox c config ip4 ns r"
  "run_alone daemon_mutexes (creator_setup_task c config) = creator_setup c config"
  "run_alone daemon_mutexes (deletor_delete_task env i p sandbox v) = deletor_delete env i p sandbox v"
proof -
  show in_sandbox: "run_alone daemon_mutexes (setup_in_sandbox_task c config ip4 ns r) = setup_in_sandbox c config ip4 ns r" for ip4 ns r
    by (simp add: setup_in_sandbox_task_def setup_in_sandbox_def alone_simps hardware_address_alone Let_def del: exec.simps)
  show "run_alone daemon_mutexes (creator_setup_task c config) = creator_setup c config"
    by (simp add: creator_setup_task_def creator_setup_def alone_simps in_sandbox Let_def panic_def [abs_def]
        cong: option.case_cong)
  show "run_alone daemon_mutexes (deletor_delete_task env i p sandbox v) = deletor_delete env i p sandbox v"
    by (simp add: deletor_delete_task_def deletor_delete_def alone_simps)
qed

section \<open>The allocator\<close>

text \<open>The rest of a program that only uses the allocator.\<close>

lemma alone_ipam:
  "run_alone M (ipam_task base req k pc) s =
   (case answer_at pc of
      Some r \<Rightarrow> run_alone M (k r) s
    | None \<Rightarrow> (case ipam_act base req pc s of (pc', t) \<Rightarrow> run_alone M (ipam_task base req k pc') t))"
  by (subst ipam_task.simps) (simp split: option.split prod.split)

text \<open>The loop: it only reads the configuration, and only the store of the network changes.\<close>

lemma alone_loop:
  assumes "al_configs a n = Some cfg"
  shows "run_alone M (ipam_task base (AllocateIP n c) k (AtLoop addr)) (s\<lparr>ipam_state := store_update n st a\<rparr>) =
    (case reserve_loop mem_ops cfg c addr st of
       (Ok x, st') \<Rightarrow> run_alone M (k (Allocated (Ok (lease_of cfg x)))) (s\<lparr>ipam_state := store_update n st' a\<rparr>)
     | (Err e, st') \<Rightarrow> run_alone M (k (Allocated (Err e))) (s\<lparr>ipam_state := store_update n st' a\<rparr>)
     | (Abort x, st') \<Rightarrow> run_alone M (k (Allocated (Abort x))) (s\<lparr>ipam_state := store_update n st' a\<rparr>))"
proof (induction addr arbitrary: st rule: measure_induct_rule [of "\<lambda>a. 2 ^ 32 - set_bytes (to4 a)"])
  case (less addr)
  let ?x = "next_ip addr"
  have step: "request_step base (AllocateIP n c) (AtLoop addr) (store_update n st a) =
      loop_step (AllocateIP n c) cfg addr st (store_update n st a)" for st
    using assms by (simp add: with_config_def with_store_def) (simp add: store_update_def)
  have again: "store_update n u (store_update n v a) = store_update n u a" for u v
    by (simp add: store_update_def)
  show ?case
  proof (cases "net_contains (cfg_ip cfg) ?x")
    case False
    then show ?thesis
      by (subst reserve_loop.simps, subst alone_ipam, simp del: request_step.simps add: ipam_act_def step loop_step_def)
         (subst alone_ipam, simp)
  next
    case True
    have smaller: "2 ^ 32 - set_bytes (to4 ?x) < 2 ^ 32 - set_bytes (to4 addr)"
      using contains_next_ip_bound [OF True] by linarith
    show ?thesis
      using True less.IH [OF smaller]
      by (subst reserve_loop.simps, subst alone_ipam,
          simp del: request_step.simps add: ipam_act_def step loop_step_def again mem_ops_def split: prod.split outcome.split)
         (auto simp: alone_ipam)
  qed
qed

text \<open>The first two calls of a request always find a configuration and a store.\<close>

lemma get_config_ok:
  fixes a :: "memory_store allocator"
  obtains cfg b where "get_config (config_factory_create base) n a = (Ok cfg, b)" "al_configs b n = Some cfg"
  by (cases "al_configs a n") (auto simp: get_config_def config_factory_create_def)

lemma get_store_ok:
  fixes a :: "memory_store allocator"
  obtains st b where "get_store store_factory_create n a = (Ok st, b)" "al_stores b n = Some st"
    "al_configs b = al_configs a"
  by (cases "al_stores a n") (auto simp: get_store_def store_factory_create_def)

lemma alone_allocate [alone_simps]:
  "run_alone M (allocate_task base n c) = (on_ipam (ducati_allocate base n c) :: (('a, 'b) daemon_scheme, cni_result) prog)"
proof (rule ext)
  fix s :: "('a, 'b) daemon_scheme"
  let ?k = "\<lambda>q. case q of Allocated r \<Rightarrow> Finished r | Released r \<Rightarrow> Finished (Abort nil_dereference)"
  obtain cfg a where a: "get_config (config_factory_create base) n (ipam_state s) = (Ok cfg, a)" "al_configs a n = Some cfg"
    by (rule get_config_ok)
  obtain st b where b: "get_store store_factory_create n a = (Ok st, b)" "al_stores b n = Some st" "al_configs b = al_configs a"
    by (rule get_store_ok)
  have same: "store_update n st b = b" "b\<lparr>al_configs := (al_configs b)(n \<mapsto> cfg)\<rparr> = b"
    using a(2) b(2,3) by (simp_all add: store_update_def fun_upd_idem)
  have start: "run_alone M (allocate_task base n c) s =
      run_alone M (ipam_task base (AllocateIP n c) ?k AtContains) (s\<lparr>ipam_state := b\<rparr>)"
    unfolding allocate_task_def
    by (subst alone_ipam, simp add: ipam_act_def after_call_def a)
       (subst alone_ipam, simp add: ipam_act_def after_call_def b)
  show "run_alone M (allocate_task base n c) s = on_ipam (ducati_allocate base n c) s"
  proof (cases "mem_contains c st")
    case True
    then show ?thesis
      unfolding start
      by (subst alone_ipam, simp add: ipam_act_def with_store_def b)
         (subst alone_ipam, simp add: on_ipam_def ducati_allocate_def allocate_ip_def bind_err_eval a b mem_ops_def)
  next
    case False
    let ?first = "if cfg_gateway cfg = [] then next_ip (net_ip (cfg_ip cfg)) else net_ip (cfg_ip cfg)"
    let ?cfg = "if cfg_gateway cfg = [] then cfg\<lparr>cfg_gateway := ?first\<rparr> else cfg"
    let ?b = "b\<lparr>al_configs := (al_configs b)(n \<mapsto> ?cfg)\<rparr>"
    have "run_alone M (ipam_task base (AllocateIP n c) ?k AtContains) (s\<lparr>ipam_state := b\<rparr>) =
        run_alone M (ipam_task base (AllocateIP n c) ?k AtGateway) (s\<lparr>ipam_state := b\<rparr>)"
      using False by (subst alone_ipam, simp add: ipam_act_def with_store_def b)
    also have "\<dots> = run_alone M (ipam_task base (AllocateIP n c) ?k (AtLoop ?first)) (s\<lparr>ipam_state := ?b\<rparr>)"
    proof (cases "cfg_gateway cfg = []")
      case True
      then show ?thesis
        using a b by (subst alone_ipam, simp add: ipam_act_def with_config_def)
          (subst alone_ipam, simp add: ipam_act_def with_config_def)
    next
      case False
      then show ?thesis
        using a b same by (subst alone_ipam, simp add: ipam_act_def with_config_def)
    qed
    finally have loop: "run_alone M (allocate_task base n c) s =
        run_alone M (ipam_task base (AllocateIP n c) ?k (AtLoop ?first)) (s\<lparr>ipam_state := store_update n st ?b\<rparr>)"
      unfolding start using b(2) by (simp add: store_update_def fun_upd_idem)
    have new: "\<not> as_contains mem_ops c st" using False by (simp add: mem_ops_def)
    show ?thesis
      unfolding loop
      by (subst alone_loop [where cfg = ?cfg], simp)
         (simp add: on_ipam_def ducati_allocate_def allocate_ip_def bind_err_eval a b Let_def new store_update_def lease_of_def
           split: prod.split outcome.split)
  qed
qed

lemma alone_release [alone_simps]:
  "run_alone M (release_task base n c) = (on_ipam (ducati_release n c) :: (('a, 'b) daemon_scheme, unit) prog)"
proof (rule ext)
  fix s :: "('a, 'b) daemon_scheme"
  obtain st b where b: "get_store store_factory_create n (ipam_state s) = (Ok st, b)" "al_stores b n = Some st"
    by (rule get_store_ok)
  show "run_alone M (release_task base n c) s = on_ipam (ducati_release n c) s"
    unfolding release_task_def
    by (subst alone_ipam, simp add: ipam_act_def after_call_def b)
       (subst alone_ipam, simp add: ipam_act_def with_store_def b mem_release_by_id_def,
        subst alone_ipam, simp add: on_ipam_def ducati_release_def release_ip_def bind_err_eval b mem_ops_def
          mem_release_by_id_def store_update_def Let_def)
qed

section \<open>Requests\<close>

text \<open>
  A request that runs alone, cut into its steps, has the outcome and the effect of the controller's
  program, from every state and over every system: the two renderings of the source agree.
\<close>

lemma requests_run_alone:
  fixes s :: "('k, 'z) daemon_scheme"
  shows "run_alone daemon_mutexes (request_task S (AddRequest p)) s =
      (case cni_add S p s of (Ok r, t) \<Rightarrow> (Ok (Some r), t) | (Err e, t) \<Rightarrow> (Err e, t) | (Abort a, t) \<Rightarrow> (Abort a, t))"
    and "run_alone daemon_mutexes (request_task S (DelRequest d)) s =
      (case cni_del S d s of (Ok u, t) \<Rightarrow> (Ok None, t) | (Err e, t) \<Rightarrow> (Err e, t) | (Abort a, t) \<Rightarrow> (Abort a, t))"
proof -
  have add: "run_alone daemon_mutexes (cni_add_task S p) = (cni_add S p :: (('k, 'z) daemon_scheme, cni_result) prog)"
    by (simp add: cni_add_task_def cni_add_def alone_simps)
  show "run_alone daemon_mutexes (request_task S (AddRequest p)) s =
      (case cni_add S p s of (Ok r, t) \<Rightarrow> (Ok (Some r), t) | (Err e, t) \<Rightarrow> (Err e, t) | (Abort a, t) \<Rightarrow> (Abort a, t))"
    by (auto simp: add alone_simps bind_err_def attempt_def fail_def ret_def split: prod.split outcome.split)
  have del: "run_alone daemon_mutexes (cni_del_task S d) = (cni_del S d :: (('k, 'z) daemon_scheme, unit) prog)"
    by (simp add: cni_del_task_def cni_del_def alone_simps)
  show "run_alone daemon_mutexes (request_task S (DelRequest d)) s =
      (case cni_del S d s of (Ok u, t) \<Rightarrow> (Ok None, t) | (Err e, t) \<Rightarrow> (Err e, t) | (Abort a, t) \<Rightarrow> (Abort a, t))"
    by (auto simp: del alone_simps bind_err_def attempt_def fail_def ret_def split: prod.split outcome.split)
qed

end
