(* ===== verification/Task_Pools.thy ===== *)
theory Task_Pools
  imports Tasks
begin

text \<open>
  Pools of tasks over mutexes that obey \<open>mutex_laws\<close>: the invariant of a pool (who holds what), that some goroutine
  can always go on, and that a fair schedule finishes all of them.
\<close>

section \<open>The invariant of a pool\<close>

context mutex_laws
begin

text \<open>A goroutine ends with no mutex and with an outcome that is as \<open>P\<close> says, from then on.\<close>

definition concludes :: "('a outcome \<Rightarrow> 'f set \<Rightarrow> bool) \<Rightarrow> 'a outcome \<Rightarrow> 'l set \<Rightarrow> 'f set \<Rightarrow> bool" where
  "concludes P r H K \<longleftrightarrow> H = {} \<and> r \<noteq> Abort Deadlock \<and> (\<forall>L. K \<subseteq> L \<longrightarrow> P r L)"

text \<open>
  A pool in order: every goroutine is proper and will end as \<open>post\<close> says, no mutex is held twice, and the
  mutexes that are locked are the ones that are held.
\<close>

definition pool_ok :: "(nat \<Rightarrow> 'a outcome \<Rightarrow> 'f set \<Rightarrow> bool) \<Rightarrow> ('s, 'l, 'a) goroutine list \<Rightarrow> 's \<Rightarrow> bool" where
  "pool_ok post ts s \<longleftrightarrow> inv s \<and>
     (\<forall>i < length ts. distinct (snd (ts ! i)) \<and> (\<forall>l \<in> set (snd (ts ! i)). exist l \<subseteq> known s) \<and>
        proper (fst (ts ! i)) (set (snd (ts ! i))) (known s) (concludes (post i))) \<and>
     (\<forall>i < length ts. \<forall>j < length ts. i \<noteq> j \<longrightarrow> set (snd (ts ! i)) \<inter> set (snd (ts ! j)) = {}) \<and>
     (\<forall>l. exist l \<subseteq> known s \<longrightarrow> mx_locked M l s = (\<exists>i < length ts. l \<in> set (snd (ts ! i))))"

lemma pool_okD:
  assumes "pool_ok post ts s"
  shows "inv s"
    and "i < length ts \<Longrightarrow> ts ! i = (t, h) \<Longrightarrow> distinct h"
    and "i < length ts \<Longrightarrow> ts ! i = (t, h) \<Longrightarrow> l \<in> set h \<Longrightarrow> exist l \<subseteq> known s"
    and "i < length ts \<Longrightarrow> ts ! i = (t, h) \<Longrightarrow>
      proper t (set h) (known s) (concludes (post i))"
    and "i < length ts \<Longrightarrow> j < length ts \<Longrightarrow> l \<in> set (snd (ts ! i)) \<Longrightarrow> l \<in> set (snd (ts ! j)) \<Longrightarrow> i = j"
    and "exist l \<subseteq> known s \<Longrightarrow> mx_locked M l s = (\<exists>i < length ts. l \<in> set (snd (ts ! i)))"
  using assms unfolding pool_ok_def by (force+)

lemma proper_known: "proper t H K (concludes P) \<Longrightarrow> K \<subseteq> K' \<Longrightarrow> proper t H K' (concludes P)"
  by (erule proper_mono) (auto simp: concludes_def)

lemma orderly_concludes:
  "orderly 0 F t V \<Longrightarrow> F \<subseteq> K \<Longrightarrow> proper t {} K (concludes (\<lambda>r L. \<forall>x. r = Ok x \<longrightarrow> V x L))"
  by (rule proper_mono [OF orderlyD [of 0 F t V "{}" K]]) (auto simp: ends_def concludes_def)

text \<open>One turn: what the goroutine becomes, and what the others may rely on.\<close>

lemma pool_ok_update:
  assumes ok: "pool_ok post ts s" and i: "i < length ts"
    and inv: "inv u" and known: "known s \<subseteq> known u"
    and t: "distinct h'" "\<And>l. l \<in> set h' \<Longrightarrow> exist l \<subseteq> known u"
      "proper t' (set h') (known u) (concludes (post i))"
    and new: "\<And>l j. l \<in> set h' \<Longrightarrow> j < length ts \<Longrightarrow> l \<in> set (snd (ts ! j)) \<Longrightarrow> i = j"
    and flags: "\<And>l. exist l \<subseteq> known u \<Longrightarrow>
      mx_locked M l u = (l \<in> set h' \<or> (\<exists>j < length ts. i \<noteq> j \<and> l \<in> set (snd (ts ! j))))"
  shows "pool_ok post (ts[i := (t', h')]) u"
  unfolding pool_ok_def
proof (intro conjI allI impI)
  fix j assume j: "j < length (ts[i := (t', h')])"
  obtain t h where tj: "ts ! j = (t, h)" by fastforce
  note old = pool_okD(2-4) [OF ok, of j]
  show "distinct (snd (ts[i := (t', h')] ! j))" using j t(1) old(1) tj i by (cases "i = j") auto
  show "\<forall>l \<in> set (snd (ts[i := (t', h')] ! j)). exist l \<subseteq> known u"
    using j t(2) subset_trans [OF old(2) known] tj i by (cases "i = j") auto
  show "proper (fst (ts[i := (t', h')] ! j)) (set (snd (ts[i := (t', h')] ! j))) (known u) (concludes (post j))"
    using j t(3) proper_known [OF old(3) known] tj i by (cases "i = j") auto
next
  fix j k assume jk: "j < length (ts[i := (t', h')])" "k < length (ts[i := (t', h')])" "j \<noteq> k"
  have "False" if "l \<in> set (snd (ts[i := (t', h')] ! j))" "l \<in> set (snd (ts[i := (t', h')] ! k))" for l
    using that jk i new [of l j] new [of l k] pool_okD(5) [OF ok, of j k l]
    by (auto simp: nth_list_update split: if_splits)
  then show "set (snd (ts[i := (t', h')] ! j)) \<inter> set (snd (ts[i := (t', h')] ! k)) = {}" by blast
next
  fix l assume "exist l \<subseteq> known u"
  from flags [OF this] show "mx_locked M l u = (\<exists>j < length (ts[i := (t', h')]). l \<in> set (snd (ts[i := (t', h')] ! j)))"
    using i by (auto simp: nth_list_update split: if_splits)
qed (rule inv)

lemma pool_ok_turn:
  assumes ok: "pool_ok post ts s" and turn: "pool_turn M i (ts, s) = (ts', s')"
  shows "pool_ok post ts' s' \<and> known s \<subseteq> known s'"
  using turn
proof (cases rule: pool_turn_cases)
  case (turn t h t' h')
  note ti = pool_okD(2-4) [OF ok turn(1,2)] and inv = pool_okD(1) [OF ok]
  have mine: "i = j" if "l \<in> set h" "j < length ts" "l \<in> set (snd (ts ! j))" for l j
    using pool_okD(5) [OF ok turn(1) that(2)] that turn(2) by auto
  have flags: "mx_locked M l s = (l \<in> set h \<or> (\<exists>j < length ts. i \<noteq> j \<and> l \<in> set (snd (ts ! j))))"
    if "exist l \<subseteq> known s" for l
    using pool_okD(6) [OF ok that] turn(1,2) by auto
  from turn(3) show ?thesis
  proof (cases rule: advance_cases)
    case stays
    have "ts' = ts" unfolding turn(4) stays(1,2) turn(2) [symmetric] by simp
    with ok stays show ?thesis by simp
  next
    case (act f k)
    then have s': "steady s (f s)" "proper (k s) (set h) (known (f s)) (concludes (post i))"
      using ti(3) inv by auto
    have "pool_ok post (ts[i := (k s, h)]) (f s)"
    proof (rule pool_ok_update [OF ok turn(1)])
      show "mx_locked M l (f s) = (l \<in> set h \<or> (\<exists>j < length ts. i \<noteq> j \<and> l \<in> set (snd (ts ! j))))"
        if "exist l \<subseteq> known (f s)" for l
      proof (cases "exist l \<subseteq> known s")
        case True
        with flags [OF True] s'(1) that show ?thesis by (auto simp: steady_def)
      next
        case False
        then have "\<not> mx_locked M l (f s)" using s'(1) that by (auto simp: steady_def)
        moreover have "l \<notin> set (snd (ts ! j))" if "j < length ts" for j
          using pool_okD(3) [OF ok that, of "fst (ts ! j)" "snd (ts ! j)" l] False by auto
        ultimately show ?thesis using turn(1,2) by fastforce
      qed
    qed (use s' ti(1) subset_trans [OF ti(2), of _ "known (f s)"] mine in \<open>auto simp: steady_def\<close>)
    with act s' turn(4) show ?thesis by (auto simp: steady_def)
  next
    case (acquire l)
    then have l: "exist l \<subseteq> known s" "proper t' (insert l (set h)) (known s) (concludes (post i))"
      using ti(3) by auto
    have free: "l \<notin> set (snd (ts ! j))" if "j < length ts" for j
      using pool_okD(6) [OF ok l(1)] acquire(2) that by blast
    with turn(1,2) have "l \<notin> set h" by fastforce
    then have "pool_ok post (ts[i := (t', l # h)]) (mx_lock M l s)"
    proof (intro pool_ok_update [OF ok turn(1)])
      show "mx_locked M m (mx_lock M l s) = (m \<in> set (l # h) \<or> (\<exists>j < length ts. i \<noteq> j \<and> m \<in> set (snd (ts ! j))))"
        if "exist m \<subseteq> known (mx_lock M l s)" for m
        using flags [of m] that lock [OF l(1) inv, of m] by (auto simp: known_lock)
    qed (use l ti mine free inv in \<open>auto simp: known_lock inv_lock\<close>)
    with acquire turn(4) show ?thesis by (simp add: known_lock)
  next
    case (release l)
    then have l: "l \<in> set h" "proper t' (set h - {l}) (known s) (concludes (post i))"
      using ti(3) by auto
    have rest: "set (remove1 l h) = set h - {l}" using ti(1) by (rule set_remove1_eq)
    have "pool_ok post (ts[i := (t', remove1 l h)]) (mx_unlock M l s)"
    proof (intro pool_ok_update [OF ok turn(1)])
      show "mx_locked M m (mx_unlock M l s) = (m \<in> set (remove1 l h) \<or> (\<exists>j < length ts. i \<noteq> j \<and> m \<in> set (snd (ts ! j))))"
        if "exist m \<subseteq> known (mx_unlock M l s)" for m
        using flags [of m] that unlock [OF ti(2) [OF l(1)] inv, of m] mine [OF l(1)] by (auto simp: known_lock rest)
    qed (use l ti mine inv in \<open>auto simp: known_lock inv_lock rest\<close>)
    with release turn(4) show ?thesis by (simp add: known_lock)
  qed
qed (use ok in simp)

lemma pool_ok_run:
  assumes "pool_ok post (fst p) (snd p)"
  shows "pool_ok post (fst (run_pool M sched p)) (snd (run_pool M sched p))"
  using assms
proof (induction sched arbitrary: p)
  case (Cons i sched)
  have "pool_ok post (fst (pool_turn M i p)) (snd (pool_turn M i p))"
    using pool_ok_turn [OF Cons.prems, of i "fst (pool_turn M i p)" "snd (pool_turn M i p)"] by simp
  from Cons.IH [OF this] show ?case by (simp add: run_pool_def)
qed (simp add: run_pool_def)

lemma pool_ok_start:
  assumes "inv s" "\<And>l. exist l \<subseteq> known s \<Longrightarrow> \<not> mx_locked M l s"
    and "\<And>i. i < length ts \<Longrightarrow> proper (ts ! i) {} (known s) (concludes (post i))"
  shows "pool_ok post (fst (start_pool ts s)) s"
  using assms by (simp add: pool_ok_def start_pool_def)

section \<open>No schedule blocks all goroutines\<close>

definition blocked :: "('s, 'l, 'a) goroutine \<Rightarrow> 's \<Rightarrow> bool" where
  "blocked t s \<longleftrightarrow> (\<exists>l k. fst t = Acquire l k \<and> mx_locked M l s)"

lemma turn_moves:
  assumes "i < length ts" "\<not> finished (ts ! i)" "\<not> blocked (ts ! i) s" "pool_turn M i (ts, s) = (ts', s')"
  shows "fst (ts' ! i) \<noteq> fst (ts ! i)"
  using assms(4)
proof (cases rule: pool_turn_cases)
  case (turn t h t' h')
  from turn(3) have "next_task t' t"
    using assms(2,3) turn(2)
    by (cases rule: advance_cases) (auto simp: blocked_def intro: next_task.intros)
  with turn show ?thesis by (auto dest: next_task_neq)
qed (use assms in simp)

lemma pool_ok_finished: "pool_ok post ts s \<Longrightarrow> i < length ts \<Longrightarrow> finished (ts ! i) \<Longrightarrow>
   snd (ts ! i) = [] \<and> (\<exists>r. fst (ts ! i) = Finished r \<and> r \<noteq> Abort Deadlock \<and> post i r (known s))"
  using pool_okD(4) [of post ts s i] by (cases "ts ! i" rule: finished.cases) (auto simp: concludes_def)

text \<open>
  Among the goroutines that wait, one that waits for a mutex of the highest level waits for a goroutine that
  does not wait.
\<close>

lemma pool_progress:
  assumes ok: "pool_ok post ts s" and i: "i < length ts" "\<not> finished (ts ! i)"
  shows "\<exists>j < length ts. \<not> finished (ts ! j) \<and> \<not> blocked (ts ! j) s"
proof (rule ccontr)
  assume "\<not> ?thesis"
  then have all: "blocked (ts ! j) s" if "j < length ts" "\<not> finished (ts ! j)" for j using that by blast
  let ?W = "{j. j < length ts \<and> \<not> finished (ts ! j)}"
  let ?f = "\<lambda>j. case fst (ts ! j) of Acquire l k \<Rightarrow> level l | _ \<Rightarrow> 0"
  have W: "finite (?f ` ?W)" "?f ` ?W \<noteq> {}" using i by auto
  obtain j where j: "j < length ts" "\<not> finished (ts ! j)" "?f j = Max (?f ` ?W)"
    using Max_in [OF W] by auto
  then obtain l k where l: "fst (ts ! j) = Acquire l k" "mx_locked M l s" using all unfolding blocked_def by blast
  have "exist l \<subseteq> known s"
    using pool_okD(4) [OF ok j(1), of "Acquire l k" "snd (ts ! j)"] l(1) by (simp add: prod_eq_iff)
  then obtain m where m: "m < length ts" "l \<in> set (snd (ts ! m))" using pool_okD(6) [OF ok] l(2) by blast
  then have running: "\<not> finished (ts ! m)" using pool_ok_finished [OF ok m(1)] by auto
  then obtain l' k' where l': "fst (ts ! m) = Acquire l' k'" using all [OF m(1)] unfolding blocked_def by blast
  then have "level l < level l'"
    using pool_okD(4) [OF ok m(1), of "Acquire l' k'" "snd (ts ! m)"] m(2) by (simp add: prod_eq_iff)
  moreover have "?f m \<le> Max (?f ` ?W)" by (rule Max_ge [OF W(1)]) (use m(1) running in blast)
  ultimately show False using j(3) l(1) l' by simp
qed

lemma pool_turn_same:
  assumes "pool_turn M i (ts, s) = (ts', s')" "i < length ts \<Longrightarrow> fst (ts' ! i) = fst (ts ! i)"
  shows "ts' = ts \<and> s' = s"
  using assms(1)
proof (cases rule: pool_turn_cases)
  case (turn t h t' h')
  then have "\<not> next_task t' t" using assms(2) next_task_neq by fastforce
  from turn(3) show ?thesis
  proof (cases rule: advance_cases)
    case stays
    then have "(t', h') = ts ! i" using turn(2) by simp
    with turn(4) stays(3) show ?thesis by simp
  next
    case (act f k)
    then have "next_task t' t" by (simp add: next_task.intros)
    with \<open>\<not> next_task t' t\<close> show ?thesis ..
  next
    case (acquire l)
    then have "next_task t' t" by (simp add: next_task.intros)
    with \<open>\<not> next_task t' t\<close> show ?thesis ..
  next
    case (release l)
    then have "next_task t' t" by (simp add: next_task.intros)
    with \<open>\<not> next_task t' t\<close> show ?thesis ..
  qed
qed simp

section \<open>Every fair schedule brings all goroutines to their end\<close>

theorem fair_pool_finishes:
  assumes ok: "pool_ok post ts s" and fair: "fair (length ts) sched"
  shows "\<exists>n. \<forall>t \<in> set (fst (run_pool M (map sched [0..<n]) (ts, s))). finished t"
proof -
  define us where "us n = fst (run_pool M (map sched [0..<n]) (ts, s))" for n
  define u where "u n = snd (run_pool M (map sched [0..<n]) (ts, s))" for n
  have turn: "pool_turn M (sched n) (us n, u n) = (us (Suc n), u (Suc n))" for n
    by (simp add: us_def u_def run_pool_def)
  have ok_n: "pool_ok post (us n) (u n)" for n
    using pool_ok_run [of post "(ts, s)"] ok by (simp add: us_def u_def)
  have len: "length (us n) = length ts" for n
  proof (induction n)
    case (Suc n)
    then show ?case using pool_turn_length [OF turn] by simp
  qed (simp add: us_def run_pool_def)
  have "\<exists>N. \<forall>n \<ge> N. fst (us n ! i) = fst (us N ! i)" if "i < length ts" for i
    by (rule wf_comes_to_rest [OF wf_next_task]) (use pool_turn_task [OF turn] that len in simp)
  then obtain N where N: "\<forall>i < length ts. \<forall>n \<ge> N i. fst (us n ! i) = fst (us (N i) ! i)" by metis
  obtain L where L: "\<forall>i < length ts. N i \<le> L"
  proof
    show "\<forall>i < length ts. N i \<le> Max (insert 0 (N ` {..<length ts}))" by auto
  qed
  have rest: "fst (us n ! i) = fst (us L ! i)" if "i < length ts" "n \<ge> L" for i n
    using N L that by (metis le_trans)
  have still: "us (Suc n) = us n \<and> u (Suc n) = u n" if "n \<ge> L" for n
    by (rule pool_turn_same [OF turn]) (use rest [of "sched n" n] rest [of "sched n" "Suc n"] that len in simp)
  have stopped: "us n = us L \<and> u n = u L" if "n \<ge> L" for n
    using that by (induction rule: dec_induct) (simp_all add: still)
  have "finished (us L ! i)" if i: "i < length ts" for i
  proof (rule ccontr)
    assume "\<not> finished (us L ! i)"
    then obtain j where j: "j < length ts" "\<not> finished (us L ! j)" "\<not> blocked (us L ! j) (u L)"
      using pool_progress [OF ok_n, of i L] i len by metis
    obtain n where n: "n \<ge> L" "sched n = j" using fair j(1) by (auto simp: fair_def)
    have "pool_turn M j (us L, u L) = (us L, u L)"
      using turn [of n] stopped [OF n(1)] still [OF n(1)] n(2) by simp
    then show False using turn_moves [of j "us L" "u L" "us L" "u L"] j len by simp
  qed
  then show ?thesis using len by (metis us_def in_set_conv_nth)
qed

text \<open>At the end no mutex is held.\<close>

lemma finished_pool:
  assumes ok: "pool_ok post ts s" and all: "\<forall>t \<in> set ts. finished t"
  shows "exist l \<subseteq> known s \<Longrightarrow> \<not> mx_locked M l s"
    and "i < length ts \<Longrightarrow> \<exists>r. ts ! i = (Finished r, []) \<and> r \<noteq> Abort Deadlock \<and> post i r (known s)"
  using pool_ok_finished [OF ok] pool_okD(6) [OF ok] all by (auto simp: prod_eq_iff)

end

end
