(* ===== verification/Request_Runs.thy ===== *)
theory Request_Runs
  imports Request_Tasks Task_Pools Daemon_Invariant
begin

text \<open>
  Any number of Add and Del requests at the same time, in any order of their steps: the mutexes of the daemon obey the
  laws of \<open>mutex_laws\<close>, every request takes them in order, and every step of a request keeps the registry of sandboxes
  and the allocator sound.  So no schedule blocks the daemon, and a fair one answers every request.
\<close>

section \<open>What all requests rely on\<close>

text \<open>
  Of the invariant between requests, this much holds between any two steps.  That only namespaces of
  registered sandboxes are monitored does not: a request may still start a monitor for a sandbox that another has
  destroyed.
\<close>

definition registry_ok :: "string \<Rightarrow> ('k, 'z) sandbox_world_scheme \<Rightarrow> bool" where
  "registry_ok root s \<longleftrightarrow>
     watch_ok s \<and> refs_ok (sandboxes s) (length (object_files s)) \<and> names_ok root (sandboxes s) (object_files s)"

definition shared_ok :: "ip_config \<Rightarrow> string \<Rightarrow> ('k, 'z) daemon_scheme \<Rightarrow> bool" where
  "shared_ok base root s \<longleftrightarrow> registry_ok root s \<and> alloc_inv base (ipam_state s)"

text \<open>
  What stays true once it is: that a sandbox exists, what a request knows of the allocator, and the lease of
  a container that is not among the containers \<open>D\<close> that the requests delete.
\<close>

datatype fact =
    Created sandbox_ref
  | Reached ipam_call request_pc
  | Leased string ip string

fun fact_holds :: "ip_config \<Rightarrow> string set \<Rightarrow> ('k, 'z) daemon_scheme \<Rightarrow> fact \<Rightarrow> bool" where
  "fact_holds base D s (Created r) = (r < length (objects s))"
| "fact_holds base D s (Reached req pc) = pc_ok base (ipam_state s) req pc"
| "fact_holds base D s (Leased n x c) = (c \<notin> D \<and> holds (ipam_state s) n x = Some c)"

definition known_facts :: "ip_config \<Rightarrow> string set \<Rightarrow> ('k, 'z) daemon_scheme \<Rightarrow> fact set" where
  "known_facts base D s = Collect (fact_holds base D s)"

lemma known_facts_iff [simp]: "f \<in> known_facts base D s \<longleftrightarrow> fact_holds base D s f"
  by (simp add: known_facts_def)

fun mutex_facts :: "mutex \<Rightarrow> fact set" where
  "mutex_facts RepoMutex = {}"
| "mutex_facts (SandboxMutex r) = {Created r}"

text \<open>The mutex of a sandbox is taken before that of the repository.\<close>

fun mutex_level :: "mutex \<Rightarrow> nat" where
  "mutex_level RepoMutex = 1"
| "mutex_level (SandboxMutex r) = 0"

lemma registry_ok_same:
  assumes "done_chans t = done_chans s" "next_chan t = next_chan s" "closed_chans t = closed_chans s"
    "sandboxes t = sandboxes s" "object_files t = object_files s"
  shows "registry_ok root t = registry_ok root s"
  using assms by (simp add: registry_ok_def watch_ok_def)

lemma registry_ok_frame [simp]:
  "registry_ok root (s\<lparr>kernel := k\<rparr>) = registry_ok root s"
  "registry_ok root (s\<lparr>inserters := is\<rparr>) = registry_ok root s"
  "registry_ok root (s\<lparr>subscriptions := ss\<rparr>) = registry_ok root s"
  "registry_ok root (s\<lparr>repo_locked := b\<rparr>) = registry_ok root s"
  by (rule registry_ok_same; simp add: object_files_def)+

lemma registry_ok_more [simp]: "registry_ok root (s\<lparr>hw_result := a\<rparr>) = registry_ok root s"
  by (rule registry_ok_same) (simp_all add: object_files_def)

lemma registry_ok_ipam [simp]: "registry_ok root (s\<lparr>ipam_state := a\<rparr>) = registry_ok root s"
  by (rule registry_ok_same) (simp_all add: object_files_def)

lemma object_files_update:
  "(\<And>b. sb_namespace (f b) = sb_namespace b) \<Longrightarrow> object_files (update_sandbox r f s) = object_files s"
  by (cases "r < length (objects s)")
     (simp_all add: object_files_def update_sandbox_def map_update list_update_same_conv list_update_beyond)

lemma registry_ok_update:
  "(\<And>b. sb_namespace (f b) = sb_namespace b) \<Longrightarrow> registry_ok root (update_sandbox r f s) = registry_ok root s"
  by (rule registry_ok_same [OF _ _ _ _ object_files_update]) (simp_all add: update_sandbox_def)

lemma registry_ok_registered: "registry_ok root s \<Longrightarrow> registered s"
  by (auto simp: registry_ok_def registered_def refs_ok_def object_files_def)

lemma sandboxes_ok_registry: "sandboxes_ok root N s \<Longrightarrow> registry_ok root s"
  by (simp add: sandboxes_ok_def registry_ok_def)

interpretation daemon: mutex_laws daemon_mutexes mutex_facts "known_facts base D" "shared_ok base root" mutex_level
  for base D root
proof (unfold_locales)
  fix s :: "('k, 'z) daemon_scheme" and l l' :: mutex
  show "mx_locked daemon_mutexes l' (mx_lock daemon_mutexes l s) \<longleftrightarrow> l' = l \<or> mx_locked daemon_mutexes l' s"
    if "mutex_facts l \<subseteq> known_facts base D s"
    using that by (auto simp: daemon_mutexes_def the_sandbox_def update_sandbox_def nth_list_update split: mutex.splits if_splits)
  show "mx_locked daemon_mutexes l' (mx_unlock daemon_mutexes l s) \<longleftrightarrow> l' \<noteq> l \<and> mx_locked daemon_mutexes l' s"
    if "mutex_facts l \<subseteq> known_facts base D s"
    using that by (auto simp: daemon_mutexes_def the_sandbox_def update_sandbox_def nth_list_update split: mutex.splits if_splits)
  have facts: "fact_holds base D (mx_lock daemon_mutexes l s) f = fact_holds base D s f"
    "fact_holds base D (mx_unlock daemon_mutexes l s) f = fact_holds base D s f" for f
    by (cases f; cases l; simp add: daemon_mutexes_def update_sandbox_def)+
  show "known_facts base D (mx_lock daemon_mutexes l s) = known_facts base D s"
    "known_facts base D (mx_unlock daemon_mutexes l s) = known_facts base D s"
    by (simp_all add: set_eq_iff facts)
  show "shared_ok base root (mx_lock daemon_mutexes l s) = shared_ok base root s"
    "shared_ok base root (mx_unlock daemon_mutexes l s) = shared_ok base root s"
    by (cases l; simp add: shared_ok_def daemon_mutexes_def registry_ok_update; simp add: update_sandbox_def)+
qed

section \<open>Steps\<close>

text \<open>A step that keeps the lock discipline of \<open>Locks\<close> leaves the mutexes alone.\<close>

lemma steady_settled:
  assumes "settled s t" "shared_ok base root t" "grows base (ipam_state s) (ipam_state t)"
    and leases: "\<And>n x c. c \<notin> D \<Longrightarrow> holds (ipam_state s) n x = Some c \<Longrightarrow> holds (ipam_state t) n x = Some c"
  shows "daemon.steady base D root s t"
proof -
  obtain l where l: "map sb_locked (objects t) = map sb_locked (objects s) @ replicate l False"
    using assms(1) by (auto simp: settled_def)
  from arg_cong [OF l, of length] have more: "length (objects t) = length (objects s) + l" by simp
  have known: "known_facts base D s \<subseteq> known_facts base D t"
  proof
    fix f assume "f \<in> known_facts base D s"
    then show "f \<in> known_facts base D t"
      using more pc_ok_grows [OF _ assms(3)] leases by (cases f) auto
  qed
  have "mx_locked daemon_mutexes m t = (mutex_facts m \<subseteq> known_facts base D s \<and> mx_locked daemon_mutexes m s)"
    if "mutex_facts m \<subseteq> known_facts base D t" for m
  proof (cases m)
    case RepoMutex
    with assms(1) show ?thesis by (simp add: daemon_mutexes_def settled_def)
  next
    case (SandboxMutex r)
    with that have r: "r < length (objects t)" by simp
    then have "sb_locked (objects t ! r) = map sb_locked (objects t) ! r" by simp
    also have "\<dots> = (r < length (objects s) \<and> sb_locked (objects s ! r))"
      using r more unfolding l by (simp add: nth_append)
    finally show ?thesis using SandboxMutex by (simp add: daemon_mutexes_def the_sandbox_def)
  qed
  with assms(2) known show ?thesis by (simp add: daemon.steady_def)
qed

named_theorems calm_intros \<open>programs that may be one step of a request\<close>

lemma calm_keeps:
  fixes m :: "(('k, 'z) daemon_scheme, 'a) prog"
  assumes m: "lock_safe registered m" "keeps (registry_ok root) m" "confined m"
    and V: "\<And>s x t L. shared_ok base root t \<Longrightarrow> m s = (Ok x, t) \<Longrightarrow> known_facts base D t \<subseteq> L \<Longrightarrow> V x L"
  shows "daemon.calm base D root F m V"
  unfolding daemon.calm_def
proof (intro allI impI)
  fix s :: "('k, 'z) daemon_scheme"
  assume s: "shared_ok base root s \<and> F \<subseteq> known_facts base D s"
  obtain r t where t: "m s = (r, t)" by fastforce
  have "registered s" using s registry_ok_registered by (auto simp: shared_ok_def)
  from lock_safeD [OF m(1) this t] have rt: "r \<noteq> Abort Deadlock" "settled s t" by blast+
  have "registry_ok root t" using keepsD [OF m(2) _ t] s by (simp add: shared_ok_def)
  moreover have ipam: "ipam_state t = ipam_state s" by (rule confinedD [OF m(3) t])
  ultimately have ok: "shared_ok base root t" using s by (simp add: shared_ok_def)
  have "daemon.steady base D root s t" by (rule steady_settled [OF rt(2) ok]) (simp_all add: ipam)
  then show "daemon.steady base D root s (snd (m s)) \<and> fst (m s) \<noteq> Abort Deadlock \<and>
      (\<forall>x. fst (m s) = Ok x \<longrightarrow> (\<forall>L. known_facts base D (snd (m s)) \<subseteq> L \<longrightarrow> V x L))"
    using t rt(1) V [OF ok] by auto
qed

lemma keeps_system_registry: "system_only m \<Longrightarrow> keeps (registry_ok root) m"
  by (rule keeps_system) simp_all

text \<open>Programs on the system only.\<close>

lemma calm_yields:
  assumes "system_only m" "lock_safe registered m" "yields Q m"
  shows "daemon.calm base D root F m (\<lambda>x _. Q x)"
  by (rule calm_keeps [OF assms(2) keeps_system_registry [OF assms(1)] confined_system [OF assms(1)]])
     (rule yieldsD [OF assms(3)])

lemma calm_system:
  assumes "system_only m" "lock_safe registered m"
  shows "daemon.calm base D root F m (\<lambda>_ _. True)"
  by (rule calm_keeps [OF assms(2) keeps_system_registry [OF assms(1)] confined_system [OF assms(1)]]) simp

lemma calm_basic [calm_intros]:
  "daemon.calm base D root F (gets g) (\<lambda>_ _. True)" "daemon.calm base D root F (sys f) (\<lambda>_ _. True)"
  "daemon.calm base D root F (sys_do h) (\<lambda>_ _. True)" "daemon.calm base D root F (pick q) (\<lambda>_ _. True)"
  "daemon.calm base D root F (sandbox_namespace r) (\<lambda>_ _. True)"
  by (rule calm_system; simp add: system_only_basic lock_safe_basic sandbox_namespace_def)+

lemma calm_pick: "daemon.calm base D root F (pick q) (\<lambda>x _. q = Inr x)"
  by (rule calm_yields) (auto simp: system_only_basic lock_safe_basic yields_def pick_def split: sum.splits)

lemma calm_dependent [calm_intros]: "daemon.calm base D root F (\<lambda>s. sys (fn (kernel s)) s) (\<lambda>_ _. True)"
proof (rule calm_system)
  show "system_only (\<lambda>s. sys (fn (kernel s)) s)"
    by (rule system_onlyI) (simp add: sys_def split: prod.split sum.split)
  show "lock_safe registered (\<lambda>s. sys (fn (kernel s)) s)"
    by (rule lock_safe_dependent) (rule lock_safe_basic)
qed

lemma calm_links [calm_intros]:
  "daemon.calm base D root F (create_dummy os name) (\<lambda>_ _. True)"
  "daemon.calm base D root F (link_exists os name) (\<lambda>_ _. True)"
  "daemon.calm base D root F (delete_link_by_name os name) (\<lambda>_ _. True)"
  "daemon.calm base D root F (hardware_address os name) (\<lambda>_ _. True)"
  "daemon.calm base D root F (set_namespace os name fd) (\<lambda>_ _. True)"
  "daemon.calm base D root F (set_up os name) (\<lambda>_ _. True)"
  "daemon.calm base D root F (bind_wrap p (set_up os name) (\<lambda>_. ret ())) (\<lambda>_ _. True)"
  "daemon.calm base D root F (attempt (veth_device_count os) (\<lambda>e. ret (Inl e)) (\<lambda>n. ret (Inr n))) (\<lambda>_ _. True)"
  "daemon.calm base D root F (add_address os name a) (\<lambda>_ _. True)"
  "daemon.calm base D root F (link_exists_satisfied env name) (\<lambda>_ _. True)"
  by (rule calm_system; simp add: system_intros lock_intros lock_stables satisfied_defs)+

lemma calm_namespaces [calm_intros]:
  "daemon.calm base D root F (open_path os path) (\<lambda>_ _. True)"
  "daemon.calm base D root F (repo_get os dir name) (\<lambda>_ _. True)"
  "daemon.calm base D root F (repo_destroy os dir ns) (\<lambda>_ _. True)"
  "daemon.calm base D root F (store_create os c) (\<lambda>_ _. True)"
  "daemon.calm base D root F (store_get os i) (\<lambda>_ _. True)"
  "daemon.calm base D root F (store_delete os i) (\<lambda>_ _. True)"
  "daemon.calm base D root F (subscribe os ns) (\<lambda>_ _. True)"
  by (rule calm_system; simp add: system_intros lock_intros lock_stables subscribe_def)+

lemma calm_repo_create:
  "opens_by_name os \<Longrightarrow> daemon.calm base D root F (repo_create os dir name) (\<lambda>f _. file_name f = path_of dir name)"
  by (rule calm_yields) (simp_all add: system_intros lock_intros lock_stables yields_repo_create)

text \<open>Steps that change the records of the daemon.\<close>

lemma calm_modify:
  fixes f :: "('k, 'z) daemon_scheme \<Rightarrow> ('k, 'z) daemon_scheme"
  assumes "\<And>s. settled s (f s)" "\<And>s. registry_ok root s \<Longrightarrow> registry_ok root (f s)" "\<And>s. ipam_state (f s) = ipam_state s"
  shows "daemon.calm base D root F (modify f) (\<lambda>_ _. True)"
  by (rule calm_keeps [OF lock_safe_modify keeps_modify confined_modify]) (simp_all add: assms)

lemma calm_update_sandbox:
  assumes "\<And>b. sb_locked (f b) = sb_locked b" "\<And>b. sb_namespace (f b) = sb_namespace b"
  shows "daemon.calm base D root F (modify (update_sandbox r f)) (\<lambda>_ _. True)"
  by (rule calm_modify) (simp_all add: settled_update assms registry_ok_update, simp add: update_sandbox_def)

lemma calm_records [calm_intros]:
  "daemon.calm base D root F (modify (update_sandbox r (\<lambda>b. b\<lparr>sb_dns := d\<rparr>))) (\<lambda>_ _. True)"
  "daemon.calm base D root F (modify (update_sandbox r (\<lambda>b. b\<lparr>sb_destroyed := True\<rparr>))) (\<lambda>_ _. True)"
  "daemon.calm base D root F (modify (\<lambda>s. s\<lparr>hw_result := a\<rparr>)) (\<lambda>_ _. True)"
  "daemon.calm base D root F (modify (\<lambda>s. s\<lparr>subscriptions := (chan, sock) # subscriptions s\<rparr>)) (\<lambda>_ _. True)"
  by ((rule calm_update_sandbox; simp) | (rule calm_modify; simp add: settled_same))+

lemma calm_unregister [calm_intros]:
  "daemon.calm base D root F (modify (\<lambda>s. s\<lparr>sandboxes := (sandboxes s)(name := None)\<rparr>)) (\<lambda>_ _. True)"
proof (rule calm_modify)
  show "registry_ok root (s\<lparr>sandboxes := (sandboxes s)(name := None)\<rparr>)" if "registry_ok root s" for s :: "('k, 'z) daemon_scheme"
    using that by (auto simp: registry_ok_def watch_ok_def refs_ok_def names_ok_def object_files_def)
qed (auto simp: settled_def registered_def intro: exI [of _ 0])

lemma register_sandbox_eval:
  "register_sandbox name ns s =
   (Ok (length (objects s)),
    s\<lparr>objects := objects s @ [\<lparr>sb_namespace = ns, sb_locked = False, sb_dns = None, sb_destroyed = False\<rparr>],
      sandboxes := (sandboxes s)(name \<mapsto> length (objects s))\<rparr>)"
  by (simp add: register_sandbox_def bind_err_eval(1) sandbox_new_def modify_def ret_def)

lemma keeps_registry:
  fixes root :: string
  defines "P \<equiv> (registry_ok root :: ('k, 'z) sandbox_world_scheme \<Rightarrow> bool)"
  shows "keeps P (stop_monitor ns)" and "keeps P (new_done_chan ns)"
    and "file_name ns = path_of root name \<Longrightarrow> keeps P (register_sandbox name ns)"
proof -
  show "keeps P (stop_monitor ns)"
  proof (rule keepsI)
    fix s :: "('k, 'z) sandbox_world_scheme"
    assume s: "P s"
    obtain r t where t: "stop_monitor ns s = (r, t)" by fastforce
    have "watch_ok t" using keepsD [OF stop_monitor_watch_ok _ t] s by (simp add: P_def registry_ok_def)
    with s stop_monitor_frame [OF t] show "P (snd (stop_monitor ns s))"
      by (simp add: P_def t registry_ok_def object_files_def)
  qed
  show "keeps P (new_done_chan ns)"
    by (rule keepsI) (auto simp: P_def new_done_chan_def registry_ok_def watch_ok_def object_files_def less_Suc_eq)
  show "keeps P (register_sandbox name ns)" if name: "file_name ns = path_of root name"
  proof (rule keepsI)
    fix s :: "('k, 'z) sandbox_world_scheme"
    let ?t = "snd (register_sandbox name ns s)"
    assume s: "P s"
    have files: "object_files ?t = object_files s @ [path_of root name]" "length (objects s) = length (object_files s)"
      using name by (simp_all add: register_sandbox_eval object_files_def)
    have "watch_ok ?t" using s by (simp add: P_def register_sandbox_eval registry_ok_def watch_ok_def)
    with s show "P ?t"
      unfolding P_def registry_ok_def files(1)
      by (auto simp: register_sandbox_eval files(2) refs_ok_register names_ok_register)
  qed
qed

lemma calm_monitors [calm_intros]:
  "daemon.calm base D root F (stop_monitor ns) (\<lambda>_ _. True)"
  "daemon.calm base D root F (new_done_chan ns) (\<lambda>_ _. True)"
  "daemon.calm base D root F (start_arp_inserter os chan ns vxlan) (\<lambda>_ _. True)"
proof -
  show "daemon.calm base D root F (stop_monitor ns) (\<lambda>_ _. True)"
    by (rule calm_keeps) (simp_all add: lock_intros confined_intros keeps_registry)
  show "daemon.calm base D root F (new_done_chan ns) (\<lambda>_ _. True)"
  proof (rule calm_keeps)
    show "lock_safe registered (new_done_chan ns)"
      by (rule lock_safeI) (simp add: new_done_chan_def settled_same)
    show "keeps (registry_ok root) (new_done_chan ns)" by (rule keeps_registry)
    show "confined (new_done_chan ns)" by (rule confinedI) (simp add: new_done_chan_def)
  qed simp
  show "daemon.calm base D root F (start_arp_inserter os chan ns vxlan) (\<lambda>_ _. True)"
  proof (rule calm_keeps)
    show "lock_safe registered (start_arp_inserter os chan ns vxlan)"
      unfolding start_arp_inserter_def find_vxlan_def
      by (intro lock_intros lock_stables lock_safe_modify) (simp add: settled_same)
    show "keeps (registry_ok root) (start_arp_inserter os chan ns vxlan)"
      unfolding start_arp_inserter_def
      by (intro keeps_bind_wrap keeps_modify keeps_system_registry system_only_watcher) simp
    show "confined (start_arp_inserter os chan ns vxlan)"
      unfolding start_arp_inserter_def
      by (intro confined_intros confined_modify) simp
  qed simp
qed

lemma calm_get_unlocked [calm_intros]:
  "daemon.calm base D root F (get_unlocked name) (\<lambda>r K. Created r \<in> K)"
proof (rule calm_keeps)
  fix r L and s t :: "('k, 'z) daemon_scheme"
  assume ok: "shared_ok base root t" and run: "get_unlocked name s = (Ok r, t)" and L: "known_facts base D t \<subseteq> L"
  then have "sandboxes t name = Some r" by (auto simp: get_unlocked_def split: option.splits)
  with ok have "r < length (objects t)"
    using registry_ok_registered [of root t] by (auto simp: shared_ok_def registered_def)
  with L show "Created r \<in> L" by auto
next
  show "lock_safe registered (get_unlocked name)"
    by (rule lock_safeI) (simp add: get_unlocked_def split: option.split)
  show "keeps (registry_ok root) (get_unlocked name)"
    by (simp add: keeps_def get_unlocked_def split: option.split)
  show "confined (get_unlocked name)"
    by (rule confinedI) (simp add: get_unlocked_def split: option.split)
qed

text \<open>A new sandbox whose namespace has the right name.\<close>

lemma calm_register:
  assumes "file_name ns = path_of root name"
  shows "daemon.calm base D root F (register_sandbox name ns) (\<lambda>r K. Created r \<in> K)"
proof (rule calm_keeps)
  show "lock_safe registered (register_sandbox name ns)"
    by (rule lock_safeI) (auto simp: register_sandbox_eval settled_def registered_def less_SucI intro: exI [of _ 1])
  show "keeps (registry_ok root) (register_sandbox name ns)" by (rule keeps_registry(3) [OF assms])
  show "confined (register_sandbox name ns)" by (rule confinedI) (simp add: register_sandbox_eval)
qed (auto simp: register_sandbox_eval)

section \<open>Tasks\<close>

lemmas orderly_basic = daemon.orderly_atomic daemon.orderly_fail daemon.orderly_err daemon.orderly_wrap daemon.orderly_attempt

lemma orderly_if:
  "(b \<Longrightarrow> daemon.orderly base D root n F t V) \<Longrightarrow> (\<not> b \<Longrightarrow> daemon.orderly base D root n F u V) \<Longrightarrow>
   daemon.orderly base D root n F (if b then t else u) V"
  by simp

lemma orderly_done: "daemon.orderly base D root n F (task_ret x) (\<lambda>_ _. True)"
  by (rule daemon.orderly_ret) simp

lemma orderly_restoring:
  assumes t: "daemon.orderly base D root n F t (\<lambda>_ _. True)" and d: "\<And>G. daemon.calm base D root G d (\<lambda>_ _. True)"
  shows "daemon.orderly base D root n F (task_restoring d t) (\<lambda>_ _. True)"
  unfolding task_restoring_def
proof (rule daemon.orderly_finally [OF t])
  fix r :: "'c outcome" and G assume r: "r \<noteq> Abort Deadlock"
  show "daemon.orderly base D root n G (task_bind (atomic d) (\<lambda>q. case q of Ok _ \<Rightarrow> Finished r
      | Err e \<Rightarrow> Finished (Abort (Panic (error_text e))) | Abort a \<Rightarrow> Finished (Abort a))) (\<lambda>_ _. True)"
    using r by (intro daemon.orderly_bind [OF daemon.orderly_atomic [OF d]])
      (auto intro!: daemon.orderly_finished split: outcome.split)
qed

lemma steady_close: "shared_ok base root s \<Longrightarrow> daemon.steady base D root s (close_file os f s)"
  by (rule steady_settled) (simp_all add: close_file_def settled_same shared_ok_def)

lemma orderly_ns_execute:
  assumes "\<And>f G. daemon.orderly base D root n G (callback f) (\<lambda>_ _. True)"
  shows "daemon.orderly base D root n F (ns_execute_task os ns callback) (\<lambda>_ _. True)"
  unfolding ns_execute_task_def
  by (rule orderly_basic daemon.orderly_deferring orderly_restoring calm_intros assms steady_close TrueI | assumption)+

lemma orderly_kill:
  "daemon.calm base D root F (case d of None \<Rightarrow> ret () | Some p \<Rightarrow> sys_do (h p)) (\<lambda>_ _. True)"
  by (cases d; rule calm_system; simp add: system_only_basic lock_safe_basic)

lemma orderly_sandbox:
  "daemon.orderly base D root n F (sandbox_setup_task os r) (\<lambda>_ _. True)"
  "daemon.orderly base D root n F (launch_dns_task os r runner) (\<lambda>_ _. True)"
  "daemon.orderly base D root n F (sandbox_veth_count_task os r) (\<lambda>_ _. True)"
  "daemon.orderly base D root n F (teardown_task os r) (\<lambda>_ _. True)"
proof -
  have exited: "daemon.orderly base D root n F (case x of None \<Rightarrow> task_ret ()
      | Some None \<Rightarrow> task_fail e | Some (Some y) \<Rightarrow> task_fail (g y)) (\<lambda>_ _. True)" for F x e g
    by (auto intro: orderly_done daemon.orderly_fail split: option.split)
  show "daemon.orderly base D root n F (sandbox_setup_task os r) (\<lambda>_ _. True)"
    unfolding sandbox_setup_task_def by (rule orderly_basic orderly_done orderly_ns_execute calm_intros)+
  show "daemon.orderly base D root n F (launch_dns_task os r runner) (\<lambda>_ _. True)"
    unfolding launch_dns_task_def by (rule orderly_basic exited calm_intros)+
  show "daemon.orderly base D root n F (sandbox_veth_count_task os r) (\<lambda>_ _. True)"
    unfolding sandbox_veth_count_task_def by (rule orderly_basic orderly_done orderly_ns_execute calm_intros)+
  show "daemon.orderly base D root n F (teardown_task os r) (\<lambda>_ _. True)"
    unfolding teardown_task_def by (rule orderly_basic orderly_if orderly_kill calm_intros)+
qed

text \<open>The repository: its mutex may be taken while a sandbox is locked.\<close>

lemma orderly_repo_locked:
  assumes "daemon.orderly base D root 2 F t V" "n \<le> 1" "\<And>x G L. V x G \<Longrightarrow> G \<subseteq> L \<Longrightarrow> V x L"
  shows "daemon.orderly base D root n F (task_locked RepoMutex t) V"
  by (rule daemon.orderly_locked) (use assms in \<open>simp_all add: numeral_2_eq_2\<close>)

lemma orderly_get:
  "n \<le> 1 \<Longrightarrow> daemon.orderly base D root n F (sandboxes_get_task name) (\<lambda>r K. Created r \<in> K)"
  unfolding sandboxes_get_task_def
  by (rule orderly_repo_locked [OF daemon.orderly_atomic [OF calm_get_unlocked]]) auto

lemma orderly_create:
  assumes "opens_by_name os" "n \<le> 1"
  shows "daemon.orderly base D root n F (sandboxes_create_task os root name) (\<lambda>r K. Created r \<in> K)"
  unfolding sandboxes_create_task_def
proof (rule orderly_repo_locked)
  show "daemon.orderly base D root 2 F
     (task_err (atomic (gets (\<lambda>s. sandboxes s name))) (\<lambda>exists.
       if exists \<noteq> None then task_fail (Sentinel AlreadyExistsError)
       else
         task_wrap ''create namespace'' (atomic (repo_create os root name)) (\<lambda>ns.
         task_err (atomic (register_sandbox name ns)) (\<lambda>r.
         task_wrap ''setup sandbox'' (sandbox_setup_task os r) (\<lambda>_. task_ret r)))))
     (\<lambda>r K. Created r \<in> K)"
    by (rule orderly_basic orderly_if calm_basic calm_repo_create [OF assms(1)] calm_register orderly_sandbox
        daemon.orderly_ret | assumption | blast)+
qed (use assms(2) in auto)

lemma orderly_destroy:
  assumes "n \<le> 1"
  shows "daemon.orderly base D root n F (sandboxes_destroy_task os dir name) (\<lambda>_ _. True)"
  unfolding sandboxes_destroy_task_def
  by (rule orderly_repo_locked [OF _ assms])
     (rule orderly_basic orderly_sandbox calm_get_unlocked calm_basic calm_namespaces calm_unregister TrueI)+

section \<open>Commands\<close>

text \<open>The mutex of a sandbox is taken by a goroutine that holds none.\<close>

lemma orderly_sandbox_locked:
  assumes "Created r \<in> F" "daemon.orderly base D root 1 F t (\<lambda>_ _. True)"
  shows "daemon.orderly base D root 0 F (task_locked (SandboxMutex r) t) (\<lambda>_ _. True)"
  by (rule daemon.orderly_locked) (use assms in simp_all)

lemma orderly_satisfied:
  "n \<le> 1 \<Longrightarrow> daemon.orderly base D root n F (satisfied_task env b) (\<lambda>_ _. True)"
  unfolding satisfied_task_def
  by (cases b; simp only: condition.case; (rule orderly_basic orderly_if orderly_done orderly_get calm_links | assumption)+)

lemma orderly_move_link:
  "n \<le> 1 \<Longrightarrow> daemon.orderly base D root n F (move_link_task os link name) (\<lambda>_ _. True)"
  unfolding move_link_task_def
  by (rule orderly_basic orderly_done orderly_get calm_basic calm_links | assumption)+

lemma orderly_start_dns:
  "daemon.orderly base D root 0 F (start_dns_server_task env addr name) (\<lambda>_ _. True)"
  unfolding start_dns_server_task_def Let_def
  by (rule orderly_basic orderly_done orderly_get orderly_sandbox_locked orderly_ns_execute orderly_sandbox calm_basic
      calm_links zero_le_one | assumption)+

lemma orderly_cleanup:
  "daemon.orderly base D root 0 F (cleanup_sandbox_task env name device) (\<lambda>_ _. True)"
  unfolding cleanup_sandbox_task_def Let_def
  by (rule orderly_basic orderly_done orderly_if orderly_get orderly_sandbox_locked orderly_ns_execute orderly_sandbox
      orderly_destroy calm_basic calm_links zero_le_one order_refl | assumption)+

lemma orderly_monitor_command:
  "daemon.orderly base D root n F (monitor_command_task env h name vxlan) (\<lambda>_ _. True)"
  unfolding monitor_command_task_def start_monitor_task_def Let_def
  by (rule orderly_basic orderly_done orderly_ns_execute calm_namespaces calm_monitors calm_records)+

lemma orderly_labelled:
  "daemon.orderly base D root n F t (\<lambda>_ _. True) \<Longrightarrow> daemon.orderly base D root n F (task_labelled p t) (\<lambda>_ _. True)"
  unfolding task_labelled_def by (rule orderly_basic orderly_done | assumption)+

lemma calm_command [calm_intros]:
  "daemon.calm base D root F (exec env (AddAddress i a)) (\<lambda>_ _. True)"
  "daemon.calm base D root F (exec env (AddRoute i d g)) (\<lambda>_ _. True)"
  "daemon.calm base D root F (exec env (CreateBridge m)) (\<lambda>_ _. True)"
  "daemon.calm base D root F (exec env (CreateDummy m)) (\<lambda>_ _. True)"
  "daemon.calm base D root F (exec env (CreateVeth m p u)) (\<lambda>_ _. True)"
  "daemon.calm base D root F (exec env (CreateVxlan m v)) (\<lambda>_ _. True)"
  "daemon.calm base D root F (exec env (DeleteLink m)) (\<lambda>_ _. True)"
  "daemon.calm base D root F (exec env (SetLinkMaster m s)) (\<lambda>_ _. True)"
  "daemon.calm base D root F (exec env (SetLinkUp m)) (\<lambda>_ _. True)"
  by (rule calm_system; simp add: execute_defs labelled_def system_intros lock_intros lock_stables)+

lemma calm_get_hardware_address [calm_intros]:
  "daemon.calm base D root F (exec env (GetHardwareAddress name)) (\<lambda>_ _. True)"
proof (rule calm_keeps)
  show "lock_safe registered (exec env (GetHardwareAddress name))"
    by (simp add: execute_defs lock_intros lock_stables lock_safe_store_hw)
  show "keeps (registry_ok root) (exec env (GetHardwareAddress name))"
    unfolding exec.simps get_hardware_address_execute_def
    by (intro keeps_bind_wrap keeps_modify keeps_system_registry system_intros) simp
  show "confined (exec env (GetHardwareAddress name))"
    by (simp add: execute_defs confined_intros)
qed simp

text \<open>A command that locks a sandbox is run by a goroutine that holds no mutex.\<close>

lemma orderly_exec:
  fixes env :: "'k env"
  assumes "opens_by_name (env_os env)" "env_root env = root"
  shows "(locks_sandbox c \<Longrightarrow> n = 0) \<Longrightarrow> n \<le> 1 \<Longrightarrow>
      daemon.orderly base D root n F (exec_task env c :: (('k, 'z) daemon_scheme, mutex, unit) task) (\<lambda>_ _. True)"
    and "(list_ex locks_sandbox cs \<Longrightarrow> n = 0) \<Longrightarrow> n \<le> 1 \<Longrightarrow>
      daemon.orderly base D root n F (exec_group_task env g i cs :: (('k, 'z) daemon_scheme, mutex, unit) task) (\<lambda>_ _. True)"
  using assms
proof (induction env c and env g i cs arbitrary: F and F rule: exec_task_exec_group_task.induct)
  case (2 env b c)
  show ?case
    unfolding exec_task.simps
    by (rule orderly_basic orderly_if orderly_done orderly_satisfied [OF 2(3)] orderly_labelled)+
       (use 2 in simp)
next
  case (3 env ns c)
  show ?case
    unfolding exec_task.simps
    by (rule orderly_labelled orderly_ns_execute)+ (use 3 in simp)
next
  case (20 env g i c cs)
  have "daemon.orderly base D root n F (exec_task env c :: (('k, 'z) daemon_scheme, mutex, unit) task) (\<lambda>_ _. True)"
    using 20 by simp
  moreover have "daemon.orderly base D root n G (exec_group_task env g (i + 1) cs :: (('k, 'z) daemon_scheme, mutex, unit) task)
      (\<lambda>_ _. True)" for G
    using 20 by simp
  ultimately show ?case
    unfolding exec_group_task.simps by (intro daemon.orderly_attempt daemon.orderly_fail)
qed (auto intro!: daemon.orderly_atomic calm_command calm_get_hardware_address orderly_done orderly_cleanup orderly_start_dns
      orderly_monitor_command orderly_move_link
      daemon.orderly_wrap [OF orderly_create] simp del: exec.simps)

section \<open>Containers\<close>

lemma orderly_hardware_address:
  "daemon.orderly base D root n F (hardware_address_task env ns interface) (\<lambda>_ _. True)"
  unfolding hardware_address_task_def
  by (rule orderly_basic orderly_done orderly_ns_execute calm_links calm_records)+

lemma orderly_setup_in_sandbox:
  assumes "opens_by_name (env_os (cr_env c))" "env_root (cr_env c) = root"
  shows "daemon.orderly base D root 1 F (setup_in_sandbox_task c config ip4 ns r) (\<lambda>_ _. True)"
  unfolding setup_in_sandbox_task_def Let_def
  by (rule orderly_basic orderly_done orderly_exec [OF assms] orderly_hardware_address calm_basic calm_records |
      (simp add: All_def no_sandbox_locks; fail))+

lemma orderly_creator_setup:
  assumes "opens_by_name (env_os (cr_env c))" "env_root (cr_env c) = root"
  shows "daemon.orderly base D root 0 F (creator_setup_task c config) (\<lambda>_ _. True)"
proof (cases "res_ip4 (cc_ipam_result config)")
  case None
  show ?thesis
    unfolding creator_setup_task_def Let_def None option.case
    by (rule orderly_basic daemon.orderly_abort calm_namespaces)+ simp
next
  case (Some ip4)
  show ?thesis
    unfolding creator_setup_task_def Let_def Some option.case
    by (rule orderly_basic orderly_exec [OF assms] orderly_get orderly_sandbox_locked orderly_setup_in_sandbox [OF assms]
        calm_namespaces zero_le_one refl | assumption)+
qed

lemma orderly_deletor_delete:
  assumes "opens_by_name (env_os env)" "env_root env = root"
  shows "daemon.orderly base D root 0 F (deletor_delete_task env i p name v) (\<lambda>_ _. True)"
  unfolding deletor_delete_task_def
  by (rule orderly_basic orderly_done orderly_exec [OF assms] calm_namespaces zero_le_one refl)+

section \<open>The allocator\<close>

text \<open>What is known of the answer of an allocation: its lease is one the allocator may give, and it stays.\<close>

definition lease_known :: "ip_config \<Rightarrow> string set \<Rightarrow> string \<Rightarrow> string \<Rightarrow> cni_result \<Rightarrow> fact set \<Rightarrow> bool" where
  "lease_known base D n c res K \<longleftrightarrow>
     (\<exists>x. leasable base x \<and> res = lease_of (set_gateway base) x \<and> (c \<notin> D \<longrightarrow> Leased n x c \<in> K))"

fun reply_known :: "ip_config \<Rightarrow> string set \<Rightarrow> ipam_call \<Rightarrow> ipam_answer \<Rightarrow> fact set \<Rightarrow> bool" where
  "reply_known base D (AllocateIP n c) (Allocated (Ok res)) K = lease_known base D n c res K"
| "reply_known base D req r K = good_answer base req r"

text \<open>A step of a request keeps the allocator sound, and the request knows where it is.\<close>

lemma ipam_act_good:
  assumes s: "shared_ok base root s" "pc_ok base (ipam_state s) req pc" "ipam_act base req pc s = (pc', t)"
    and D: "\<not> allocating req \<Longrightarrow> call_container req \<in> D"
  shows "daemon.steady base D root s t" and "Reached req pc' \<in> known_facts base D t"
    and "answer_at pc = None \<Longrightarrow> answer_at pc' = Some r \<Longrightarrow> reply_known base D req r (known_facts base D t)"
proof -
  obtain a where a: "request_step base req pc (ipam_state s) = (pc', a)" "t = s\<lparr>ipam_state := a\<rparr>"
    using s(3) by (auto simp: ipam_act_def split: prod.splits)
  have good: "alloc_inv base a" "pc_ok base a req pc'" "grows base (ipam_state s) a"
    and step: "step_holds base req pc (ipam_state s) pc' a"
    using request_step_good [OF _ s(2)] s(1) a(1) by (auto simp: shared_ok_def step_good_def)
  have leases: "holds a n x = Some c" if "c \<notin> D" "holds (ipam_state s) n x = Some c" for n x c
    using step that D s(2) by (auto simp: step_holds_def)
  show "daemon.steady base D root s t"
    by (rule steady_settled) (use s(1) good leases a(2) in \<open>auto simp: shared_ok_def intro!: settled_same\<close>)
  show "Reached req pc' \<in> known_facts base D t" using good(2) a(2) by simp
  assume r: "answer_at pc = None" "answer_at pc' = Some r"
  then have pc': "pc' = Returned r" "pc \<noteq> pc'" by (cases pc'; auto)+
  with good(2) have answer: "good_answer base req r" by simp
  show "reply_known base D req r (known_facts base D t)"
  proof (cases "\<exists>n c res. req = AllocateIP n c \<and> r = Allocated (Ok res)")
    case True
    then obtain n c res where res: "req = AllocateIP n c" "r = Allocated (Ok res)" by blast
    then obtain x where "leasable base x" "res = lease_of (set_gateway base) x" "holds a n x = Some c"
      using step pc' s(2) by (auto simp: step_holds_def)
    then show ?thesis using a(2) by (auto simp: res lease_known_def)
  next
    case False
    with answer show ?thesis by (cases "(base, D, req, r, known_facts base D t)" rule: reply_known.cases) auto
  qed
qed

lemma orderly_ipam:
  fixes k :: "ipam_answer \<Rightarrow> (('k, 'z) daemon_scheme, mutex, 'a) task"
  assumes "\<And>s :: ('k, 'z) daemon_scheme. shared_ok base root s \<Longrightarrow> F \<subseteq> known_facts base D s \<Longrightarrow> pc_ok base (ipam_state s) req pc"
    and "\<And>r. answer_at pc = Some r \<Longrightarrow> reply_known base D req r F"
    and "\<And>r G. reply_known base D req r G \<Longrightarrow> daemon.orderly base D root n G (k r) V"
    and D: "\<not> allocating req \<Longrightarrow> call_container req \<in> D"
  shows "daemon.orderly base D root n F (ipam_task base req k pc) V"
  using assms
proof (induction base req k pc arbitrary: F rule: ipam_task.induct)
  case (1 base req k pc)
  show ?case
  proof (cases "answer_at pc")
    case (Some r)
    with 1(3,4) show ?thesis by (simp add: ipam_task.simps [of base req k pc])
  next
    case None
    have "daemon.orderly base D root n F (Act (\<lambda>s. snd (ipam_act base req pc s))
        (\<lambda>s. ipam_task base req k (fst (ipam_act base req pc s)))) V"
    proof (rule daemon.orderly_act)
      fix s :: "('k, 'z) daemon_scheme"
      assume s: "shared_ok base root s" "F \<subseteq> known_facts base D s"
      obtain pc' t where t: "ipam_act base req pc s = (pc', t)" by fastforce
      note good = ipam_act_good [OF s(1) 1(2) [OF s] t 1(5)]
      show "daemon.steady base D root s (snd (ipam_act base req pc s))" using good(1) t by simp
      show "daemon.orderly base D root n (known_facts base D (snd (ipam_act base req pc s)))
          (ipam_task base req k (fst (ipam_act base req pc s))) V"
      proof (rule 1(1) [OF None])
        show "pc_ok base (ipam_state u) req (fst (ipam_act base req pc s))"
          if "known_facts base D (snd (ipam_act base req pc s)) \<subseteq> known_facts base D u" for u
          using subsetD [OF that, of "Reached req pc'"] good(2) t by simp
        show "reply_known base D req r (known_facts base D (snd (ipam_act base req pc s)))"
          if "answer_at (fst (ipam_act base req pc s)) = Some r" for r
          using that good(3) [OF _ None] t by simp
      qed (use 1(4,5) in simp_all)
    qed
    with None show ?thesis by (simp add: ipam_task.simps [of base req k pc])
  qed
qed

lemma orderly_allocate:
  "daemon.orderly base D root n F (allocate_task base net c) (\<lambda>res K. lease_known base D net c res K)"
  unfolding allocate_task_def
proof (rule orderly_ipam)
  fix r G
  assume good: "reply_known base D (AllocateIP net c) r G"
  then obtain q where q: "r = Allocated q" "q \<noteq> Abort Deadlock"
    by (cases "(base, D, AllocateIP net c, r, G)" rule: reply_known.cases; cases r) (auto elim: good_answer.elims)
  have "lease_known base D net c res L" if "q = Ok res" "G \<subseteq> L" for res L
    using good q that unfolding lease_known_def by (auto simp: lease_known_def)
  with q show "daemon.orderly base D root n G (case r of Allocated r \<Rightarrow> Finished r
      | Released r \<Rightarrow> Finished (Abort nil_dereference)) (\<lambda>res K. lease_known base D net c res K)"
    by (simp add: daemon.orderly_finished)
qed simp_all

lemma orderly_release:
  assumes "c \<in> D"
  shows "daemon.orderly base D root n F (release_task base net c) (\<lambda>_ _. True)"
  unfolding release_task_def
proof (rule orderly_ipam)
  fix r G
  assume "reply_known base D (ReleaseIP net c) r G"
  then have "r = Released (Ok ())" by (cases "(base, ReleaseIP net c, r)" rule: good_answer.cases) auto
  then show "daemon.orderly base D root n G (case r of Released r \<Rightarrow> Finished r | Allocated r \<Rightarrow> Finished (Abort nil_dereference))
      (\<lambda>_ _. True)"
    by (simp add: daemon.orderly_finished)
qed (simp_all add: assms)

end
