(* ===== verification/Request_Props.thy ===== *)
theory Request_Props
  imports Request_Alone Request_Runs
begin

text \<open>
  What the daemon promises when any number of Add and Del requests are served at the same time: nothing breaks,
  containers get addresses of their own, and every request is answered.
\<close>

section \<open>Requests in order\<close>

text \<open>What is known of the answer to a request.\<close>

fun request_answered ::
  "ip_config \<Rightarrow> string set \<Rightarrow> 'k wiring \<times> cni_request \<Rightarrow> cni_result option \<Rightarrow> fact set \<Rightarrow> bool" where
  "request_answered base D (S, AddRequest p) q K =
     (\<exists>n res. get_network_id (su_default_network S) (ap_network p) = Inr n \<and> q = Some res \<and>
        lease_known base D n (ap_container_id p) res K)"
| "request_answered base D (S, DelRequest d) q K = (q = None)"

fun deleted_by :: "'k wiring \<times> cni_request \<Rightarrow> string set" where
  "deleted_by (S, AddRequest p) = {}"
| "deleted_by (S, DelRequest d) = {dp_container_id d}"

text \<open>All requests are served by one daemon, but each may see the system in a way of its own.\<close>

definition serves :: "ip_config \<Rightarrow> string \<Rightarrow> 'k wiring \<Rightarrow> bool" where
  "serves base root S \<longleftrightarrow> opens_by_name (su_os S) \<and> su_base S = base \<and> wiring_root S = root"

lemma lease_known_mono: "lease_known base D n c res K \<Longrightarrow> K \<subseteq> L \<Longrightarrow> lease_known base D n c res L"
  by (auto simp: lease_known_def)

lemma orderly_add:
  assumes "serves base root S"
  shows "daemon.orderly base D root 0 F (cni_add_task S p) (\<lambda>res K. request_answered base D (S, AddRequest p) (Some res) K)"
proof -
  have S: "opens_by_name (env_os (cr_env (su_creator S)))" "env_root (cr_env (su_creator S)) = root" "su_base S = base"
    using assms by (simp_all add: serves_def su_os_def wiring_root_def)
  show ?thesis
    unfolding cni_add_task_def S(3)
    by (rule orderly_basic orderly_allocate orderly_creator_setup [OF S(1,2)] daemon.orderly_ret calm_pick calm_namespaces)+
       (auto elim!: lease_known_mono)
qed

lemma orderly_del:
  assumes "serves base root S" "dp_container_id d \<in> D"
  shows "daemon.orderly base D root 0 F (cni_del_task S d) (\<lambda>_ _. True)"
proof -
  have S: "opens_by_name (env_os (cr_env (su_creator S)))" "env_root (cr_env (su_creator S)) = root" "su_base S = base"
    using assms by (simp_all add: serves_def su_os_def wiring_root_def)
  show ?thesis
    unfolding cni_del_task_def S(3)
    by (rule orderly_basic orderly_done orderly_release [OF assms(2)] orderly_deletor_delete [OF S(1,2)] calm_pick calm_namespaces)+
qed

lemma orderly_request:
  assumes "serves base root S" "deleted_by (S, req) \<subseteq> D"
  shows "daemon.orderly base D root 0 F (request_task S req) (\<lambda>q K. request_answered base D (S, req) q K)"
proof (cases req)
  case (AddRequest p)
  show ?thesis
    unfolding AddRequest request_task.simps
    by (rule orderly_basic orderly_add [OF assms(1)] daemon.orderly_ret)+ (auto elim!: lease_known_mono)
next
  case (DelRequest d)
  have d: "dp_container_id d \<in> D" using assms(2) by (simp add: DelRequest)
  show ?thesis
    unfolding DelRequest request_task.simps
    by (rule orderly_basic orderly_del [OF assms(1) d] daemon.orderly_ret)+ simp
qed

section \<open>Serving requests\<close>

text \<open>The goroutines of the requests, run by a schedule.\<close>

definition start_requests ::
  "('k wiring \<times> cni_request) list \<Rightarrow> ('k, 'z) daemon_scheme \<Rightarrow>
   (('k, 'z) daemon_scheme, mutex, cni_result option) goroutine list \<times> ('k, 'z) daemon_scheme" where
  "start_requests reqs s = start_pool (map (\<lambda>(S, req). request_task S req) reqs) s"

definition serve_requests ::
  "('k wiring \<times> cni_request) list \<Rightarrow> nat list \<Rightarrow> ('k, 'z) daemon_scheme \<Rightarrow>
   (('k, 'z) daemon_scheme, mutex, cni_result option) goroutine list \<times> ('k, 'z) daemon_scheme" where
  "serve_requests reqs sched s = run_pool daemon_mutexes sched (start_requests reqs s)"

text \<open>Between requests: the registry and the allocator are sound, and no mutex is held.\<close>

definition daemon_quiet :: "ip_config \<Rightarrow> string \<Rightarrow> ('k, 'z) daemon_scheme \<Rightarrow> bool" where
  "daemon_quiet base root s \<longleftrightarrow> shared_ok base root s \<and> all_free s"

lemma daemon_ok_quiet: "daemon_ok base root s \<Longrightarrow> daemon_quiet base root s"
  using reached_alloc_inv
  by (auto simp: daemon_ok_def daemon_quiet_def shared_ok_def sandboxes_ok_registry ipam_reached_def)

definition deleted :: "('k wiring \<times> cni_request) list \<Rightarrow> string set" where
  "deleted reqs = \<Union> (deleted_by ` set reqs)"

definition request_post ::
  "ip_config \<Rightarrow> ('k wiring \<times> cni_request) list \<Rightarrow> nat \<Rightarrow> cni_result option outcome \<Rightarrow> fact set \<Rightarrow> bool" where
  "request_post base reqs i r K \<longleftrightarrow> (\<forall>q. r = Ok q \<longrightarrow> request_answered base (deleted reqs) (reqs ! i) q K)"

lemma free_locks: "all_free s \<Longrightarrow> mutex_facts l \<subseteq> known_facts base D s \<Longrightarrow> \<not> mx_locked daemon_mutexes l s"
  using nth_mem [of _ "objects s"]
  by (cases l) (auto simp: daemon_mutexes_def all_free_def repo_free_def the_sandbox_def)

lemma requests_pool_ok:
  assumes "daemon_quiet base root s" "\<forall>(S, req) \<in> set reqs. serves base root S" "serve_requests reqs sched s = (gs, t)"
  shows "daemon.pool_ok base (deleted reqs) root (request_post base reqs) gs t"
proof -
  have "daemon.pool_ok base (deleted reqs) root (request_post base reqs) (fst (start_requests reqs s)) s"
    unfolding start_requests_def
  proof (rule daemon.pool_ok_start)
    show "shared_ok base root s" using assms(1) by (simp add: daemon_quiet_def)
    show "\<not> mx_locked daemon_mutexes l s" if "mutex_facts l \<subseteq> known_facts base (deleted reqs) s" for l
      using free_locks that assms(1) by (auto simp: daemon_quiet_def)
    fix i assume i: "i < length (map (\<lambda>(S, req). request_task S req) reqs)"
    obtain S req where req: "reqs ! i = (S, req)" by fastforce
    with i have mem: "(S, req) \<in> set reqs" by (metis length_map nth_mem)
    then have "serves base root S" using assms(2) by auto
    moreover have "deleted_by (S, req) \<subseteq> deleted reqs" using mem by (auto simp: deleted_def)
    ultimately have "daemon.orderly base (deleted reqs) root 0 {} (request_task S req)
        (\<lambda>q K. request_answered base (deleted reqs) (S, req) q K)"
      by (rule orderly_request)
    from daemon.orderly_concludes [OF this empty_subsetI]
    show "daemon.proper base (deleted reqs) root (map (\<lambda>(S, req). request_task S req) reqs ! i) {}
        (known_facts base (deleted reqs) s) (daemon.concludes (request_post base reqs i))"
      using i req by (simp add: request_post_def [abs_def])
  qed
  then show ?thesis
    using daemon.pool_ok_run [of base "deleted reqs" root "request_post base reqs" "start_requests reqs s" sched] assms(3)
    by (simp add: serve_requests_def start_requests_def start_pool_def)
qed

lemma serve_requests_length: "serve_requests reqs sched s = (gs, t) \<Longrightarrow> length gs = length reqs"
proof (induction sched arbitrary: gs t rule: rev_induct)
  case Nil
  then show ?case by (auto simp: serve_requests_def start_requests_def start_pool_def run_pool_def)
next
  case (snoc i sched)
  obtain gs' t' where "serve_requests reqs sched s = (gs', t')" by fastforce
  with snoc show ?case
    using pool_turn_length by (fastforce simp: serve_requests_def run_pool_def)
qed

section \<open>Nothing breaks\<close>

text \<open>
  C2: Whatever Add and Del requests are served at the same time, however their steps
  interleave and however the system answers: between any two steps the registry of sandboxes and the allocator are sound; a
  mutex is locked exactly if one of the requests holds it, and no two hold the same; a request that has ended
  holds none, and none has ended blocked.
\<close>

theorem concurrent_requests_are_safe:
  assumes "daemon_quiet base root s" "\<forall>(S, req) \<in> set reqs. serves base root S" "serve_requests reqs sched s = (gs, t)"
  shows "registry_ok root t \<and> alloc_inv base (ipam_state t) \<and>
    repo_locked t = (\<exists>i < length gs. RepoMutex \<in> set (snd (gs ! i))) \<and>
    (\<forall>r < length (objects t). sb_locked (the_sandbox r t) = (\<exists>i < length gs. SandboxMutex r \<in> set (snd (gs ! i)))) \<and>
    (\<forall>i < length gs. \<forall>j < length gs. i \<noteq> j \<longrightarrow> set (snd (gs ! i)) \<inter> set (snd (gs ! j)) = {}) \<and>
    (\<forall>i < length gs. \<forall>r h. gs ! i = (Finished r, h) \<longrightarrow> h = [] \<and> r \<noteq> Abort Deadlock)"
proof -
  note ok = requests_pool_ok [OF assms]
  have "shared_ok base root t" by (rule daemon.pool_okD(1) [OF ok])
  moreover have "repo_locked t = (\<exists>i < length gs. RepoMutex \<in> set (snd (gs ! i)))"
    using daemon.pool_okD(6) [OF ok, of RepoMutex] by (simp add: daemon_mutexes_def)
  moreover have "sb_locked (the_sandbox r t) = (\<exists>i < length gs. SandboxMutex r \<in> set (snd (gs ! i)))"
    if "r < length (objects t)" for r
    using daemon.pool_okD(6) [OF ok, of "SandboxMutex r"] that by (simp add: daemon_mutexes_def)
  moreover have "set (snd (gs ! i)) \<inter> set (snd (gs ! j)) = {}" if "i < length gs" "j < length gs" "i \<noteq> j" for i j
    using daemon.pool_okD(5) [OF ok that(1,2)] that(3) by blast
  moreover have "h = [] \<and> r \<noteq> Abort Deadlock" if "i < length gs" "gs ! i = (Finished r, h)" for i r h
    using daemon.pool_ok_finished [OF ok that(1)] that(2) by simp
  ultimately show ?thesis by (simp add: shared_ok_def)
qed

section \<open>Addresses\<close>

text \<open>
  C4: Two Add requests for different containers of one network, served at the same time as any others, none of
  which deletes the two containers: once both have succeeded, their containers have different addresses of the
  subnet, neither of them the gateway's, and the allocator holds each for its container.
\<close>

theorem concurrent_adds_lease_apart:
  assumes "daemon_quiet base root s" "\<forall>(S, req) \<in> set reqs. serves base root S" "serve_requests reqs sched s = (gs, t)"
    and i: "i < length reqs" "reqs ! i = (S, AddRequest p)" "fst (gs ! i) = Finished (Ok (Some res))"
    and j: "j < length reqs" "reqs ! j = (S', AddRequest q)" "fst (gs ! j) = Finished (Ok (Some res'))"
    and network: "get_network_id (su_default_network S) (ap_network p) = Inr n"
      "get_network_id (su_default_network S') (ap_network q) = Inr n"
    and containers: "ap_container_id p \<noteq> ap_container_id q" "ap_container_id p \<notin> deleted reqs" "ap_container_id q \<notin> deleted reqs"
  shows "\<exists>x y. x \<noteq> y \<and> leasable base x \<and> leasable base y \<and>
    res = lease_of (set_gateway base) x \<and> res' = lease_of (set_gateway base) y \<and>
    holds (ipam_state t) n x = Some (ap_container_id p) \<and> holds (ipam_state t) n y = Some (ap_container_id q)"
proof -
  note ok = requests_pool_ok [OF assms(1-3)] and len = serve_requests_length [OF assms(3)]
  have "request_post base reqs i (Ok (Some res)) (known_facts base (deleted reqs) t)"
    using daemon.pool_ok_finished [OF ok, of i] i(1,3) len by (cases "gs ! i") auto
  moreover have "request_post base reqs j (Ok (Some res')) (known_facts base (deleted reqs) t)"
    using daemon.pool_ok_finished [OF ok, of j] j(1,3) len by (cases "gs ! j") auto
  ultimately obtain x y where
    "leasable base x" "res = lease_of (set_gateway base) x" "holds (ipam_state t) n x = Some (ap_container_id p)"
    "leasable base y" "res' = lease_of (set_gateway base) y" "holds (ipam_state t) n y = Some (ap_container_id q)"
    using i(2) j(2) network containers by (auto simp: request_post_def lease_known_def)
  with containers(1) show ?thesis by (intro exI [of _ x] exI [of _ y]) auto
qed

section \<open>Every request is answered\<close>

text \<open>
  C1: Every fair schedule brings all requests to their end: none stays blocked on a mutex of
  another, whatever the requests are, and when all are answered every mutex is free and the daemon is ready for
  more.
\<close>

theorem every_request_is_answered:
  assumes quiet: "daemon_quiet base root s" and S: "\<forall>(S, req) \<in> set reqs. serves base root S"
    and fair: "fair (length reqs) sched"
  shows "\<exists>n gs t. serve_requests reqs (map sched [0..<n]) s = (gs, t) \<and> length gs = length reqs \<and>
    (\<forall>g \<in> set gs. \<exists>r. g = (Finished r, []) \<and> r \<noteq> Abort Deadlock) \<and> daemon_quiet base root t"
proof -
  let ?p = "start_requests reqs s"
  have start: "serve_requests reqs [] s = (fst ?p, snd ?p)" by (simp add: serve_requests_def run_pool_def)
  from daemon.fair_pool_finishes [OF requests_pool_ok [OF quiet S start], of sched]
  obtain n where n: "\<forall>g \<in> set (fst (serve_requests reqs (map sched [0..<n]) s)). finished g"
    using fair serve_requests_length [OF start] by (auto simp: serve_requests_def)
  obtain gs t where t: "serve_requests reqs (map sched [0..<n]) s = (gs, t)" by fastforce
  note ok = requests_pool_ok [OF quiet S t] and len = serve_requests_length [OF t]
  have all: "\<forall>g \<in> set gs. finished g" using n t by simp
  have gs: "\<exists>r. g = (Finished r, []) \<and> r \<noteq> Abort Deadlock" if "g \<in> set gs" for g
    using that daemon.finished_pool(2) [OF ok all] by (metis in_set_conv_nth)
  have free: "\<not> mx_locked daemon_mutexes l t" if "mutex_facts l \<subseteq> known_facts base (deleted reqs) t" for l
    by (rule daemon.finished_pool(1) [OF ok all that])
  have "shared_ok base root t" by (rule daemon.pool_okD(1) [OF ok])
  moreover from this have "registered t" using registry_ok_registered by (auto simp: shared_ok_def)
  moreover have "\<not> repo_locked t" using free [of RepoMutex] by (simp add: daemon_mutexes_def)
  moreover have "\<not> sb_locked (objects t ! r)" if "r < length (objects t)" for r
    using free [of "SandboxMutex r"] that by (simp add: daemon_mutexes_def the_sandbox_def)
  ultimately have "daemon_quiet base root t"
    by (auto simp: daemon_quiet_def all_free_def repo_free_def in_set_conv_nth)
  with t len gs show ?thesis by blast
qed

section \<open>Concrete runs\<close>

text \<open>Goroutines that a schedule runs one after the other do what they do alone.\<close>

lemma run_pool_alone:
  assumes "i < length gs" "gs ! i = (x, h)" "run_alone M x s = (r, t)" "r \<noteq> Abort Deadlock"
  shows "\<exists>n h'. run_pool M (replicate n i) (gs, s) = (gs[i := (Finished r, h')], t)"
  using assms(1-3)
proof (induction x arbitrary: gs h s)
  case (Finished q)
  then have "gs[i := (Finished r, h)] = gs" "t = s" by (simp_all add: list_update_same_conv)
  then have "run_pool M (replicate 0 i) (gs, s) = (gs[i := (Finished r, h)], t)" by (simp add: run_pool_def)
  then show ?case by blast
next
  case (Act f k)
  obtain n h' where "run_pool M (replicate n i) (gs[i := (k s, h)], f s) = (gs[i := (Finished r, h')], t)"
    using Act.IH [of "k s" "gs[i := (k s, h)]" h "f s"] Act.prems by auto
  then have "run_pool M (replicate (Suc n) i) (gs, s) = (gs[i := (Finished r, h')], t)"
    using Act.prems by (simp add: run_pool_def pool_turn_def)
  then show ?case by blast
next
  case (Acquire l k)
  have free: "\<not> mx_locked M l s" using Acquire.prems(3) assms(4) by (auto simp: deadlock_def split: if_splits)
  obtain n h' where "run_pool M (replicate n i) (gs[i := (k, l # h)], mx_lock M l s) = (gs[i := (Finished r, h')], t)"
    using Acquire.IH [of "gs[i := (k, l # h)]" "l # h" "mx_lock M l s"] Acquire.prems free by auto
  then have "run_pool M (replicate (Suc n) i) (gs, s) = (gs[i := (Finished r, h')], t)"
    using Acquire.prems free by (simp add: run_pool_def pool_turn_def)
  then show ?case by blast
next
  case (Release l k)
  obtain n h' where "run_pool M (replicate n i) (gs[i := (k, remove1 l h)], mx_unlock M l s) = (gs[i := (Finished r, h')], t)"
    using Release.IH [of "gs[i := (k, remove1 l h)]" "remove1 l h" "mx_unlock M l s"] Release.prems by auto
  then have "run_pool M (replicate (Suc n) i) (gs, s) = (gs[i := (Finished r, h')], t)"
    using Release.prems by (simp add: run_pool_def pool_turn_def)
  then show ?case by blast
qed

lemma sim_wiring_serves: "serves lan ''/sb'' sim_wiring"
  using sim_opens_by_name
  by (simp add: serves_def su_os_def sim_wiring_def sim_env_def wiring_root_def)

lemma daemon_init_quiet: "daemon_quiet base root (daemon_init k)"
  by (rule daemon_ok_quiet) (simp add: daemon_ok_def sandboxes_ok_init all_free_daemon_init, simp add: daemon_init_def ipam_reached_new)

lemma concurrent_requests_are_safe_witness:
  "case serve_requests [(sim_wiring, AddRequest demo_add), (sim_wiring, DelRequest demo_del)] [0, 0, 1, 0, 1, 1, 0, 0, 1]
       (daemon_init demo_kernel) of
     (gs, t) \<Rightarrow> registry_ok ''/sb'' t \<and> alloc_inv lan (ipam_state t)"
  using concurrent_requests_are_safe [OF daemon_init_quiet, where reqs = "[(sim_wiring, AddRequest demo_add), (sim_wiring, DelRequest demo_del)]",
      OF _ prod.collapse [symmetric], of lan "''/sb''"] sim_wiring_serves
  by (simp add: case_prod_beta)

lemma every_request_is_answered_witness:
  "\<exists>n gs t. serve_requests [(sim_wiring, AddRequest demo_add), (sim_wiring, DelRequest demo_del)]
       (map (\<lambda>j. j mod 2) [0..<n]) (daemon_init demo_kernel) = (gs, t) \<and> length gs = 2 \<and> daemon_quiet lan ''/sb'' t"
proof -
  have "\<exists>j \<ge> k. j mod 2 = i" if "i < 2" for i k :: nat
    using that by (intro exI [of _ "2 * k + i"]) simp
  then have "fair 2 (\<lambda>j. j mod 2)" by (simp add: fair_def)
  with every_request_is_answered [OF daemon_init_quiet, where reqs = "[(sim_wiring, AddRequest demo_add), (sim_wiring, DelRequest demo_del)]"
      and sched = "\<lambda>j. j mod 2", of lan "''/sb''" demo_kernel] sim_wiring_serves
  show ?thesis by (simp add: numeral_2_eq_2) blast
qed

text \<open>Two containers that are added one after the other.\<close>

definition second_result :: cni_result where
  "second_result = \<lparr>res_ip4 = Some \<lparr>cfg_ip = \<lparr>net_ip = [192, 168, 1, 3], net_mask = [255, 255, 255, 248]\<rparr>,
     cfg_gateway = [192, 168, 1, 1], cfg_routes = []\<rparr>\<rparr>"

definition demo_setup ::
  "cni_add_payload \<Rightarrow> cni_result \<Rightarrow> memory_store allocator \<Rightarrow> sim daemon \<Rightarrow> cni_result outcome \<times> sim daemon" where
  "demo_setup p res a t =
     bind_wrap ''container setup'' (creator_setup (su_creator sim_wiring) (creator_config_of p ''default'' 14026101 res))
       (\<lambda>c. bind_wrap ''datastore create'' (store_create (su_os sim_wiring) c) (\<lambda>_. ret res))
     (t\<lparr>ipam_state := a\<rparr>)"

lemmas demo_setup_unfold = demo_setup_def creator_setup_def setup_in_sandbox_def demo_links

lemma demo_setup_ipam: "ipam_state (snd (demo_setup p res a t)) = a"
  unfolding demo_setup_def setup_keeps_ipam by simp

lemma demo_setups:
  "case demo_setup demo_add demo_result a (daemon_init two_containers) of (r, t) \<Rightarrow>
     r = Ok demo_result \<and> fst (demo_setup demo_second second_result b t) = Ok second_result"
  by (unfold demo_setup_unfold) code_simp

lemma second_allocates:
  "fst (ducati_allocate lan ''default'' ''c2'' (snd (ducati_allocate lan ''default'' ''c1'' new_allocator))) = Ok second_result"
  by code_simp

lemma demo_setup_eq:
  assumes "ducati_allocate lan ''default'' (ap_container_id p) (ipam_state t) = (Ok res, a)" "ap_network p = ap_network demo_add"
  shows "cni_add sim_wiring p t = demo_setup p res a t"
proof -
  have "network_of sim_wiring p = network_of sim_wiring demo_add" by (simp add: network_of_def assms(2))
  then have "network_of sim_wiring p = ''default''" by (simp only: demo_network)
  moreover have "su_base sim_wiring = lan" by (simp add: sim_wiring_def)
  ultimately show ?thesis unfolding cni_add_eval demo_setup_def using assms(1) by (simp add: vni_of_default)
qed

lemma demo_two_adds:
  obtains t u where "cni_add sim_wiring demo_add (daemon_init two_containers) = (Ok demo_result, t)"
    "cni_add sim_wiring demo_second t = (Ok second_result, u)"
proof -
  let ?a = "snd (ducati_allocate lan ''default'' ''c1'' new_allocator)"
  let ?b = "snd (ducati_allocate lan ''default'' ''c2'' ?a)"
  have a: "ducati_allocate lan ''default'' (ap_container_id demo_add) (ipam_state (daemon_init two_containers)) = (Ok demo_result, ?a)"
    using demo_allocates by (simp add: daemon_init_def demo_add_def prod_eq_iff)
  obtain t where t: "demo_setup demo_add demo_result ?a (daemon_init two_containers) = (Ok demo_result, t)"
    "fst (demo_setup demo_second second_result ?b t) = Ok second_result"
    using demo_setups [where a = ?a and b = ?b] by (auto split: prod.splits)
  have t_ipam: "ipam_state t = ?a"
    using demo_setup_ipam [of demo_add demo_result ?a "daemon_init two_containers"] by (simp add: t(1))
  have b: "ducati_allocate lan ''default'' (ap_container_id demo_second) (ipam_state t) = (Ok second_result, ?b)"
    using second_allocates by (simp add: demo_second_def t_ipam prod_eq_iff)
  have "cni_add sim_wiring demo_add (daemon_init two_containers) = (Ok demo_result, t)"
    using demo_setup_eq [OF a refl] t(1) by simp
  moreover have "cni_add sim_wiring demo_second t = (Ok second_result, snd (demo_setup demo_second second_result ?b t))"
    using demo_setup_eq [OF b] t(2) by (simp add: demo_second_def prod_eq_iff)
  ultimately show ?thesis by (rule that)
qed

text \<open>A schedule that serves the two requests to their end.\<close>

lemma two_adds_scheduled:
  "\<exists>sched. case serve_requests [(sim_wiring, AddRequest demo_add), (sim_wiring, AddRequest demo_second)] sched
       (daemon_init two_containers) of
     (gs, u) \<Rightarrow> fst (gs ! 0) = Finished (Ok (Some demo_result)) \<and> fst (gs ! 1) = Finished (Ok (Some second_result))"
proof -
  let ?s = "daemon_init two_containers"
  obtain t u where t: "cni_add sim_wiring demo_add ?s = (Ok demo_result, t)" and u: "cni_add sim_wiring demo_second t = (Ok second_result, u)"
    by (rule demo_two_adds)
  let ?x = "request_task sim_wiring (AddRequest demo_add)" and ?y = "request_task sim_wiring (AddRequest demo_second)"
  have x: "run_alone daemon_mutexes ?x ?s = (Ok (Some demo_result), t)"
    using requests_run_alone(1) [of sim_wiring demo_add ?s] t by simp
  have y: "run_alone daemon_mutexes ?y t = (Ok (Some second_result), u)"
    using requests_run_alone(1) [of sim_wiring demo_second t] u by simp
  obtain m h where m: "run_pool daemon_mutexes (replicate m 0) ([(?x, []), (?y, [])], ?s) =
      ([(Finished (Ok (Some demo_result)), h), (?y, [])], t)"
    using run_pool_alone [of 0 "[(?x, []), (?y, [])]", OF _ _ x] by auto
  obtain n h' where n: "run_pool daemon_mutexes (replicate n 1) ([(Finished (Ok (Some demo_result)), h), (?y, [])], t) =
      ([(Finished (Ok (Some demo_result)), h), (Finished (Ok (Some second_result)), h')], u)"
    using run_pool_alone [of 1 "[(Finished (Ok (Some demo_result)), h), (?y, [])]", OF _ _ y] by auto
  have "serve_requests [(sim_wiring, AddRequest demo_add), (sim_wiring, AddRequest demo_second)] (replicate m 0 @ replicate n 1) ?s =
      ([(Finished (Ok (Some demo_result)), h), (Finished (Ok (Some second_result)), h')], u)"
    using m n by (simp add: serve_requests_def start_requests_def start_pool_def run_pool_def del: request_task.simps)
  then show ?thesis by (intro exI [of _ "replicate m 0 @ replicate n 1"]) simp
qed

lemma concurrent_adds_lease_apart_witness:
  "\<exists>sched x y t. t = snd (serve_requests [(sim_wiring, AddRequest demo_add), (sim_wiring, AddRequest demo_second)] sched
       (daemon_init two_containers)) \<and> x \<noteq> y \<and>
     holds (ipam_state t) ''default'' x = Some ''c1'' \<and> holds (ipam_state t) ''default'' y = Some ''c2''"
proof -
  let ?reqs = "[(sim_wiring, AddRequest demo_add), (sim_wiring, AddRequest demo_second)]"
  obtain sched where sched: "case serve_requests ?reqs sched (daemon_init two_containers) of
      (gs, u) \<Rightarrow> fst (gs ! 0) = Finished (Ok (Some demo_result)) \<and> fst (gs ! 1) = Finished (Ok (Some second_result))"
    by (rule exE [OF two_adds_scheduled])
  obtain gs t where gs: "serve_requests ?reqs sched (daemon_init two_containers) = (gs, t)" by fastforce
  have run: "serve_requests ?reqs sched (daemon_init two_containers) = (gs, t)"
    "fst (gs ! 0) = Finished (Ok (Some demo_result))" "fst (gs ! 1) = Finished (Ok (Some second_result))"
    using sched unfolding gs by simp_all
  have served: "\<forall>(S, req) \<in> set ?reqs. serves lan ''/sb'' S" using sim_wiring_serves by simp
  have ids: "ap_container_id demo_add = ''c1''" "ap_container_id demo_second = ''c2''"
    by (simp_all add: demo_add_def demo_second_def)
  have network: "get_network_id (su_default_network sim_wiring) (ap_network demo_add) = Inr ''default''"
    "get_network_id (su_default_network sim_wiring) (ap_network demo_second) = Inr ''default''"
    by code_simp+
  have "\<exists>x y. x \<noteq> y \<and> leasable lan x \<and> leasable lan y \<and>
      demo_result = lease_of (set_gateway lan) x \<and> second_result = lease_of (set_gateway lan) y \<and>
      holds (ipam_state t) ''default'' x = Some (ap_container_id demo_add) \<and>
      holds (ipam_state t) ''default'' y = Some (ap_container_id demo_second)"
    by (rule concurrent_adds_lease_apart [OF daemon_init_quiet served run(1) _ _ run(2) _ _ run(3) network])
       (simp_all add: ids deleted_def)
  with run(1) show ?thesis unfolding ids by (metis snd_conv)
qed

end
