(* ===== verification/Spec2Isabelle.thy ===== *)
theory Spec2Isabelle
  imports Pipeline Namespace_Props Threads Startup_Props Client_Props Resolution Ipam_Double Stuck_Sandboxes Setup_Race Request_Props
begin

text \<open>
  \<^bold>\<open>The Ducati daemon, verified.\<close>

  \<^bold>\<open>The program.\<close>  The daemon gives containers of Cloud Foundry an overlay network.  A CNI plug-in
  asks it over HTTP to add or delete a container.  To add one, the daemon maps the container's
  space to a network and the network to a VXLAN id, leases an address of its subnet, builds, as
  a tree of commands, a \<^emph>\<open>sandbox\<close> (a network namespace with a VXLAN device, a bridge, a DNS server and
  a monitor) unless the network has one, connects the container to it, and records the container in a database
  that all hosts share.  When a container talks to an address of another host, the kernel reports a
  neighbour miss in the sandbox; the monitor looks the address up in the database and tells the
  kernel the hardware address and the host.

  \<^bold>\<open>The parts and the theories.\<close>  Each theory opens with what it holds; the definitions carry the
  names of the code, in snake case, and stand in the order of the code.

  \<^item> \<open>Go_Prelude\<close>, \<open>Go_Strings\<close>, \<open>Go_Net\<close>: errors as values, programs as functions from a state to an
    outcome (a value, an error, a panic or a call that never returns) and a state; the functions of
    Go's library that the code's results depend on (\<open>path.Join\<close>, \<open>net.ParseIP\<close>, \<open>IPNet.Contains\<close>,
    \<open>net.ParseMAC\<close>, printing), with the round trips that the components rest on.
  \<^item> \<open>Ipam\<close>, \<open>Ipam_Store\<close>, \<open>Ipam_Refine\<close>, \<open>Ipam_Runs\<close>, \<open>Ipam_Props\<close>: package \<open>ipam\<close>.  The interface
    \<open>AllocatorStore\<close> is the locale \<open>reservations\<close>, which the memory store satisfies; the allocator
    is proved against the locale and refines a table of leases.
  \<^item> \<open>Ipam_Concurrent\<close>, \<open>Ipam_Linear\<close>, \<open>Ipam_Double\<close>: the same operations cut into the steps that are
    atomic in the code, any number of requests interleaved; and the schedule that leases twice to one container.
  \<^item> \<open>Network\<close>, \<open>Network_Props\<close>: packages \<open>network\<close> and the device names of \<open>container/creator.go\<close>,
    down to SHA-1 and base 32.
  \<^item> \<open>Kernel\<close>, \<open>Netlink\<close>, \<open>Links\<close>, \<open>Namespace\<close>, \<open>Namespace_Props\<close>: the operating system as a record of
    functions over a state of any type, and \<open>lib/nl\<close>, \<open>lib/links\<close>, \<open>lib/ip\<close>, \<open>lib/namespace\<close> over it.
  \<^item> \<open>Threads\<close>: \<open>ossupport\<close>, and \<open>Netns.Execute\<close> cut into its steps, with any number of goroutines on any number of
    threads that the Go runtime schedules.
  \<^item> \<open>Simulation\<close>: a small executable system, for the concrete runs only.
  \<^item> \<open>Datastore\<close>: package \<open>store\<close>.  The database is the locale \<open>sql_table\<close>, which gives the contract
    \<open>container_store\<close> of a map.
  \<^item> \<open>Watcher\<close>, \<open>Watcher_Props\<close>, \<open>Pipeline\<close>: packages \<open>watcher\<close>, \<open>lib/subscriber\<close> and \<open>lib/neigh\<close>: the
    map of done channels, and the goroutines of one monitor as a step relation.
  \<^item> \<open>Sandboxes\<close>, \<open>Locks\<close>: packages \<open>sandbox\<close> and \<open>reloader\<close>; the sandboxes are objects in a heap, and
    a mutex is a flag: taking one that is held is a call that never returns.
  \<^item> \<open>Commands\<close>, \<open>Commands_Props\<close>, \<open>Container\<close>, \<open>Sandbox_Inv\<close>, \<open>Setup_Race\<close>: packages \<open>executor\<close>,
    \<open>executor/commands\<close>, \<open>executor/conditions\<close> and \<open>container\<close>: the command language with its
    interpreter and its rendering, and the commands that set up and tear down a container.
  \<^item> \<open>Cni\<close>, \<open>Cni_Props\<close>, \<open>Handlers\<close>, \<open>Handlers_Props\<close>: packages \<open>cni\<close> and \<open>handlers\<close>.
  \<^item> \<open>Config\<close>, \<open>Config_Props\<close>, \<open>Startup\<close>, \<open>Startup_Props\<close>: packages \<open>config\<close> and \<open>cmd/ducatid\<close>.
  \<^item> \<open>Client\<close>, \<open>Client_Props\<close>: package \<open>client\<close>.  The way of a request to the daemon and back is the locale
    \<open>daemon_link\<close>, interpreted on the daemon's own routes.
  \<^item> \<open>Resolution\<close>, \<open>Daemon_Invariant\<close>, \<open>Stuck_Sandboxes\<close>: what only holds of all parts together: the way of an
    address, the invariant, and what no later request, command or call of the repository can undo.
  \<^item> \<open>Tasks\<close>, \<open>Task_Pools\<close>: goroutines that share mutexes, as trees of steps, and pools of them under a
    schedule.  The laws of the mutexes are the locale \<open>mutex_laws\<close>; in it stand the discipline of a task
    (\<open>orderly\<close>) and what follows of a pool: who holds what, that some goroutine can go on, that fair schedules end.
  \<^item> \<open>Request_Tasks\<close>, \<open>Request_Alone\<close>, \<open>Request_Runs\<close>, \<open>Request_Props\<close>: the Add and Del requests as
    such tasks, from \<open>cni\<close> down to \<open>sandbox\<close> and \<open>ipam\<close>; that a task alone is the program of its request; the
    interpretation of \<open>mutex_laws\<close> on the mutexes of the daemon; and what holds of any requests at the same time.

  \<^bold>\<open>State.\<close>  The records extend each other in the order in which the components are built:
  \<open>world\<close> (the system) \<open>\<subseteq> watch_world\<close> (\<open>missWatcher\<close>) \<open>\<subseteq> sandbox_world\<close> (\<open>sandbox.Repository\<close> and
  the sandboxes) \<open>\<subseteq> exec_world\<close> (the field that a command writes to) \<open>\<subseteq> daemon\<close> (the allocator).
  A program of a lower component runs unchanged on the larger records.

  \<^bold>\<open>What the lemmas show.\<close>
  \<^item> Allocation: any run of calls refines the table of leases; leases never clash; success and
    failure on every branch; an address is found while there is one; releases.  Concurrent
    allocations of different containers are linearizable, every request returns, and the stores stay
    sound under any interleaving; two requests for one container can both succeed.
  \<^item> Namespaces: the thread is where it should be, inside and after \<open>Execute\<close>, and under any scheduling of
    goroutines; with the runtime of Go 1.9 and before it is not.
  \<^item> Commands: a group stops at its first error and says where; nothing deadlocks.
  \<^item> Monitors: channels are closed once; the order of the misses is kept; what is never stopped.
  \<^item> Requests: what a status says about the state; what is read after what is written; an address
    from its lease to the resolved miss; what a failure and a restart leave behind.
  \<^item> The whole: an invariant from the start over any sequence of requests.
  \<^item> Requests at the same time: under any interleaving of their steps what they share stays sound, each mutex
    is held by one of them, their containers get addresses of their own, and every fair schedule answers them all.
  \<^item> The client sees the controllers and the datastore, up to the errors that the statuses can tell apart.

  \<^bold>\<open>How invariants are proved.\<close>  \<open>keeps P m\<close> says that the program \<open>m\<close> keeps \<open>P\<close>; \<open>system_only\<close>,
  \<open>confined\<close> and \<open>lock_safe\<close> are the three special cases that most programs satisfy (only the system
  changes; the allocator does not change; the mutexes end as they were).  Each has a collection of introduction
  rules, one per combinator and per operation, so a new operation is proved by its definition.

  \<^bold>\<open>Termination and bounds.\<close>  All functions are total.  The loop over a subnet ends because the next
  address is in the subnet only if it has four bytes and its number is one larger (the measure is
  \<open>2 ^ 32\<close> less that number); interleaved, a request needs at most as many steps as the subnet
  has addresses, and six.  A task is a well-founded tree, so a request has finitely many steps whatever happens in
  between.  The receive loop ends with the messages of its socket.  No function has fuel.
  Addresses are byte lists (\<open>8 word\<close>), SHA-1 works on \<open>32 word\<close>, VXLAN ids and statuses are unbounded
  integers, whose ranges are proved.

  \<^bold>\<open>What is assumed of the outside.\<close>  The system, the database, JSON, the HTTP transport and the router
  are arguments.  Theorems hold for all of them, but for those that name a law: the table obeys
  SQL (\<open>sql_table\<close>), a file has the name it was opened with (\<open>opens_by_name\<close>), requests and responses
  survive the wire (\<open>daemon_link\<close>).  Each law is shown to hold of a concrete instance.

  \<^bold>\<open>Concurrency.\<close>  Add and Del requests interleave at every \<open>Lock\<close> and \<open>Unlock\<close>, at the \<open>SetNS\<close> calls of
  \<open>Execute\<close>, at every call of the link factory, of the repositories and the datastore, at the accesses of the watcher's map and at
  every step of the allocator; what a call of those does by itself is one step.  A request has a system of
  its own as an argument, so requests may run on different threads.  The order of the mutexes (sandboxes before the
  repository) is the reason why nothing blocks.  Interleaved by themselves are the requests at the allocator, the goroutines of a
  monitor and those of \<open>Execute\<close> (\<open>Threads\<close>); \<open>Setup_Race\<close> shows what two setups can do to each other.  The theorems on
  statuses, on the datastore and on restarts take requests one after the other.

  \<^bold>\<open>Not modelled.\<close>
  \<^item> A panic ends its request and nothing else; in Go one inside \<open>Execute\<close> ends the daemon, and with it the run.
  \<^item> Logging (\<open>lager\<close>): nothing reads a log.
  \<^item> The process groups, the HTTP server and the debug server of \<open>main.go\<close>, which are other packages';
    of them there is the list of the members, and the message at the end.
  \<^item> \<open>fakes\<close>, \<open>lib/nl/fakes\<close> and \<open>acceptance\<close>: generated test doubles and tests, no part of the daemon.
\<close>

end
